(* ===== verification/Prelude.thy ===== *)
theory Prelude
  imports Main "HOL-Library.Word" "HOL-Library.AList"
begin

text \<open>
  Shared ground of the development: machine integers, byte strings, the result of a
  fallible Rust operation, and the state-passing form in which every \<open>&mut self\<close>
  method of the program is written.

  The binaries are built with \<^verbatim>\<open>cargo build --release\<close>
  (\<^verbatim>\<open>benchmark/benchmark/commands.py\<close>), so integer arithmetic is the wrapping
  arithmetic of \<open>word\<close>, and \<open>usize\<close> has 64 bits.
\<close>

section \<open>Integers and bytes\<close>

type_synonym u8 = "8 word"
type_synonym u32 = "32 word"
type_synonym u64 = "64 word"
type_synonym usize = "64 word"
type_synonym bytes = "u8 list"

definition le_bytes :: "nat \<Rightarrow> 'a::len word \<Rightarrow> bytes" where
  "le_bytes n w = map (\<lambda>i. ucast (drop_bit (8 * i) w)) [0..<n]"

definition be_bytes :: "nat \<Rightarrow> 'a::len word \<Rightarrow> bytes" where
  "be_bytes n w = rev (le_bytes n w)"

definition to_le_bytes :: "u64 \<Rightarrow> bytes" where
  "to_le_bytes w = le_bytes 8 w"

definition from_be_bytes :: "bytes \<Rightarrow> u64" where
  "from_be_bytes bs = foldl (\<lambda>acc b. push_bit 8 acc + ucast b) 0 bs"

lemma length_le_bytes [simp]: "length (le_bytes n w) = n"
  by (simp add: le_bytes_def)

lemma length_be_bytes [simp]: "length (be_bytes n w) = n"
  by (simp add: be_bytes_def)

lemma length_to_le_bytes [simp]: "length (to_le_bytes w) = 8"
  by (simp add: to_le_bytes_def)

lemma le_bytes_inj:
  fixes v w :: "'a::len word"
  assumes "LENGTH('a) \<le> 8 * n" and "le_bytes n v = le_bytes n w"
  shows "v = w"
proof (rule bit_word_eqI)
  fix k
  assume k: "k < LENGTH('a)"
  have i: "k div 8 < n"
    using k assms(1) by linarith
  have "(ucast (drop_bit (8 * (k div 8)) v) :: u8) = ucast (drop_bit (8 * (k div 8)) w)"
    using arg_cong [OF assms(2), of "\<lambda>bs. bs ! (k div 8)"] i by (simp add: le_bytes_def)
  then have "bit (ucast (drop_bit (8 * (k div 8)) v) :: u8) (k mod 8)
      = bit (ucast (drop_bit (8 * (k div 8)) w) :: u8) (k mod 8)"
    by simp
  then show "bit v k = bit w k"
    by (simp add: bit_ucast_iff bit_drop_bit_eq)
qed

lemma be_bytes_inj:
  fixes v w :: "'a::len word"
  assumes "LENGTH('a) \<le> 8 * n" and "be_bytes n v = be_bytes n w"
  shows "v = w"
  using assms by (simp add: be_bytes_def le_bytes_inj)

lemma to_le_bytes_inj [simp]: "to_le_bytes v = to_le_bytes w \<longleftrightarrow> v = w"
  by (auto simp: to_le_bytes_def intro: le_bytes_inj [of 8])

section \<open>Fallible, stateful code\<close>

text \<open>
  An \<open>async fn\<close> on \<open>&mut self\<close> that returns \<open>Result<T, E>\<close> is a function from the
  state to an outcome and the state it leaves behind. The state is kept whatever the
  outcome, since Rust keeps the mutations made before an early return. \<open>Panic\<close> ends
  the task that runs the code. \<open>Diverge\<close> is recursion that does not come back within
  the recursion bound of the environment.
\<close>

datatype panic_reason = UnwrapNone | MissingKey | UnexpectedMessage | RemByZero | SliceRange
  | ChannelClosed | ExpectFailed

datatype ('e, 'a) outcome = Ok 'a | Err 'e | Panic panic_reason | Diverge

type_synonym ('s, 'e, 'a) act = "'s \<Rightarrow> ('e, 'a) outcome \<times> 's"

definition ret :: "'a \<Rightarrow> ('s, 'e, 'a) act" where
  "ret x = (\<lambda>s. (Ok x, s))"

definition throw :: "'e \<Rightarrow> ('s, 'e, 'a) act" where
  "throw e = (\<lambda>s. (Err e, s))"

definition panic :: "panic_reason \<Rightarrow> ('s, 'e, 'a) act" where
  "panic p = (\<lambda>s. (Panic p, s))"

definition diverge :: "('s, 'e, 'a) act" where
  "diverge = (\<lambda>s. (Diverge, s))"

definition bind :: "('s, 'e, 'a) act \<Rightarrow> ('a \<Rightarrow> ('s, 'e, 'b) act) \<Rightarrow> ('s, 'e, 'b) act" where
  "bind m f = (\<lambda>s. case m s of (r, s') \<Rightarrow>
     (case r of Ok x \<Rightarrow> f x s' | Err e \<Rightarrow> (Err e, s') | Panic p \<Rightarrow> (Panic p, s')
      | Diverge \<Rightarrow> (Diverge, s')))"

definition gets :: "('s \<Rightarrow> 'a) \<Rightarrow> ('s, 'e, 'a) act" where
  "gets f = (\<lambda>s. (Ok (f s), s))"

definition modify :: "('s \<Rightarrow> 's) \<Rightarrow> ('s, 'e, unit) act" where
  "modify f = (\<lambda>s. (Ok (), f s))"

definition lift :: "'e + 'a \<Rightarrow> ('s, 'e, 'a) act" where
  "lift r = (case r of Inl e \<Rightarrow> throw e | Inr x \<Rightarrow> ret x)"

definition unwrap :: "'a option \<Rightarrow> ('s, 'e, 'a) act" where
  "unwrap x = (case x of None \<Rightarrow> panic UnwrapNone | Some y \<Rightarrow> ret y)"

definition whenever :: "bool \<Rightarrow> ('s, 'e, unit) act \<Rightarrow> ('s, 'e, unit) act" where
  "whenever b m = (if b then m else ret ())"

text \<open>\<open>ensure!(cond, err)\<close> of \<^verbatim>\<open>consensus/src/error.rs\<close>.\<close>

definition ensure :: "bool \<Rightarrow> 'e \<Rightarrow> 'e + unit" where
  "ensure b e = (if b then Inr () else Inl e)"

text \<open>Sequencing of results without state (the \<open>?\<close> operator in pure functions).\<close>

definition rbind :: "'e + 'a \<Rightarrow> ('a \<Rightarrow> 'e + 'b) \<Rightarrow> 'e + 'b" where
  "rbind r f = (case r of Inl e \<Rightarrow> Inl e | Inr x \<Rightarrow> f x)"

lemmas act_defs = ret_def throw_def panic_def diverge_def bind_def gets_def modify_def
  lift_def unwrap_def whenever_def

lemma ensure_simps [simp]:
  "ensure True e = Inr ()" "ensure False e = Inl e"
  "ensure b e = Inr x \<longleftrightarrow> b" "ensure b e = Inl e' \<longleftrightarrow> \<not> b \<and> e' = e"
  by (auto simp: ensure_def)

lemma rbind_simps [simp]:
  "rbind (Inl e) f = Inl e" "rbind (Inr x) f = f x"
  by (simp_all add: rbind_def)

lemma rbind_eq_Inr: "rbind r f = Inr y \<longleftrightarrow> (\<exists>x. r = Inr x \<and> f x = Inr y)"
  by (cases r) auto

section \<open>Invariants of state-passing code\<close>

text \<open>
  \<open>pres I m\<close>: whatever the outcome of \<open>m\<close>, a state that satisfied \<open>I\<close> before
  satisfies it after.
\<close>

definition pres :: "('s \<Rightarrow> bool) \<Rightarrow> ('s, 'e, 'a) act \<Rightarrow> bool" where
  "pres I m \<longleftrightarrow> (\<forall>s. I s \<longrightarrow> I (snd (m s)))"

named_theorems pres_rules "rules that take a preservation goal apart"

lemma presD: "pres I m \<Longrightarrow> I s \<Longrightarrow> I (snd (m s))"
  by (simp add: pres_def)

lemma pres_ret [pres_rules]: "pres I (ret x)"
  by (simp add: pres_def act_defs)

lemma pres_throw [pres_rules]: "pres I (throw e)"
  by (simp add: pres_def act_defs)

lemma pres_panic [pres_rules]: "pres I (panic p)"
  by (simp add: pres_def act_defs)

lemma pres_diverge [pres_rules]: "pres I diverge"
  by (simp add: pres_def act_defs)

lemma pres_gets [pres_rules]: "pres I (gets f)"
  by (simp add: pres_def act_defs)

lemma pres_lift [pres_rules]: "pres I (lift r)"
  by (simp add: pres_def act_defs split: sum.split)

lemma pres_unwrap [pres_rules]: "pres I (unwrap x)"
  by (simp add: pres_def act_defs split: option.split)

lemma pres_bind [pres_rules]:
  "pres I m \<Longrightarrow> (\<And>x. pres I (f x)) \<Longrightarrow> pres I (bind m f)"
  by (auto simp: pres_def bind_def split: prod.split outcome.split)

lemma pres_whenever [pres_rules]: "(b \<Longrightarrow> pres I m) \<Longrightarrow> pres I (whenever b m)"
  by (simp add: pres_def whenever_def ret_def)

lemma pres_if [pres_rules]:
  "(b \<Longrightarrow> pres I m) \<Longrightarrow> (\<not> b \<Longrightarrow> pres I n) \<Longrightarrow> pres I (if b then m else n)"
  by simp

lemma pres_case_option [pres_rules]:
  "(x = None \<Longrightarrow> pres I m) \<Longrightarrow> (\<And>y. x = Some y \<Longrightarrow> pres I (f y)) \<Longrightarrow>
     pres I (case x of None \<Rightarrow> m | Some y \<Rightarrow> f y)"
  by (cases x) auto

lemma pres_case_prod [pres_rules]:
  "(\<And>a b. x = (a, b) \<Longrightarrow> pres I (f a b)) \<Longrightarrow> pres I (case x of (a, b) \<Rightarrow> f a b)"
  by (cases x) auto

lemma pres_modify: "(\<And>s. I s \<Longrightarrow> I (f s)) \<Longrightarrow> pres I (modify f)"
  by (simp add: pres_def modify_def)

text \<open>
  \<open>wp m Q E s\<close>: run on \<open>s\<close>, the code \<open>m\<close> comes back without a panic, with \<open>Q x\<close> of the
  state when it returns \<open>x\<close> and with \<open>E\<close> of the state when it returns an error. The
  equations compute \<open>wp\<close> of composed code, so that a goal about a method is taken apart by
  \<open>simp\<close>.
\<close>

definition wp :: "('s, 'e, 'a) act \<Rightarrow> ('a \<Rightarrow> 's \<Rightarrow> bool) \<Rightarrow> ('s \<Rightarrow> bool) \<Rightarrow> 's \<Rightarrow> bool" where
  "wp m Q E s = (case m s of (r, s') \<Rightarrow>
     (case r of Ok x \<Rightarrow> Q x s' | Err e \<Rightarrow> E s' | Panic p \<Rightarrow> False | Diverge \<Rightarrow> False))"

lemma wp_simps [simp]:
  "wp (ret x) Q E s \<longleftrightarrow> Q x s" "wp (throw e) Q E s \<longleftrightarrow> E s" "wp (panic p) Q E s \<longleftrightarrow> False"
  "wp diverge Q E s \<longleftrightarrow> False" "wp (gets f) Q E s \<longleftrightarrow> Q (f s) s"
  "wp (modify g) Q1 E s \<longleftrightarrow> Q1 () (g s)"
  "wp (whenever b m) Q1 E s \<longleftrightarrow> (if b then wp m Q1 E s else Q1 () s)"
  "wp (lift r) Q E s \<longleftrightarrow> (case r of Inl e \<Rightarrow> E s | Inr x \<Rightarrow> Q x s)"
  "wp (unwrap y) Q E s \<longleftrightarrow> (case y of None \<Rightarrow> False | Some x \<Rightarrow> Q x s)"
  by (auto simp: wp_def act_defs split: sum.split option.split)

lemma wp_bind [simp]: "wp (bind m f) Q E s \<longleftrightarrow> wp m (\<lambda>x. wp (f x) Q E) E s"
  by (auto simp: wp_def bind_def split: prod.split outcome.split)

lemma wp_mono:
  "wp m Q' E' s \<Longrightarrow> (\<And>x s'. Q' x s' \<Longrightarrow> Q x s') \<Longrightarrow> (\<And>s'. E' s' \<Longrightarrow> E s') \<Longrightarrow> wp m Q E s"
  by (auto simp: wp_def split: prod.splits outcome.splits)

lemma wp_pres: "(\<And>s. I s \<Longrightarrow> wp m (\<lambda>_. I) I s) \<Longrightarrow> pres I m"
  unfolding wp_def pres_def by (fastforce split: prod.splits outcome.splits)

lemma wp_no_panic: "wp m Q E s \<Longrightarrow> fst (m s) \<noteq> Panic p \<and> fst (m s) \<noteq> Diverge"
  by (auto simp: wp_def split: prod.splits outcome.splits)

section \<open>Hash maps\<close>

text \<open>
  A \<open>HashMap\<close> that is only looked up is a map; \<open>retain\<close> keeps the entries whose key
  satisfies a predicate. A \<open>HashMap\<close> that is iterated over is a list of pairs in the
  order of iteration, written with \<open>AList.update\<close>.
\<close>

definition retain :: "('k \<Rightarrow> bool) \<Rightarrow> ('k \<rightharpoonup> 'v) \<Rightarrow> ('k \<rightharpoonup> 'v)" where
  "retain P m = (\<lambda>k. if P k then m k else None)"

lemma retain_apply [simp]: "retain P m k = (if P k then m k else None)"
  by (simp add: retain_def)

lemma retain_empty [simp]: "retain P Map.empty = Map.empty"
  by (auto simp: retain_def)

lemma dom_retain: "dom (retain P m) = dom m \<inter> Collect P"
  by (auto simp: dom_def split: if_splits)

lemma map_of_update [simp]: "map_of (AList.update k v xs) = (map_of xs)(k \<mapsto> v)"
  by (simp add: update_conv')

lemma keys_update:
  "fst ` set (AList.update k v xs) = insert k (fst ` set xs)"
  using dom_update [of k v xs] by (simp add: dom_map_of_conv_image_fst)

lemma set_AList_update: "set (AList.update k v xs) \<subseteq> insert (k, v) (set xs)"
  by (induction xs) auto

lemma mem_map_filter: "y \<in> set (List.map_filter f xs) \<longleftrightarrow> (\<exists>x \<in> set xs. f x = Some y)"
  by (induction xs) (auto simp: map_filter_simps split: option.splits)

text \<open>Sums of 32-bit stakes.\<close>

lemma unat_sum_list_le: "unat (sum_list xs :: 'a::len word) \<le> sum_list (map unat xs)"
proof (induction xs)
  case Nil
  then show ?case by simp
next
  case (Cons x xs)
  have "unat (x + sum_list xs) \<le> unat x + unat (sum_list xs)"
    by (simp add: unat_word_ariths)
  with Cons show ?case by simp
qed

lemma unat_sum_list:
  "sum_list (map unat xs) < 2 ^ LENGTH('a) \<Longrightarrow>
     unat (sum_list xs :: 'a::len word) = sum_list (map unat xs)"
proof (induction xs)
  case Nil
  then show ?case by simp
next
  case (Cons x xs)
  then have "unat (sum_list xs) = sum_list (map unat xs)"
    by simp
  with Cons.prems show ?case
    by (simp add: unat_word_ariths)
qed

end
