(* ===== verification/Crypto.thy ===== *)
theory Crypto
  imports Prelude "HOL-Library.List_Lexorder"
begin

text \<open>
  \<^verbatim>\<open>crypto/src/lib.rs\<close>: digests, public keys, signatures and the signature service.
  A \<open>[u8; 32]\<close> is a 256-bit word, most significant byte first, a \<open>[u8; 64]\<close> a 512-bit
  word. SHA-512, ed25519, base64 and the threshold signatures come from crates, so they
  are the fields of the parameter \<open>primitives\<close> and of \<open>public_key_set\<close>.
\<close>

section \<open>Data\<close>

datatype digest = Digest (digest_bits: "256 word")
datatype public_key = PublicKey (key_bits: "256 word")
datatype secret_key = SecretKey "512 word"
datatype signature = Signature (part1: "256 word") (part2: "256 word")

definition default_digest :: digest where
  "default_digest = Digest 0"

definition default_key :: public_key where
  "default_key = PublicKey 0"

definition default_signature :: signature where
  "default_signature = Signature 0 0"

definition digest_to_vec :: "digest \<Rightarrow> bytes" where
  "digest_to_vec d = be_bytes 32 (digest_bits d)"

definition digest_size :: "digest \<Rightarrow> nat" where
  "digest_size d = length (digest_to_vec d)"

definition key_bytes :: "public_key \<Rightarrow> bytes" where
  "key_bytes k = be_bytes 32 (key_bits k)"

text \<open>\<open>Digest::try_from(&[u8])\<close> fails on any length but 32.\<close>

definition word_of_bytes :: "bytes \<Rightarrow> 'a::len word" where
  "word_of_bytes bs = foldl (\<lambda>acc b. push_bit 8 acc + ucast b) 0 bs"

definition digest_try_from :: "bytes \<Rightarrow> digest option" where
  "digest_try_from bs = (if length bs = 32 then Some (Digest (word_of_bytes bs)) else None)"

text \<open>The derived \<open>Ord\<close> of \<open>PublicKey\<close> compares the arrays byte by byte.\<close>

instantiation public_key :: linorder
begin

definition less_eq_public_key :: "public_key \<Rightarrow> public_key \<Rightarrow> bool" where
  "less_eq_public_key a b \<longleftrightarrow> key_bits a \<le> key_bits b"

definition less_public_key :: "public_key \<Rightarrow> public_key \<Rightarrow> bool" where
  "less_public_key a b \<longleftrightarrow> key_bits a < key_bits b"

instance
  by standard (auto simp: less_eq_public_key_def less_public_key_def public_key.expand)

end

section \<open>Primitives\<close>

text \<open>
  \<open>sha512\<close> digests the concatenation of what the hasher was updated with;
  \<open>sig_from_bytes\<close> and \<open>pk_from_bytes\<close> say whether ed25519 accepts the bytes as a
  signature or a key; \<open>verify_strict\<close> takes key, message and signature;
  \<open>dalek_verify_batch\<close> the lists of messages, signatures and keys; \<open>keypair_from_bytes\<close>
  says whether a secret key loads and \<open>dalek_sign\<close> signs with it.
\<close>

record primitives =
  sha512 :: "bytes \<Rightarrow> 512 word"
  sig_from_bytes :: "512 word \<Rightarrow> bool"
  pk_from_bytes :: "256 word \<Rightarrow> bool"
  verify_strict :: "256 word \<Rightarrow> 256 word \<Rightarrow> 512 word \<Rightarrow> bool"
  dalek_verify_batch :: "256 word list \<Rightarrow> 512 word list \<Rightarrow> 256 word list \<Rightarrow> bool"
  keypair_from_bytes :: "512 word \<Rightarrow> bool"
  dalek_sign :: "512 word \<Rightarrow> 256 word \<Rightarrow> 512 word"

text \<open>A share of a threshold signature, known only by its serialised bytes.\<close>

datatype signature_share = SignatureShare bytes

text \<open>
  \<open>threshold_crypto::PublicKeySet\<close>: verification of a share under the key share of an
  index, and the combination of the shares of an ordered map into the bytes of a signature.
\<close>

record public_key_set =
  share_verify :: "usize \<Rightarrow> signature_share \<Rightarrow> digest \<Rightarrow> bool"
  combine_signatures :: "(usize \<rightharpoonup> signature_share) \<Rightarrow> bytes option"

datatype crypto_error = SignatureError

section \<open>Hashing\<close>

text \<open>\<open>Digest(hasher.finalize().as_slice()[..32])\<close>: the first half of the hash.\<close>

definition finalize32 :: "primitives \<Rightarrow> bytes \<Rightarrow> digest" where
  "finalize32 cr bs = Digest (ucast (drop_bit 256 (sha512 cr bs)))"

section \<open>Signatures\<close>

definition flatten :: "signature \<Rightarrow> 512 word" where
  "flatten s = push_bit 256 (ucast (part1 s)) + ucast (part2 s)"

text \<open>\<open>Signature::new\<close>; \<open>None\<close> where \<open>expect("Unable to load secret key")\<close> panics.\<close>

fun signature_new :: "primitives \<Rightarrow> digest \<Rightarrow> secret_key \<Rightarrow> signature option" where
  "signature_new cr d (SecretKey sk) =
     (if keypair_from_bytes cr sk then
        (let sig = dalek_sign cr sk (digest_bits d)
         in Some (Signature (ucast (drop_bit 256 sig)) (ucast sig)))
      else None)"

definition signature_verify :: "primitives \<Rightarrow> signature \<Rightarrow> digest \<Rightarrow> public_key \<Rightarrow> crypto_error + unit"
  where
  "signature_verify cr s d k =
     (if \<not> sig_from_bytes cr (flatten s) then Inl SignatureError
      else if \<not> pk_from_bytes cr (key_bits k) then Inl SignatureError
      else if verify_strict cr (key_bits k) (digest_bits d) (flatten s) then Inr ()
      else Inl SignatureError)"

text \<open>The loop of \<open>Signature::verify_batch\<close> over the votes: three vectors, or an error.\<close>

fun collect_batch :: "primitives \<Rightarrow> digest \<Rightarrow> (public_key \<times> signature) list \<Rightarrow>
    crypto_error + (256 word list \<times> 512 word list \<times> 256 word list)" where
  "collect_batch cr d [] = Inr ([], [], [])"
| "collect_batch cr d ((k, s) # votes) =
     (if \<not> sig_from_bytes cr (flatten s) then Inl SignatureError
      else if \<not> pk_from_bytes cr (key_bits k) then Inl SignatureError
      else rbind (collect_batch cr d votes) (\<lambda>(ms, ss, ks).
        Inr (digest_bits d # ms, flatten s # ss, key_bits k # ks)))"

definition verify_batch :: "primitives \<Rightarrow> digest \<Rightarrow> (public_key \<times> signature) list \<Rightarrow> crypto_error + unit"
  where
  "verify_batch cr d votes = rbind (collect_batch cr d votes) (\<lambda>(ms, ss, ks).
     if dalek_verify_batch cr ms ss ks then Inr () else Inl SignatureError)"

section \<open>The signature service\<close>

text \<open>
  The service task holds the secret key and, if it was given one, a threshold key share,
  which is known by the shares it signs.
\<close>

record signature_service =
  secret :: secret_key
  tss_channel :: "(digest \<Rightarrow> signature_share) option"

definition signature_service_new ::
    "secret_key \<Rightarrow> (digest \<Rightarrow> signature_share) option \<Rightarrow> signature_service" where
  "signature_service_new sk tss = \<lparr>secret = sk, tss_channel = tss\<rparr>"

text \<open>
  A request to a service whose task has died on a bad key is answered by the panic of
  \<open>expect("Failed to receive signature ...")\<close>.
\<close>

definition request_signature :: "primitives \<Rightarrow> signature_service \<Rightarrow> digest \<Rightarrow> ('s, 'e, signature) act"
  where
  "request_signature cr svc d = (case signature_new cr d (secret svc) of
     None \<Rightarrow> panic ExpectFailed | Some s \<Rightarrow> ret s)"

definition request_tss_signature :: "signature_service \<Rightarrow> digest \<Rightarrow> signature_share option" where
  "request_tss_signature svc d = map_option (\<lambda>sign. sign d) (tss_channel svc)"

section \<open>Key pairs\<close>

text \<open>\<open>generate_keypair\<close>; \<open>generate\<close> is \<open>Keypair::generate\<close>, which gives the bytes of the public key and of the pair.\<close>

definition generate_keypair :: "('rng \<Rightarrow> 256 word \<times> 512 word) \<Rightarrow> 'rng \<Rightarrow> public_key \<times> secret_key" where
  "generate_keypair generate csprng = (case generate csprng of (public, pair) \<Rightarrow> (PublicKey public, SecretKey pair))"

section \<open>Base64 form of keys\<close>

text \<open>
  \<open>decode\<close> is \<open>base64::decode\<close>, with \<open>None\<close> for its errors. \<open>bytes[..32]\<close> panics on a
  shorter slice and drops what follows the first 32 bytes of a longer one.
\<close>

definition from_base64 :: "(string \<Rightarrow> bytes option) \<Rightarrow> string \<Rightarrow> (unit, public_key) outcome" where
  "from_base64 decode s = (case decode s of
     None \<Rightarrow> Err ()
   | Some bs \<Rightarrow> if length bs < 32 then Panic SliceRange
       else Ok (PublicKey (word_of_bytes (take 32 bs))))"

definition to_base64 :: "(bytes \<Rightarrow> string) \<Rightarrow> public_key \<Rightarrow> string" where
  "to_base64 encode k = encode (key_bytes k)"

text \<open>\<open>SecretKey\<close>, with 64 bytes.\<close>

definition secret_from_base64 :: "(string \<Rightarrow> bytes option) \<Rightarrow> string \<Rightarrow> (unit, secret_key) outcome" where
  "secret_from_base64 decode s = (case decode s of
     None \<Rightarrow> Err ()
   | Some bs \<Rightarrow> if length bs < 64 then Panic SliceRange
       else Ok (SecretKey (word_of_bytes (take 64 bs))))"

fun secret_to_base64 :: "(bytes \<Rightarrow> string) \<Rightarrow> secret_key \<Rightarrow> string" where
  "secret_to_base64 encode (SecretKey w) = encode (be_bytes 64 w)"

section \<open>Lemmas\<close>

lemma length_key_bytes [simp]: "length (key_bytes k) = 32"
  by (simp add: key_bytes_def)

lemma length_digest_to_vec [simp]: "length (digest_to_vec d) = 32"
  by (simp add: digest_to_vec_def)

lemma key_bytes_inj [simp]: "key_bytes k = key_bytes k' \<longleftrightarrow> k = k'"
  using be_bytes_inj [of 32 "key_bits k" "key_bits k'"]
  by (auto simp: key_bytes_def public_key.expand)

lemma digest_to_vec_inj [simp]: "digest_to_vec d = digest_to_vec d' \<longleftrightarrow> d = d'"
  using be_bytes_inj [of 32 "digest_bits d" "digest_bits d'"]
  by (auto simp: digest_to_vec_def digest.expand)

lemma collect_batch_Inr:
  "collect_batch cr d votes = Inr (ms, ss, ks) \<longleftrightarrow>
     (\<forall>(k, s) \<in> set votes. sig_from_bytes cr (flatten s) \<and> pk_from_bytes cr (key_bits k))
     \<and> ms = map (\<lambda>_. digest_bits d) votes \<and> ss = map (flatten \<circ> snd) votes
     \<and> ks = map (key_bits \<circ> fst) votes"
  by (induction cr d votes arbitrary: ms ss ks rule: collect_batch.induct)
    (auto simp: rbind_eq_Inr)

lemma verify_batch_Inr:
  "verify_batch cr d votes = Inr () \<longleftrightarrow>
     (\<forall>(k, s) \<in> set votes. sig_from_bytes cr (flatten s) \<and> pk_from_bytes cr (key_bits k))
     \<and> dalek_verify_batch cr (map (\<lambda>_. digest_bits d) votes) (map (flatten \<circ> snd) votes)
         (map (key_bits \<circ> fst) votes)"
  by (auto simp: verify_batch_def rbind_eq_Inr collect_batch_Inr split: if_splits)

text \<open>Cutting the 64 bytes of a signature in two and joining them again loses nothing.\<close>

lemma flatten_split:
  "flatten (Signature (ucast (drop_bit 256 w)) (ucast w)) = w"
proof (rule bit_word_eqI)
  fix n
  assume n: "n < LENGTH(512)"
  have disj: "and (push_bit 256 (ucast (ucast (drop_bit 256 w) :: 256 word))) (ucast (ucast w :: 256 word)) = (0 :: 512 word)"
    by (rule bit_word_eqI) (auto simp: bit_simps)
  have "flatten (Signature (ucast (drop_bit 256 w)) (ucast w))
      = or (push_bit 256 (ucast (ucast (drop_bit 256 w) :: 256 word))) (ucast (ucast w :: 256 word))"
    by (simp add: flatten_def disjunctive_add_eq_or disj)
  then show "bit (flatten (Signature (ucast (drop_bit 256 w)) (ucast w))) n = bit w n"
    using n by (auto simp: bit_simps)
qed

end
