(* ===== verification/Consensus_Error.thy ===== *)
theory Consensus_Error
  imports Crypto
begin

text \<open>
  \<^verbatim>\<open>consensus/src/error.rs\<close>: the errors of the consensus crate, with the source's
  constructors. The payload of an error that another crate produces (I/O, bincode,
  RocksDB) is its message.
\<close>

datatype store_error = RocksdbError string
datatype bincode_error = BincodeError string
datatype io_error = IoError string

datatype consensus_error =
    EpochEnd u64
  | NetworkError io_error
  | SerializationError bincode_error
  | StoreError store_error
  | NotInCommittee public_key
  | SPBPhaseWrong u8 u8
  | InvalidFinProof
  | InvalidSignature crypto_error
  | InvalidThresholdSignature public_key
  | InvalidPrePareTag u8
  | TimeOutMessage u64 u64
  | RandomCoinWithWrongLeader
  | RandomCoinWithWrongShares
  | AuthorityReuseinQC public_key
  | AuthorityReuseinProof public_key "public_key list"
  | AuthorityReuseinABA public_key u8
  | AuthorityReuseinABAOut public_key
  | AuthorityReuseinPrePare public_key
  | AuthorityReuseinTC public_key
  | AuthorityReuseinCoin public_key
  | AuthorityReuseinSPB public_key
  | UnknownAuthority public_key
  | QCRequiresQuorum
  | TCRequiresQuorum
  | RandomCoinRequiresQuorum
  | SPBRequiresQuorum
  | MalformedBlock digest
  | WrongAuthor digest public_key u64
  | InvalidPayload
  | NonConsecutiveRounds u64 u64 u64
  | InvalidPhase u8

type_synonym 'a consensus_result = "consensus_error + 'a"

text \<open>The conversions that \<open>?\<close> applies (\<open>#[from]\<close>).\<close>

definition from_crypto :: "crypto_error + 'a \<Rightarrow> 'a consensus_result" where
  "from_crypto r = (case r of Inl e \<Rightarrow> Inl (InvalidSignature e) | Inr x \<Rightarrow> Inr x)"

definition from_store :: "store_error + 'a \<Rightarrow> 'a consensus_result" where
  "from_store r = (case r of Inl e \<Rightarrow> Inl (StoreError e) | Inr x \<Rightarrow> Inr x)"

definition from_bincode :: "bincode_error + 'a \<Rightarrow> 'a consensus_result" where
  "from_bincode r = (case r of Inl e \<Rightarrow> Inl (SerializationError e) | Inr x \<Rightarrow> Inr x)"

lemma from_Inr [simp]:
  "from_crypto r = Inr x \<longleftrightarrow> r = Inr x" "from_store r' = Inr y \<longleftrightarrow> r' = Inr y"
  "from_bincode r'' = Inr z \<longleftrightarrow> r'' = Inr z"
  by (auto simp: from_crypto_def from_store_def from_bincode_def split: sum.splits)

end
