(* ===== verification/Committee.thy ===== *)
theory Committee
  imports Consensus_Error
begin

text \<open>
  \<^verbatim>\<open>consensus/src/config.rs\<close> and \<^verbatim>\<open>consensus/src/leader.rs\<close>: the parameters, the
  committee with its stakes, thresholds and addresses, and the rotation of the leader. The
  lemmas show what the thresholds are as numbers and how far two quorums must overlap.
\<close>

section \<open>Parameters and committee\<close>

record parameters =
  node_sync_delay :: u64
  timeout_delay :: u64
  sync_retry_delay :: u64
  network_delay :: u64
  max_payload_size :: nat
  min_block_delay :: u64
  ddos :: bool
  random_ddos :: bool
  random_ddos_chance :: u64
  exp_param :: u64

definition default_parameters :: parameters where
  "default_parameters = \<lparr>node_sync_delay = 500, timeout_delay = 5000, sync_retry_delay = 10000,
     network_delay = 100, max_payload_size = 500, min_block_delay = 100, ddos = False,
     random_ddos = False, random_ddos_chance = 5, exp_param = 1\<rparr>"

datatype socket_addr = V4 u32 "16 word" | V6 "128 word" "16 word"

record authority =
  a_name :: public_key
  a_id :: usize
  a_stake :: u32
  a_address :: socket_addr
  a_smvba_address :: socket_addr

text \<open>The \<open>HashMap\<close> of authorities is a list of pairs, in its order of iteration.\<close>

record committee =
  authorities :: "(public_key \<times> authority) list"
  committee_epoch :: "128 word"

definition committee_new ::
    "(public_key \<times> usize \<times> u32 \<times> socket_addr \<times> socket_addr) list \<Rightarrow> 128 word \<Rightarrow> committee" where
  "committee_new info ep =
     \<lparr>authorities = fold (\<lambda>(nm, i, st, adr, sadr). AList.update nm
        \<lparr>a_name = nm, a_id = i, a_stake = st, a_address = adr, a_smvba_address = sadr\<rparr>) info [],
      committee_epoch = ep\<rparr>"

definition members :: "committee \<Rightarrow> public_key list" where
  "members c = map fst (authorities c)"

definition committee_size :: "committee \<Rightarrow> nat" where
  "committee_size c = length (authorities c)"

definition stake :: "committee \<Rightarrow> public_key \<Rightarrow> u32" where
  "stake c k = (case map_of (authorities c) k of None \<Rightarrow> 0 | Some a \<Rightarrow> a_stake a)"

text \<open>\<open>Committee::id\<close> unwraps the lookup.\<close>

definition committee_id :: "committee \<Rightarrow> public_key \<Rightarrow> usize option" where
  "committee_id c k = map_option a_id (map_of (authorities c) k)"

definition total_votes :: "committee \<Rightarrow> u32" where
  "total_votes c = sum_list (map (a_stake \<circ> snd) (authorities c))"

definition quorum_threshold :: "committee \<Rightarrow> u32" where
  "quorum_threshold c = 2 * ((total_votes c - 1) div 3) + 1"

definition large_threshold :: "committee \<Rightarrow> u32" where
  "large_threshold c = total_votes c - 1"

definition random_coin_threshold :: "committee \<Rightarrow> u32" where
  "random_coin_threshold c = (total_votes c - 1) div 3 + 1"

definition address :: "committee \<Rightarrow> public_key \<Rightarrow> socket_addr consensus_result" where
  "address c k = (case map_of (authorities c) k of
     None \<Rightarrow> Inl (NotInCommittee k) | Some a \<Rightarrow> Inr (a_address a))"

definition smvba_address :: "committee \<Rightarrow> public_key \<Rightarrow> socket_addr consensus_result" where
  "smvba_address c k = (case map_of (authorities c) k of
     None \<Rightarrow> Inl (NotInCommittee k) | Some a \<Rightarrow> Inr (a_smvba_address a))"

definition broadcast_addresses :: "committee \<Rightarrow> public_key \<Rightarrow> socket_addr list" where
  "broadcast_addresses c myself =
     map a_address (filter (\<lambda>a. a_name a \<noteq> myself) (map snd (authorities c)))"

definition smvba_broadcast_addresses :: "committee \<Rightarrow> public_key \<Rightarrow> socket_addr list" where
  "smvba_broadcast_addresses c myself =
     map a_smvba_address (filter (\<lambda>a. a_name a \<noteq> myself) (map snd (authorities c)))"

section \<open>Leader election\<close>

text \<open>\<open>None\<close> where \<open>epoch % size\<close> divides by zero.\<close>

definition get_leader :: "committee \<Rightarrow> u64 \<Rightarrow> public_key option" where
  "get_leader c ep =
     (if committee_size c = 0 then None
      else Some (sort (members c) ! (unat ep mod committee_size c)))"

section \<open>Well-formed committees\<close>

text \<open>
  What a committee built by \<open>Committee::new\<close> satisfies (one entry per key, filed under its
  own name), and the bound under which the sum of the stakes does not wrap.
\<close>

definition committee_ok :: "committee \<Rightarrow> bool" where
  "committee_ok c \<longleftrightarrow> distinct (members c) \<and> (\<forall>(k, a) \<in> set (authorities c). a_name a = k)"

definition total_stake :: "committee \<Rightarrow> nat" where
  "total_stake c = sum_list (map (unat \<circ> a_stake \<circ> snd) (authorities c))"

definition stakes_fit :: "committee \<Rightarrow> bool" where
  "stakes_fit c \<longleftrightarrow> 0 < total_stake c \<and> total_stake c < 2 ^ 32"

definition weight_of :: "committee \<Rightarrow> public_key set \<Rightarrow> nat" where
  "weight_of c A = (\<Sum>k \<in> A \<inter> set (members c). unat (stake c k))"

lemma fold_update_ok:
  "distinct (map fst acc) \<Longrightarrow> (\<forall>(k, a) \<in> set acc. a_name a = k) \<Longrightarrow>
   (let as = fold (\<lambda>(nm, i, st, adr, sadr). AList.update nm
        \<lparr>a_name = nm, a_id = i, a_stake = st, a_address = adr, a_smvba_address = sadr\<rparr>) info acc
    in distinct (map fst as) \<and> (\<forall>(k, a) \<in> set as. a_name a = k))"
proof (induction info arbitrary: acc)
  case Nil
  then show ?case by simp
next
  case (Cons x info)
  obtain nm i st adr sadr where x: "x = (nm, i, st, adr, sadr)"
    by (cases x)
  let ?a = "\<lparr>a_name = nm, a_id = i, a_stake = st, a_address = adr, a_smvba_address = sadr\<rparr>"
  have "\<forall>(k, a) \<in> set (AList.update nm ?a acc). a_name a = k"
  proof -
    have "\<forall>(k, a) \<in> set (AList.update nm ?a xs). a_name a = k"
      if "\<forall>(k, a) \<in> set xs. a_name a = k" for xs
      using that by (induction xs) auto
    with Cons.prems show ?thesis by blast
  qed
  with Cons.IH [of "AList.update nm ?a acc"] Cons.prems show ?case
    by (simp add: x distinct_update)
qed

lemma committee_new_ok: "committee_ok (committee_new info ep)"
  using fold_update_ok [of "[]" info]
  by (simp add: committee_ok_def committee_new_def members_def Let_def)

lemma stake_eq_0: "k \<notin> set (members c) \<Longrightarrow> stake c k = 0"
  by (simp add: stake_def members_def map_of_eq_None_iff [THEN iffD2])

lemma total_stake_weight:
  assumes "committee_ok c"
  shows "total_stake c = weight_of c UNIV"
proof -
  have d: "distinct (map fst (authorities c))"
    using assms by (simp add: committee_ok_def members_def)
  have "total_stake c = sum_list (map (\<lambda>x. unat (stake c (fst x))) (authorities c))"
    unfolding total_stake_def
  proof (rule arg_cong [where f = sum_list], rule map_cong)
    fix x assume "x \<in> set (authorities c)"
    then have "map_of (authorities c) (fst x) = Some (snd x)"
      using d by simp
    then show "(unat \<circ> a_stake \<circ> snd) x = unat (stake c (fst x))"
      by (simp add: stake_def)
  qed simp
  also have "\<dots> = sum_list (map (\<lambda>k. unat (stake c k)) (members c))"
    by (simp add: members_def comp_def)
  also have "\<dots> = weight_of c UNIV"
    using assms by (simp add: weight_of_def committee_ok_def sum_list_distinct_conv_sum_set)
  finally show ?thesis .
qed

lemma unat_total_votes: "stakes_fit c \<Longrightarrow> unat (total_votes c) = total_stake c"
  unfolding total_votes_def total_stake_def stakes_fit_def
  by (subst unat_sum_list) (simp_all add: comp_assoc)

text \<open>With \<open>N = 3 f + 1 + k\<close> and \<open>k < 3\<close>, the code's quorum is \<open>2 f + 1\<close>.\<close>

lemma unat_third:
  fixes w :: u32
  assumes "0 < unat w"
  shows "unat ((w - 1) div 3) = (unat w - 1) div 3"
proof -
  have "unat (w - 1) = unat w - 1"
    using assms by (metis One_nat_def unat_0 unat_minus_one less_numeral_extra(3))
  then show ?thesis by (simp add: unat_div_distrib)
qed

lemma unat_double_Suc:
  fixes x :: u32
  shows "2 * unat x + 1 < 2 ^ 32 \<Longrightarrow> unat (2 * x + 1) = 2 * unat x + 1"
    and "unat x + 1 < 2 ^ 32 \<Longrightarrow> unat (x + 1) = unat x + 1"
  by (simp_all add: unat_word_ariths)

lemma unat_quorum_threshold:
  assumes "stakes_fit c"
  shows "unat (quorum_threshold c) = 2 * ((total_stake c - 1) div 3) + 1"
proof -
  have t: "unat ((total_votes c - 1) div 3) = (total_stake c - 1) div 3"
    using unat_third [of "total_votes c"] assms by (simp add: unat_total_votes stakes_fit_def)
  have b: "2 * ((total_stake c - 1) div 3) + 1 < 2 ^ 32"
    using assms unfolding stakes_fit_def by simp linarith
  show ?thesis
    using b unat_double_Suc(1) [of "(total_votes c - 1) div 3"]
    unfolding quorum_threshold_def t by simp
qed

lemma unat_random_coin_threshold:
  assumes "stakes_fit c"
  shows "unat (random_coin_threshold c) = (total_stake c - 1) div 3 + 1"
proof -
  have t: "unat ((total_votes c - 1) div 3) = (total_stake c - 1) div 3"
    using unat_third [of "total_votes c"] assms by (simp add: unat_total_votes stakes_fit_def)
  have b: "(total_stake c - 1) div 3 + 1 < 2 ^ 32"
    using assms unfolding stakes_fit_def by simp linarith
  show ?thesis
    using b unat_double_Suc(2) [of "(total_votes c - 1) div 3"]
    unfolding random_coin_threshold_def t by simp
qed

text \<open>The threshold is odd, so it is never zero, whatever the stakes.\<close>

lemma quorum_threshold_pos: "0 < quorum_threshold c"
proof -
  have "bit (quorum_threshold c) 0"
    by (simp add: quorum_threshold_def bit_0)
  then show ?thesis
    by (metis bit_0_eq bot_apply bot_bool_def word_gt_0)
qed

section \<open>Overlap of quorums\<close>

lemma finite_members_Int [simp]: "finite (A \<inter> set (members c))"
  by simp

lemma weight_of_mono: "A \<subseteq> B \<Longrightarrow> weight_of c A \<le> weight_of c B"
  unfolding weight_of_def by (rule sum_mono2) auto

lemma weight_of_le_total: "committee_ok c \<Longrightarrow> weight_of c A \<le> total_stake c"
  by (simp add: total_stake_weight weight_of_mono)

lemma weight_of_Un_Int: "weight_of c A + weight_of c B = weight_of c (A \<union> B) + weight_of c (A \<inter> B)"
proof -
  have "(A \<union> B) \<inter> set (members c) = (A \<inter> set (members c)) \<union> (B \<inter> set (members c))"
    "A \<inter> B \<inter> set (members c) = (A \<inter> set (members c)) \<inter> (B \<inter> set (members c))"
    by auto
  then show ?thesis
    unfolding weight_of_def by (metis finite_members_Int sum.union_inter)
qed

lemma weight_of_insert:
  "k \<notin> A \<Longrightarrow> weight_of c (insert k A) = unat (stake c k) + weight_of c A"
proof (cases "k \<in> set (members c)")
  case True
  assume "k \<notin> A"
  moreover have "insert k A \<inter> set (members c) = insert k (A \<inter> set (members c))"
    using True by auto
  ultimately show ?thesis by (simp add: weight_of_def)
next
  case False
  moreover have "insert k A \<inter> set (members c) = A \<inter> set (members c)"
    using False by auto
  ultimately show ?thesis by (simp add: weight_of_def stake_eq_0)
qed

lemma quorum_overlap:
  assumes "committee_ok c"
    and "weight_of c A \<ge> q" and "weight_of c B \<ge> q"
  shows "weight_of c (A \<inter> B) + total_stake c \<ge> 2 * q"
  using weight_of_Un_Int [of c A B] weight_of_le_total [OF assms(1), of "A \<union> B"] assms(2,3)
  by linarith

text \<open>With a total of \<open>3 f + 1\<close> two quorums always meet in more than \<open>f\<close>.\<close>

lemma quorum_weight:
  assumes "stakes_fit c" and "total_stake c mod 3 = 1"
  shows "3 * ((total_stake c - 1) div 3) + 1 = total_stake c"
    and "unat (quorum_threshold c) + (total_stake c - 1) div 3 = total_stake c"
proof -
  obtain q where "total_stake c = 3 * q + 1"
    using assms(2) by (metis mult_div_mod_eq)
  then show "3 * ((total_stake c - 1) div 3) + 1 = total_stake c"
    and "unat (quorum_threshold c) + (total_stake c - 1) div 3 = total_stake c"
    using unat_quorum_threshold [OF assms(1)] by simp_all
qed

lemma one_quorum_only:
  assumes "stakes_fit c" and "total_stake c mod 3 = 1"
  shows "total_stake c < 2 * unat (quorum_threshold c)"
  using quorum_weight [OF assms] by linarith

end
