(* ===== verification/Messages.thy ===== *)
theory Messages
  imports Committee
begin

text \<open>
  \<^verbatim>\<open>consensus/src/messages.rs\<close>: blocks, votes, certificates, timeouts and the messages of
  the binary agreement, with their digests, constructors and checks. A struct's fields carry
  a prefix (\<open>b_\<close> for \<open>Block\<close>, \<open>qc_\<close> for \<open>QC\<close> and so on) because record fields share one
  name space. The lemmas say exactly when a certificate verifies and what a digest binds.
\<close>

section \<open>Structs\<close>

record qc =
  qc_hash :: digest
  qc_epoch :: u64
  qc_height :: u64
  qc_proposer :: public_key
  qc_votes :: "(public_key \<times> signature) list"

record block =
  b_qc :: qc
  b_author :: public_key
  b_height :: u64
  b_epoch :: u64
  b_payload :: "digest list"
  b_references :: "(public_key \<times> digest) list"
  b_signature :: signature

record vote =
  v_hash :: digest
  v_epoch :: u64
  v_height :: u64
  v_author :: public_key
  v_proposer :: public_key
  v_signature :: signature

record timeout =
  t_high_qc :: qc
  t_epoch :: u64
  t_author :: public_key
  t_signature :: signature

record tc =
  tc_epoch :: u64
  tc_votes :: "(public_key \<times> signature \<times> u64) list"

record aba_val =
  av_author :: public_key
  av_epoch :: u64
  av_round :: u64
  av_phase :: u8
  av_val :: u64
  av_signature :: signature

record aba_proof =
  ap_epoch :: u64
  ap_round :: u64
  ap_val :: u64
  ap_phase :: u8
  ap_votes :: "(public_key \<times> signature) list"
  ap_tag :: bool

record randomness_share =
  rs_epoch :: u64
  rs_round :: u64
  rs_author :: public_key
  rs_signature_share :: signature_share

record random_coin =
  rc_epoch :: u64
  rc_round :: u64
  rc_shares :: "randomness_share list"

definition qc_genesis :: qc where
  "qc_genesis = \<lparr>qc_hash = default_digest, qc_epoch = 0, qc_height = 0,
     qc_proposer = default_key, qc_votes = []\<rparr>"

definition block_genesis :: block where
  "block_genesis = \<lparr>b_qc = qc_genesis, b_author = default_key, b_height = 0, b_epoch = 0,
     b_payload = [], b_references = [], b_signature = default_signature\<rparr>"

text \<open>\<open>PartialEq for QC\<close> compares hash and height only.\<close>

definition qc_eq :: "qc \<Rightarrow> qc \<Rightarrow> bool" where
  "qc_eq a b \<longleftrightarrow> qc_hash a = qc_hash b \<and> qc_height a = qc_height b"

definition block_parent :: "block \<Rightarrow> digest" where
  "block_parent b = qc_hash (b_qc b)"

definition qc_timeout :: "qc \<Rightarrow> bool" where
  "qc_timeout q \<longleftrightarrow> qc_hash q = default_digest \<and> qc_height q \<noteq> 0"

definition high_qc_rounds :: "tc \<Rightarrow> u64 list" where
  "high_qc_rounds t = map (\<lambda>(_, _, r). r) (tc_votes t)"

section \<open>Digests\<close>

text \<open>The bytes a digest is taken of, in the order of the \<open>hasher.update\<close> calls.\<close>

definition block_preimage :: "block \<Rightarrow> bytes" where
  "block_preimage b = key_bytes (b_author b) @ to_le_bytes (b_height b) @ to_le_bytes (b_epoch b)
     @ concat (map digest_to_vec (b_payload b))
     @ concat (map (\<lambda>(k, d). key_bytes k @ digest_to_vec d) (b_references b))
     @ digest_to_vec (qc_hash (b_qc b))"

definition vote_preimage :: "digest \<Rightarrow> u64 \<Rightarrow> u64 \<Rightarrow> public_key \<Rightarrow> bytes" where
  "vote_preimage d ep h p = digest_to_vec d @ to_le_bytes ep @ to_le_bytes h @ key_bytes p"

definition timeout_preimage :: "u64 \<Rightarrow> u64 \<Rightarrow> bytes" where
  "timeout_preimage ep h = to_le_bytes ep @ to_le_bytes h"

definition aba_preimage :: "u64 \<Rightarrow> u64 \<Rightarrow> u64 \<Rightarrow> u8 \<Rightarrow> bytes" where
  "aba_preimage ep r v ph = to_le_bytes ep @ to_le_bytes r @ to_le_bytes v @ [ph]"

definition block_digest :: "primitives \<Rightarrow> block \<Rightarrow> digest" where
  "block_digest cr b = finalize32 cr (block_preimage b)"

definition vote_digest :: "primitives \<Rightarrow> vote \<Rightarrow> digest" where
  "vote_digest cr v = finalize32 cr (vote_preimage (v_hash v) (v_epoch v) (v_height v) (v_proposer v))"

definition qc_digest :: "primitives \<Rightarrow> qc \<Rightarrow> digest" where
  "qc_digest cr q = finalize32 cr (vote_preimage (qc_hash q) (qc_epoch q) (qc_height q) (qc_proposer q))"

definition timeout_digest :: "primitives \<Rightarrow> timeout \<Rightarrow> digest" where
  "timeout_digest cr t = finalize32 cr (timeout_preimage (t_epoch t) (qc_height (t_high_qc t)))"

definition aba_val_digest :: "primitives \<Rightarrow> aba_val \<Rightarrow> digest" where
  "aba_val_digest cr v = finalize32 cr (aba_preimage (av_epoch v) (av_round v) (av_val v) (av_phase v))"

definition aba_proof_digest :: "primitives \<Rightarrow> aba_proof \<Rightarrow> digest" where
  "aba_proof_digest cr p = finalize32 cr (aba_preimage (ap_epoch p) (ap_round p) (ap_val p) (ap_phase p))"

definition share_digest :: "primitives \<Rightarrow> u64 \<Rightarrow> u64 \<Rightarrow> digest" where
  "share_digest cr ep r = finalize32 cr (to_le_bytes ep @ to_le_bytes r)"

section \<open>Constructors\<close>

definition block_new :: "primitives \<Rightarrow> signature_service \<Rightarrow> qc \<Rightarrow> public_key \<Rightarrow> u64 \<Rightarrow> u64 \<Rightarrow>
    digest list \<Rightarrow> (public_key \<times> digest) list \<Rightarrow> ('s, 'e, block) act" where
  "block_new cr svc q author h ep payload refs =
     (let b = \<lparr>b_qc = q, b_author = author, b_height = h, b_epoch = ep, b_payload = payload,
                b_references = refs, b_signature = default_signature\<rparr>
      in bind (request_signature cr svc (block_digest cr b)) (\<lambda>sig.
         ret (b\<lparr>b_signature := sig\<rparr>)))"

definition vote_new :: "primitives \<Rightarrow> signature_service \<Rightarrow> block \<Rightarrow> public_key \<Rightarrow> ('s, 'e, vote) act"
  where
  "vote_new cr svc b author =
     (let v = \<lparr>v_hash = block_digest cr b, v_epoch = b_epoch b, v_height = b_height b,
                v_author = author, v_proposer = b_author b, v_signature = default_signature\<rparr>
      in bind (request_signature cr svc (vote_digest cr v)) (\<lambda>sig.
         ret (v\<lparr>v_signature := sig\<rparr>)))"

definition timeout_new :: "primitives \<Rightarrow> signature_service \<Rightarrow> qc \<Rightarrow> u64 \<Rightarrow> public_key \<Rightarrow>
    ('s, 'e, timeout) act" where
  "timeout_new cr svc q ep author =
     (let t = \<lparr>t_high_qc = q, t_epoch = ep, t_author = author, t_signature = default_signature\<rparr>
      in bind (request_signature cr svc (timeout_digest cr t)) (\<lambda>sig.
         ret (t\<lparr>t_signature := sig\<rparr>)))"

definition aba_val_new :: "primitives \<Rightarrow> signature_service \<Rightarrow> public_key \<Rightarrow> u64 \<Rightarrow> u64 \<Rightarrow> u64 \<Rightarrow> u8 \<Rightarrow>
    ('s, 'e, aba_val) act" where
  "aba_val_new cr svc author ep r v ph =
     (let a = \<lparr>av_author = author, av_epoch = ep, av_round = r, av_phase = ph, av_val = v,
                av_signature = default_signature\<rparr>
      in bind (request_signature cr svc (aba_val_digest cr a)) (\<lambda>sig.
         ret (a\<lparr>av_signature := sig\<rparr>)))"

definition randomness_share_new :: "primitives \<Rightarrow> signature_service \<Rightarrow> u64 \<Rightarrow> u64 \<Rightarrow> public_key \<Rightarrow>
    ('s, 'e, randomness_share) act" where
  "randomness_share_new cr svc ep r author =
     bind (unwrap (request_tss_signature svc (share_digest cr ep r))) (\<lambda>sh.
     ret \<lparr>rs_epoch = ep, rs_round = r, rs_author = author, rs_signature_share = sh\<rparr>)"

section \<open>Checks\<close>

text \<open>
  The loop with which \<open>QC::verify\<close>, \<open>TC::verify\<close> and \<open>ABAProof::verify\<close> add up the weight of
  the voters; they differ in the error for a voter that appears twice.
\<close>

fun count_voters :: "(public_key \<Rightarrow> consensus_error) \<Rightarrow> committee \<Rightarrow> public_key list \<Rightarrow>
    public_key set \<Rightarrow> u32 \<Rightarrow> u32 consensus_result" where
  "count_voters reuse c [] used weight = Inr weight"
| "count_voters reuse c (k # ks) used weight =
     rbind (ensure (k \<notin> used) (reuse k)) (\<lambda>_.
     rbind (ensure (stake c k > 0) (UnknownAuthority k)) (\<lambda>_.
     count_voters reuse c ks (insert k used) (weight + stake c k)))"

definition qc_verify :: "primitives \<Rightarrow> committee \<Rightarrow> qc \<Rightarrow> unit consensus_result" where
  "qc_verify cr c q =
     rbind (count_voters AuthorityReuseinQC c (map fst (qc_votes q)) {} 0) (\<lambda>weight.
     rbind (ensure (weight \<ge> quorum_threshold c) QCRequiresQuorum) (\<lambda>_.
     from_crypto (verify_batch cr (qc_digest cr q) (qc_votes q))))"

definition block_verify :: "primitives \<Rightarrow> committee \<Rightarrow> block \<Rightarrow> unit consensus_result" where
  "block_verify cr c b =
     rbind (ensure (stake c (b_author b) > 0) (UnknownAuthority (b_author b))) (\<lambda>_.
     rbind (from_crypto (signature_verify cr (b_signature b) (block_digest cr b) (b_author b))) (\<lambda>_.
     if \<not> qc_eq (b_qc b) qc_genesis then qc_verify cr c (b_qc b) else Inr ()))"

definition vote_verify :: "primitives \<Rightarrow> committee \<Rightarrow> vote \<Rightarrow> unit consensus_result" where
  "vote_verify cr c v =
     rbind (ensure (stake c (v_author v) > 0) (UnknownAuthority (v_author v))) (\<lambda>_.
     from_crypto (signature_verify cr (v_signature v) (vote_digest cr v) (v_author v)))"

definition timeout_verify :: "primitives \<Rightarrow> committee \<Rightarrow> timeout \<Rightarrow> unit consensus_result" where
  "timeout_verify cr c t =
     rbind (ensure (stake c (t_author t) > 0) (UnknownAuthority (t_author t))) (\<lambda>_.
     rbind (from_crypto (signature_verify cr (t_signature t) (timeout_digest cr t) (t_author t))) (\<lambda>_.
     if \<not> qc_eq (t_high_qc t) qc_genesis then qc_verify cr c (t_high_qc t) else Inr ()))"

fun verify_tc_signatures :: "primitives \<Rightarrow> u64 \<Rightarrow> (public_key \<times> signature \<times> u64) list \<Rightarrow>
    unit consensus_result" where
  "verify_tc_signatures cr ep [] = Inr ()"
| "verify_tc_signatures cr ep ((author, sig, r) # votes) =
     rbind (from_crypto (signature_verify cr sig (finalize32 cr (to_le_bytes ep @ to_le_bytes r)) author))
       (\<lambda>_. verify_tc_signatures cr ep votes)"

definition tc_verify :: "primitives \<Rightarrow> committee \<Rightarrow> tc \<Rightarrow> unit consensus_result" where
  "tc_verify cr c t =
     rbind (count_voters AuthorityReuseinTC c (map fst (tc_votes t)) {} 0) (\<lambda>weight.
     rbind (ensure (weight \<ge> quorum_threshold c) TCRequiresQuorum) (\<lambda>_.
     verify_tc_signatures cr (tc_epoch t) (tc_votes t)))"

definition aba_val_verify :: "primitives \<Rightarrow> aba_val \<Rightarrow> unit consensus_result" where
  "aba_val_verify cr v =
     from_crypto (signature_verify cr (av_signature v) (aba_val_digest cr v) (av_author v))"

definition aba_proof_verify :: "primitives \<Rightarrow> committee \<Rightarrow> aba_proof \<Rightarrow> unit consensus_result" where
  "aba_proof_verify cr c p =
     rbind (count_voters (\<lambda>k. AuthorityReuseinABA k (ap_phase p)) c (map fst (ap_votes p)) {} 0) (\<lambda>weight.
     rbind (ensure (weight \<ge> quorum_threshold c) QCRequiresQuorum) (\<lambda>_.
     from_crypto (verify_batch cr (aba_proof_digest cr p) (ap_votes p))))"

text \<open>\<open>committee.id\<close> unwraps a lookup that cannot fail once the stake is positive.\<close>

definition randomness_share_verify :: "primitives \<Rightarrow> committee \<Rightarrow> public_key_set \<Rightarrow> randomness_share \<Rightarrow>
    ('s, consensus_error, unit) act" where
  "randomness_share_verify cr c pks sh =
     bind (lift (ensure (stake c (rs_author sh) > 0) (UnknownAuthority (rs_author sh)))) (\<lambda>_.
     bind (unwrap (committee_id c (rs_author sh))) (\<lambda>i.
     lift (ensure (share_verify pks i (rs_signature_share sh) (share_digest cr (rs_epoch sh) (rs_round sh)))
       (InvalidThresholdSignature (rs_author sh)))))"

section \<open>What the checks establish\<close>

lemma count_voters_Inr:
  "count_voters reuse c ks used w = Inr w' \<longleftrightarrow>
     distinct ks \<and> set ks \<inter> used = {} \<and> (\<forall>k \<in> set ks. 0 < stake c k) \<and>
     w' = w + sum_list (map (stake c) ks)"
proof (induction ks arbitrary: used w)
  case Nil
  then show ?case by auto
next
  case (Cons k ks)
  show ?case
    by (auto simp: rbind_eq_Inr Cons.IH add.assoc)
qed

lemma weight_of_distinct:
  assumes "committee_ok c" and "stakes_fit c" and "distinct ks"
  shows "unat (sum_list (map (stake c) ks)) = weight_of c (set ks)"
proof -
  have eq: "sum_list (map (\<lambda>k. unat (stake c k)) ks) = weight_of c (set ks)"
  proof -
    have "sum_list (map (\<lambda>k. unat (stake c k)) ks) = (\<Sum>k \<in> set ks. unat (stake c k))"
      using assms(3) by (simp add: sum_list_distinct_conv_sum_set)
    also have "\<dots> = (\<Sum>k \<in> set ks \<inter> set (members c). unat (stake c k))"
      by (rule sum.mono_neutral_right) (auto simp: stake_eq_0)
    finally show ?thesis by (simp add: weight_of_def)
  qed
  moreover have "weight_of c (set ks) < 2 ^ 32"
    using weight_of_le_total [OF assms(1), of "set ks"] assms(2) by (simp add: stakes_fit_def)
  ultimately show ?thesis
    using unat_sum_list [of "map (stake c) ks"] by (simp add: comp_def)
qed

text \<open>A set of voters that is a quorum, as the code's thresholds define it.\<close>

definition is_quorum :: "committee \<Rightarrow> public_key list \<Rightarrow> bool" where
  "is_quorum c ks \<longleftrightarrow> distinct ks \<and> (\<forall>k \<in> set ks. 0 < stake c k) \<and>
     unat (quorum_threshold c) \<le> weight_of c (set ks)"

lemma count_voters_quorum:
  assumes "committee_ok c" and "stakes_fit c"
  shows "(\<exists>w. count_voters reuse c ks {} 0 = Inr w \<and> quorum_threshold c \<le> w) \<longleftrightarrow> is_quorum c ks"
  using weight_of_distinct [OF assms]
  by (auto simp: count_voters_Inr is_quorum_def word_le_nat_alt)

lemma qc_verify_Inr:
  "committee_ok c \<Longrightarrow> stakes_fit c \<Longrightarrow>
   qc_verify cr c q = Inr () \<longleftrightarrow>
     is_quorum c (map fst (qc_votes q)) \<and> verify_batch cr (qc_digest cr q) (qc_votes q) = Inr ()"
  unfolding qc_verify_def
  by (subst count_voters_quorum [of _ AuthorityReuseinQC, symmetric]) (auto simp: rbind_eq_Inr)

lemma aba_proof_verify_Inr:
  "committee_ok c \<Longrightarrow> stakes_fit c \<Longrightarrow>
   aba_proof_verify cr c p = Inr () \<longleftrightarrow>
     is_quorum c (map fst (ap_votes p)) \<and> verify_batch cr (aba_proof_digest cr p) (ap_votes p) = Inr ()"
  unfolding aba_proof_verify_def
  by (subst count_voters_quorum [of _ "\<lambda>k. AuthorityReuseinABA k (ap_phase p)", symmetric])
    (auto simp: rbind_eq_Inr)

lemma verify_tc_signatures_Inr:
  "verify_tc_signatures cr ep votes = Inr () \<longleftrightarrow>
     (\<forall>(k, s, r) \<in> set votes. signature_verify cr s (finalize32 cr (timeout_preimage ep r)) k = Inr ())"
  by (induction cr ep votes rule: verify_tc_signatures.induct)
    (auto simp: rbind_eq_Inr timeout_preimage_def)

lemma tc_verify_Inr:
  "committee_ok c \<Longrightarrow> stakes_fit c \<Longrightarrow>
   tc_verify cr c t = Inr () \<longleftrightarrow>
     is_quorum c (map fst (tc_votes t)) \<and>
     (\<forall>(k, s, r) \<in> set (tc_votes t).
        signature_verify cr s (finalize32 cr (timeout_preimage (tc_epoch t) r)) k = Inr ())"
  unfolding tc_verify_def
  by (subst count_voters_quorum [of _ AuthorityReuseinTC, symmetric])
    (auto simp: rbind_eq_Inr verify_tc_signatures_Inr)

text \<open>A certificate that passes its checks has voters, since the threshold is never zero.\<close>

lemma tc_verify_nonempty: "tc_verify cr c t = Inr () \<Longrightarrow> tc_votes t \<noteq> []"
  using quorum_threshold_pos [of c]
  by (auto simp: tc_verify_def rbind_eq_Inr count_voters_Inr)

lemma stake_pos_id: "0 < stake c k \<Longrightarrow> \<exists>i. committee_id c k = Some i"
  by (auto simp: stake_def committee_id_def split: option.splits)

lemma randomness_share_verify_no_panic:
  "fst (randomness_share_verify cr c pks sh s) \<noteq> Panic p"
  using stake_pos_id [of c "rs_author sh"]
  by (auto simp: randomness_share_verify_def act_defs ensure_def split: option.split)

section \<open>What the digests bind\<close>

lemma vote_preimage_inj:
  "vote_preimage d ep h p = vote_preimage d' ep' h' p' \<longleftrightarrow> d = d' \<and> ep = ep' \<and> h = h' \<and> p = p'"
  by (auto simp: vote_preimage_def append_eq_append_conv)

lemma timeout_preimage_inj:
  "timeout_preimage ep h = timeout_preimage ep' h' \<longleftrightarrow> ep = ep' \<and> h = h'"
  by (auto simp: timeout_preimage_def append_eq_append_conv)

lemma aba_preimage_inj:
  "aba_preimage ep r v ph = aba_preimage ep' r' v' ph' \<longleftrightarrow> ep = ep' \<and> r = r' \<and> v = v' \<and> ph = ph'"
  by (auto simp: aba_preimage_def append_eq_append_conv)

lemma share_digest_timeout: "share_digest cr ep r = finalize32 cr (timeout_preimage ep r)"
  by (simp add: share_digest_def timeout_preimage_def)

end
