(* ===== verification/Aggregator.thy ===== *)
theory Aggregator
  imports Messages
begin

text \<open>
  \<^verbatim>\<open>consensus/src/aggregator.rs\<close>: the makers that turn votes, timeouts, agreement values
  and coin shares into certificates, and the \<open>Aggregator\<close> that files one maker per height,
  epoch or round. The locale \<open>vote_collector\<close> is the contract the three certificate makers
  share: one contribution per authority, a certificate when the weight reaches the quorum,
  and a weight that starts again from zero after that.
\<close>

section \<open>Makers\<close>

record qc_maker =
  qm_weight :: u32
  qm_votes :: "(public_key \<times> signature) list"
  qm_used :: "public_key set"

definition qc_maker_new :: qc_maker where
  "qc_maker_new = \<lparr>qm_weight = 0, qm_votes = [], qm_used = {}\<rparr>"

definition qc_maker_append :: "vote \<Rightarrow> committee \<Rightarrow> qc_maker \<Rightarrow> qc option consensus_result \<times> qc_maker"
  where
  "qc_maker_append v c m =
     (let author = v_author v in
      if author \<in> qm_used m then (Inl (AuthorityReuseinQC author), m)
      else
        let m1 = m\<lparr>qm_used := insert author (qm_used m),
                    qm_votes := qm_votes m @ [(author, v_signature v)],
                    qm_weight := qm_weight m + stake c author\<rparr> in
        if qm_weight m1 \<ge> quorum_threshold c then
          (Inr (Some \<lparr>qc_hash = v_hash v, qc_epoch = v_epoch v, qc_height = v_height v,
                     qc_proposer = v_proposer v, qc_votes = qm_votes m1\<rparr>),
           m1\<lparr>qm_weight := 0\<rparr>)
        else (Inr None, m1))"

record tc_maker =
  tm_weight :: u32
  tm_votes :: "(public_key \<times> signature \<times> u64) list"
  tm_used :: "public_key set"

definition tc_maker_new :: tc_maker where
  "tc_maker_new = \<lparr>tm_weight = 0, tm_votes = [], tm_used = {}\<rparr>"

definition tc_maker_append :: "timeout \<Rightarrow> committee \<Rightarrow> tc_maker \<Rightarrow> tc option consensus_result \<times> tc_maker"
  where
  "tc_maker_append t c m =
     (let author = t_author t in
      if author \<in> tm_used m then (Inl (AuthorityReuseinTC author), m)
      else
        let m1 = m\<lparr>tm_used := insert author (tm_used m),
                    tm_votes := tm_votes m @ [(author, t_signature t, qc_height (t_high_qc t))],
                    tm_weight := tm_weight m + stake c author\<rparr> in
        if tm_weight m1 \<ge> quorum_threshold c then
          (Inr (Some \<lparr>tc_epoch = t_epoch t, tc_votes = tm_votes m1\<rparr>), m1\<lparr>tm_weight := 0\<rparr>)
        else (Inr None, m1))"

definition VAL_PHASE :: u8 where "VAL_PHASE = 1"

record aba_proof_maker =
  pm_weight :: u32
  pm_votes :: "(public_key \<times> signature) list"
  pm_used :: "public_key set"

definition aba_proof_maker_new :: aba_proof_maker where
  "aba_proof_maker_new = \<lparr>pm_weight = 0, pm_votes = [], pm_used = {}\<rparr>"

definition aba_proof_maker_append ::
    "aba_val \<Rightarrow> committee \<Rightarrow> aba_proof_maker \<Rightarrow> aba_proof option consensus_result \<times> aba_proof_maker"
  where
  "aba_proof_maker_append v c m =
     (let author = av_author v in
      if author \<in> pm_used m then (Inl (AuthorityReuseinABA author (av_phase v)), m)
      else
        let m1 = m\<lparr>pm_used := insert author (pm_used m),
                    pm_votes := pm_votes m @ [(author, av_signature v)],
                    pm_weight := pm_weight m + stake c author\<rparr>;
            proof_with = (\<lambda>tag. \<lparr>ap_epoch = av_epoch v, ap_round = av_round v, ap_val = av_val v,
                           ap_phase = av_phase v, ap_votes = pm_votes m1, ap_tag = tag\<rparr>) in
        if pm_weight m1 \<ge> quorum_threshold c then
          (Inr (Some (proof_with False)), m1\<lparr>pm_weight := 0\<rparr>)
        else if pm_weight m1 = random_coin_threshold c \<and> av_phase v = VAL_PHASE then
          (Inr (Some (proof_with True)), m1)
        else (Inr None, m1))"

record coin_maker =
  cm_weight :: u32
  cm_shares :: "randomness_share list"
  cm_used :: "public_key set"

definition coin_maker_new :: coin_maker where
  "coin_maker_new = \<lparr>cm_weight = 0, cm_shares = [], cm_used = {}\<rparr>"

text \<open>
  The loop that files the shares under the ids of their authors in a \<open>BTreeMap\<close>; \<open>None\<close>
  where \<open>committee.id\<close> unwraps an unknown author.
\<close>

fun coin_sigs :: "committee \<Rightarrow> randomness_share list \<Rightarrow> (usize \<rightharpoonup> signature_share) \<Rightarrow>
    (usize \<rightharpoonup> signature_share) option" where
  "coin_sigs c [] sigs = Some sigs"
| "coin_sigs c (sh # shares) sigs = (case committee_id c (rs_author sh) of
     None \<Rightarrow> None
   | Some i \<Rightarrow> coin_sigs c shares (sigs(i \<mapsto> rs_signature_share sh)))"

definition coin_maker_append :: "randomness_share \<Rightarrow> committee \<Rightarrow> public_key_set \<Rightarrow>
    (coin_maker, consensus_error, usize option) act" where
  "coin_maker_append sh c pks =
     bind (gets cm_used) (\<lambda>used.
     if rs_author sh \<in> used then throw (AuthorityReuseinCoin (rs_author sh))
     else
       bind (modify (\<lambda>m. m\<lparr>cm_used := insert (rs_author sh) (cm_used m),
                            cm_shares := cm_shares m @ [sh],
                            cm_weight := cm_weight m + stake c (rs_author sh)\<rparr>)) (\<lambda>_.
       bind (gets id) (\<lambda>m.
       if cm_weight m = random_coin_threshold c then
         bind (unwrap (coin_sigs c (cm_shares m) Map.empty)) (\<lambda>sigs.
         case combine_signatures pks sigs of
           Some sig \<Rightarrow> ret (Some (from_be_bytes (take 8 sig) mod 2))
         | None \<Rightarrow> ret None)
       else ret None)))"

text \<open>The shares of authorities are all filed.\<close>

lemma coin_sigs_Some:
  "\<forall>sh \<in> set shares. 0 < stake c (rs_author sh) \<Longrightarrow> \<exists>m. coin_sigs c shares sigs = Some m"
proof (induction shares arbitrary: sigs)
  case Nil
  then show ?case by simp
next
  case (Cons sh shares)
  obtain i where "committee_id c (rs_author sh) = Some i"
    using stake_pos_id Cons.prems by fastforce
  with Cons show ?case by simp
qed

section \<open>The aggregator\<close>

record aggregator =
  ag_committee :: committee
  votes_aggregators :: "u64 \<rightharpoonup> qc_maker"
  timeouts_aggregators :: "u64 \<rightharpoonup> tc_maker"
  aba_vals_aggregators :: "u64 \<times> u64 \<times> u8 \<times> u64 \<rightharpoonup> aba_proof_maker"
  aba_randomcoin_aggregators :: "u64 \<times> u64 \<rightharpoonup> coin_maker"

definition aggregator_new :: "committee \<Rightarrow> aggregator" where
  "aggregator_new c = \<lparr>ag_committee = c, votes_aggregators = Map.empty,
     timeouts_aggregators = Map.empty, aba_vals_aggregators = Map.empty,
     aba_randomcoin_aggregators = Map.empty\<rparr>"

text \<open>\<open>entry(k).or_insert_with(new)\<close>.\<close>

definition entry_or :: "('k \<rightharpoonup> 'v) \<Rightarrow> 'k \<Rightarrow> 'v \<Rightarrow> 'v" where
  "entry_or m k d = (case m k of None \<Rightarrow> d | Some v \<Rightarrow> v)"

definition add_vote :: "vote \<Rightarrow> aggregator \<Rightarrow> qc option consensus_result \<times> aggregator" where
  "add_vote v ag = (case qc_maker_append v (ag_committee ag)
       (entry_or (votes_aggregators ag) (v_height v) qc_maker_new) of
     (r, m) \<Rightarrow> (r, ag\<lparr>votes_aggregators := (votes_aggregators ag)(v_height v \<mapsto> m)\<rparr>))"

definition add_timeout :: "timeout \<Rightarrow> aggregator \<Rightarrow> tc option consensus_result \<times> aggregator" where
  "add_timeout t ag = (case tc_maker_append t (ag_committee ag)
       (entry_or (timeouts_aggregators ag) (t_epoch t) tc_maker_new) of
     (r, m) \<Rightarrow> (r, ag\<lparr>timeouts_aggregators := (timeouts_aggregators ag)(t_epoch t \<mapsto> m)\<rparr>))"

definition aba_key :: "aba_val \<Rightarrow> u64 \<times> u64 \<times> u8 \<times> u64" where
  "aba_key v = (av_epoch v, av_round v, av_phase v, av_val v)"

definition add_aba_val :: "aba_val \<Rightarrow> aggregator \<Rightarrow> aba_proof option consensus_result \<times> aggregator" where
  "add_aba_val v ag = (case aba_proof_maker_append v (ag_committee ag)
       (entry_or (aba_vals_aggregators ag) (aba_key v) aba_proof_maker_new) of
     (r, m) \<Rightarrow> (r, ag\<lparr>aba_vals_aggregators := (aba_vals_aggregators ag)(aba_key v \<mapsto> m)\<rparr>))"

definition add_aba_random :: "randomness_share \<Rightarrow> public_key_set \<Rightarrow>
    (aggregator, consensus_error, usize option) act" where
  "add_aba_random sh pks = (\<lambda>ag.
     let key = (rs_epoch sh, rs_round sh) in
     case coin_maker_append sh (ag_committee ag) pks
       (entry_or (aba_randomcoin_aggregators ag) key coin_maker_new) of
     (r, m) \<Rightarrow> (r, ag\<lparr>aba_randomcoin_aggregators := (aba_randomcoin_aggregators ag)(key \<mapsto> m)\<rparr>))"

definition cleanup :: "u64 \<Rightarrow> u64 \<Rightarrow> aggregator \<Rightarrow> aggregator" where
  "cleanup ep h ag = ag\<lparr>votes_aggregators := retain (\<lambda>k. k \<ge> h) (votes_aggregators ag),
     timeouts_aggregators := retain (\<lambda>k. k \<ge> ep) (timeouts_aggregators ag)\<rparr>"

definition cleanup_aba :: "u64 \<Rightarrow> aggregator \<Rightarrow> aggregator" where
  "cleanup_aba ep ag = ag\<lparr>
     aba_vals_aggregators := retain (\<lambda>(k, _). k \<ge> ep) (aba_vals_aggregators ag),
     aba_randomcoin_aggregators := retain (\<lambda>(k, _). k \<ge> ep) (aba_randomcoin_aggregators ag)\<rparr>"

section \<open>Feeding a maker\<close>

text \<open>A maker that is given contributions one after the other, and the certificates it hands out.\<close>

fun feed :: "('v \<Rightarrow> committee \<Rightarrow> 'm \<Rightarrow> 'cert option consensus_result \<times> 'm) \<Rightarrow> committee \<Rightarrow>
    'v list \<Rightarrow> 'm \<Rightarrow> 'cert list \<times> 'm" where
  "feed app c [] m = ([], m)"
| "feed app c (v # vs) m = (case app v c m of (r, m1) \<Rightarrow>
     case feed app c vs m1 of (certs, m2) \<Rightarrow>
       (case r of Inr (Some cert) \<Rightarrow> cert # certs | _ \<Rightarrow> certs, m2))"

section \<open>The contract of the certificate makers\<close>

locale vote_collector =
  fixes append :: "'v \<Rightarrow> committee \<Rightarrow> 'm \<Rightarrow> 'cert option consensus_result \<times> 'm"
    and empty :: "'m"
    and author :: "'v \<Rightarrow> public_key"
    and used :: "'m \<Rightarrow> public_key set"
    and voters :: "'m \<Rightarrow> public_key list"
    and weight :: "'m \<Rightarrow> u32"
    and full :: "'cert \<Rightarrow> bool"
    and signers :: "'cert \<Rightarrow> public_key list"
  assumes empty: "used empty = {}" "voters empty = []" "weight empty = 0"
    and reuse: "author v \<in> used m \<Longrightarrow> \<exists>e. append v c m = (Inl e, m)"
    and fresh: "author v \<notin> used m \<Longrightarrow> append v c m = (r, m') \<Longrightarrow>
      used m' = insert (author v) (used m) \<and> voters m' = voters m @ [author v]"
    and quorum: "author v \<notin> used m \<Longrightarrow> quorum_threshold c \<le> weight m + stake c (author v) \<Longrightarrow>
      append v c m = (r, m') \<Longrightarrow>
      weight m' = 0 \<and> (\<exists>cert. r = Inr (Some cert) \<and> full cert \<and> signers cert = voters m')"
    and below: "author v \<notin> used m \<Longrightarrow> \<not> quorum_threshold c \<le> weight m + stake c (author v) \<Longrightarrow>
      append v c m = (r, m') \<Longrightarrow>
      weight m' = weight m + stake c (author v) \<and>
      (r = Inr None \<or> (\<exists>cert. r = Inr (Some cert) \<and> \<not> full cert \<and> signers cert = voters m'))"
begin

text \<open>
  The account of a maker that has handed out \<open>n\<close> full certificates: the weight of the
  authorities it has seen covers the current weight and a quorum for each certificate; as
  long as there was none the two weights are equal.
\<close>

definition account :: "committee \<Rightarrow> nat \<Rightarrow> 'm \<Rightarrow> bool" where
  "account c n m \<longleftrightarrow> distinct (voters m) \<and> set (voters m) = used m \<and>
     n * unat (quorum_threshold c) + unat (weight m) \<le> weight_of c (used m) \<and>
     (n = 0 \<longrightarrow> unat (weight m) = weight_of c (used m) \<and> unat (weight m) < unat (quorum_threshold c))"

lemma account_empty: "account c 0 empty"
  using quorum_threshold_pos [of c] by (simp add: account_def empty weight_of_def word_less_nat_alt)

lemma unat_weight_stake:
  assumes "committee_ok c" "stakes_fit c" "account c n m" "author v \<notin> used m"
  shows "unat (weight m + stake c (author v)) = unat (weight m) + unat (stake c (author v))"
    and "weight_of c (insert (author v) (used m)) = unat (stake c (author v)) + weight_of c (used m)"
proof -
  show ins: "weight_of c (insert (author v) (used m)) = unat (stake c (author v)) + weight_of c (used m)"
    using assms(4) by (rule weight_of_insert)
  have "weight_of c (insert (author v) (used m)) < 2 ^ 32"
    using weight_of_le_total [OF assms(1)] assms(2) unfolding stakes_fit_def
    by (meson le_less_trans)
  with ins assms(3) have "unat (weight m) + unat (stake c (author v)) < 2 ^ 32"
    by (auto simp: account_def)
  then show "unat (weight m + stake c (author v)) = unat (weight m) + unat (stake c (author v))"
    by (simp add: unat_word_ariths)
qed

lemma account_append:
  assumes wf: "committee_ok c" "stakes_fit c" and acc: "account c n m"
    and app: "append v c m = (r, m')"
  shows "account c (case r of Inr (Some cert) \<Rightarrow> if full cert then Suc n else n | _ \<Rightarrow> n) m'"
proof (cases "author v \<in> used m")
  case True
  then show ?thesis
    using reuse [OF True, of c] app acc by auto
next
  case False
  note fr = fresh [OF False app]
  note w = unat_weight_stake [OF wf acc False]
  show ?thesis
  proof (cases "quorum_threshold c \<le> weight m + stake c (author v)")
    case True
    then show ?thesis
      using quorum [OF False True app] fr acc w False
      by (auto simp: account_def word_le_nat_alt)
  next
    case below_q: False
    then show ?thesis
      using below [OF False below_q app] fr acc w False
      by (auto simp: account_def word_le_nat_alt)
  qed
qed

lemma account_feed:
  assumes wf: "committee_ok c" "stakes_fit c"
  shows "account c n m \<Longrightarrow> feed append c vs m = (certs, m') \<Longrightarrow>
    account c (n + length (filter full certs)) m'"
proof (induction vs arbitrary: n m certs)
  case Nil
  then show ?case by simp
next
  case (Cons v vs)
  obtain r m1 where app: "append v c m = (r, m1)"
    by (cases "append v c m")
  obtain cs m2 where rest: "feed append c vs m1 = (cs, m2)"
    by (cases "feed append c vs m1")
  have m2: "m2 = m'" and certs: "certs = (case r of Inr (Some cert) \<Rightarrow> cert # cs | _ \<Rightarrow> cs)"
    using Cons.prems(2) app rest by auto
  show ?case
    using Cons.IH [OF account_append [OF wf Cons.prems(1) app] rest [unfolded m2]] certs
    by (auto split: sum.splits option.splits if_splits)
qed

text \<open>At most one full certificate comes out of a maker, when two quorums exceed the total.\<close>

lemma one_certificate:
  assumes wf: "committee_ok c" "stakes_fit c"
    and over: "total_stake c < 2 * unat (quorum_threshold c)"
    and fd: "feed append c vs empty = (certs, m')"
  shows "length (filter full certs) \<le> 1"
proof -
  let ?n = "length (filter full certs)"
  have "account c ?n m'"
    using account_feed [OF wf account_empty fd] by simp
  then have "?n * unat (quorum_threshold c) \<le> total_stake c"
    using weight_of_le_total [OF wf(1), of "used m'"] by (simp add: account_def)
  with over have "?n * unat (quorum_threshold c) < 2 * unat (quorum_threshold c)"
    by linarith
  then show ?thesis by simp
qed

lemma used_append: "append v c m = (r, m') \<Longrightarrow> used m' = insert (author v) (used m)"
  using reuse [of v m c] fresh [of v m c] by (cases "author v \<in> used m") auto

lemma used_feed: "feed append c vs m = (certs, m') \<Longrightarrow> used m' = used m \<union> author ` set vs"
  by (induction vs arbitrary: m certs m')
    (fastforce split: prod.splits dest: used_append)+

text \<open>A full certificate comes out as soon as the authorities seen make a quorum.\<close>

lemma certificate_when_quorum:
  assumes wf: "committee_ok c" "stakes_fit c"
    and fd: "feed append c vs empty = (certs, m')"
  shows "(\<exists>cert \<in> set certs. full cert) \<longleftrightarrow>
    unat (quorum_threshold c) \<le> weight_of c (author ` set vs)"
proof -
  let ?n = "length (filter full certs)"
  have acc: "account c ?n m'"
    using account_feed [OF wf account_empty fd] by simp
  have u: "used m' = author ` set vs"
    using used_feed [OF fd] by (simp add: empty)
  have "(\<exists>cert \<in> set certs. full cert) \<longleftrightarrow> ?n \<noteq> 0"
    by (auto simp: filter_empty_conv)
  moreover have "?n \<noteq> 0 \<longleftrightarrow> unat (quorum_threshold c) \<le> weight_of c (used m')"
  proof
    assume "?n \<noteq> 0"
    then have "1 * unat (quorum_threshold c) \<le> ?n * unat (quorum_threshold c)"
      by (intro mult_le_mono1) linarith
    also have "\<dots> \<le> weight_of c (used m')"
      using acc unfolding account_def by linarith
    finally show "unat (quorum_threshold c) \<le> weight_of c (used m')"
      by simp
  next
    assume "unat (quorum_threshold c) \<le> weight_of c (used m')"
    with acc show "?n \<noteq> 0" by (auto simp: account_def)
  qed
  ultimately show ?thesis using u by simp
qed

lemma signers_append:
  assumes "append v c m = (Inr (Some cert), m')"
  shows "signers cert = voters m' \<and> voters m' = voters m @ [author v]"
proof -
  have n: "author v \<notin> used m"
    using assms reuse [of v m c] by auto
  show ?thesis
    using fresh [OF n assms] quorum [OF n _ assms] below [OF n _ assms]
    by (cases "quorum_threshold c \<le> weight m + stake c (author v)") auto
qed

text \<open>The signers of every full certificate are distinct contributors that make a quorum.\<close>

lemma full_append_quorum:
  assumes wf: "committee_ok c" "stakes_fit c" and acc: "account c n m"
    and app: "append v c m = (Inr (Some cert), m')" and "full cert"
  shows "distinct (signers cert) \<and> unat (quorum_threshold c) \<le> weight_of c (set (signers cert))"
proof -
  have acc': "account c (Suc n) m'"
    using account_append [OF wf acc app] assms(5) by simp
  have "signers cert = voters m'"
    using signers_append [OF app] by simp
  then show ?thesis
    using acc' by (auto simp: account_def)
qed

lemma full_feed_quorum:
  assumes wf: "committee_ok c" "stakes_fit c"
  shows "account c n m \<Longrightarrow> feed append c vs m = (certs, m') \<Longrightarrow> cert \<in> set certs \<Longrightarrow> full cert \<Longrightarrow>
    distinct (signers cert) \<and> unat (quorum_threshold c) \<le> weight_of c (set (signers cert)) \<and>
    set (signers cert) \<subseteq> used m \<union> author ` set vs"
proof (induction vs arbitrary: n m certs)
  case Nil
  then show ?case by simp
next
  case (Cons v vs)
  obtain r m1 where app: "append v c m = (r, m1)"
    by (cases "append v c m")
  obtain cs m2 where rest: "feed append c vs m1 = (cs, m2)"
    by (cases "feed append c vs m1")
  have m2: "m2 = m'" and certs: "certs = (case r of Inr (Some x) \<Rightarrow> x # cs | _ \<Rightarrow> cs)"
    using Cons.prems(2) app rest by auto
  show ?case
  proof (cases "r = Inr (Some cert)")
    case True
    have "set (signers cert) \<subseteq> insert (author v) (used m)"
      using signers_append app True Cons.prems(1) unfolding account_def by fastforce
    then show ?thesis
      using full_append_quorum [OF wf Cons.prems(1)] app True Cons.prems(4) by auto
  next
    case False
    then have "cert \<in> set cs"
      using Cons.prems(3) certs by (auto split: sum.splits option.splits)
    from Cons.IH [OF account_append [OF wf Cons.prems(1) app] rest [unfolded m2] this Cons.prems(4)]
    show ?thesis using used_append [OF app] by auto
  qed
qed

text \<open>The account of everything a fresh maker hands out.\<close>

lemma full_certificates:
  assumes wf: "committee_ok c" "stakes_fit c"
    and fd: "feed append c vs empty = (certs, m)"
  shows "(filter full certs \<noteq> [] \<longleftrightarrow> unat (quorum_threshold c) \<le> weight_of c (author ` set vs)) \<and>
    (total_stake c mod 3 = 1 \<longrightarrow> length (filter full certs) \<le> 1) \<and>
    (\<forall>cert \<in> set certs. full cert \<longrightarrow> distinct (signers cert) \<and> set (signers cert) \<subseteq> author ` set vs \<and>
       unat (quorum_threshold c) \<le> weight_of c (set (signers cert)))"
proof (intro conjI ballI impI)
  show "filter full certs \<noteq> [] \<longleftrightarrow> unat (quorum_threshold c) \<le> weight_of c (author ` set vs)"
    using certificate_when_quorum [OF wf fd] by (auto simp: filter_empty_conv)
  show "length (filter full certs) \<le> 1" if "total_stake c mod 3 = 1"
    by (rule one_certificate [OF wf one_quorum_only [OF wf(2) that] fd])
  fix cert assume cert: "cert \<in> set certs" "full cert"
  from full_feed_quorum [OF wf account_empty fd this]
  show "distinct (signers cert)" "set (signers cert) \<subseteq> author ` set vs"
    "unat (quorum_threshold c) \<le> weight_of c (set (signers cert))"
    by (simp_all add: empty)
qed

end

section \<open>The makers keep the contract\<close>

interpretation qcm: vote_collector qc_maker_append qc_maker_new v_author qm_used "map fst \<circ> qm_votes"
  qm_weight "\<lambda>_. True" "map fst \<circ> qc_votes"
  by unfold_locales
    (auto simp: qc_maker_append_def qc_maker_new_def Let_def split: if_splits)

interpretation tcm: vote_collector tc_maker_append tc_maker_new t_author tm_used "map fst \<circ> tm_votes"
  tm_weight "\<lambda>_. True" "map fst \<circ> tc_votes"
  by unfold_locales
    (auto simp: tc_maker_append_def tc_maker_new_def Let_def split: if_splits)

interpretation apm: vote_collector aba_proof_maker_append aba_proof_maker_new av_author pm_used
  "map fst \<circ> pm_votes" pm_weight "\<lambda>p. \<not> ap_tag p" "map fst \<circ> ap_votes"
  by unfold_locales
    (auto simp: aba_proof_maker_append_def aba_proof_maker_new_def Let_def split: if_splits)

end
