(* ===== verification/Store.thy ===== *)
theory Store
  imports Consensus_Error
begin

text \<open>
  \<^verbatim>\<open>store/src/lib.rs\<close> and \<^verbatim>\<open>store/src/default_db.rs\<close>: the task that owns the
  database and answers reads, writes and \<open>notify_read\<close> requests, which wait until their
  key is written. The database itself (RocksDB) is a parameter with the operations \<open>put\<close>
  and \<open>get\<close> and any content at the start; the locale \<open>kv_store\<close> says what a database does
  whose writes do not fail. The in-memory \<open>DefaultDB\<close>, which is in the repository but not a
  module of the crate, is an instance of it and serves as the database of the examples.
\<close>

section \<open>Commands and state\<close>

text \<open>A \<open>oneshot::Sender\<close> is known by a number.\<close>

datatype store_command =
    Write bytes bytes
  | Read bytes nat
  | NotifyRead bytes nat

datatype store_reply =
    ReadReply nat "store_error + bytes option"
  | NotifyReply nat "store_error + bytes"

record 'db store_task =
  db :: 'db
  obligations :: "bytes \<rightharpoonup> nat list"

definition store_new :: "'db \<Rightarrow> 'db store_task" where
  "store_new d = \<lparr>db = d, obligations = Map.empty\<rparr>"

text \<open>
  One round of the task's loop: the replies it sends and the state it leaves. The result of
  \<open>db.put\<close> is discarded by the code, so \<open>put\<close> returns the database only.
\<close>

fun store_step :: "(bytes \<Rightarrow> bytes \<Rightarrow> 'db \<Rightarrow> 'db) \<Rightarrow> (bytes \<Rightarrow> 'db \<Rightarrow> store_error + bytes option) \<Rightarrow>
    store_command \<Rightarrow> 'db store_task \<Rightarrow> store_reply list \<times> 'db store_task" where
  "store_step put get (Write k v) s =
     (let s1 = s\<lparr>db := put k v (db s)\<rparr> in
      case obligations s1 k of
        None \<Rightarrow> ([], s1)
      | Some senders \<Rightarrow> (map (\<lambda>i. NotifyReply i (Inr v)) senders,
                         s1\<lparr>obligations := (obligations s1)(k := None)\<rparr>))"
| "store_step put get (Read k i) s = ([ReadReply i (get k (db s))], s)"
| "store_step put get (NotifyRead k i) s =
     (case get k (db s) of
        Inr None \<Rightarrow> ([], s\<lparr>obligations := (obligations s)(k \<mapsto>
            (case obligations s k of None \<Rightarrow> [] | Some senders \<Rightarrow> senders) @ [i])\<rparr>)
      | Inr (Some v) \<Rightarrow> ([NotifyReply i (Inr v)], s)
      | Inl e \<Rightarrow> ([NotifyReply i (Inl e)], s))"

fun store_run :: "(bytes \<Rightarrow> bytes \<Rightarrow> 'db \<Rightarrow> 'db) \<Rightarrow> (bytes \<Rightarrow> 'db \<Rightarrow> store_error + bytes option) \<Rightarrow>
    store_command list \<Rightarrow> 'db store_task \<Rightarrow> store_reply list \<times> 'db store_task" where
  "store_run put get [] s = ([], s)"
| "store_run put get (c # cs) s = (case store_step put get c s of (out, s1) \<Rightarrow>
     case store_run put get cs s1 of (out', s2) \<Rightarrow> (out @ out', s2))"

section \<open>The in-memory database\<close>

definition default_db_new :: "'k \<rightharpoonup> 'v" where
  "default_db_new = Map.empty"

definition default_put :: "'k \<Rightarrow> 'v \<Rightarrow> ('k \<rightharpoonup> 'v) \<Rightarrow> ('k \<rightharpoonup> 'v)" where
  "default_put k v m = m(k \<mapsto> v)"

definition default_get :: "'k \<Rightarrow> ('k \<rightharpoonup> 'v) \<Rightarrow> store_error + 'v option" where
  "default_get k m = (case m k of Some d \<Rightarrow> Inr (Some d) | None \<Rightarrow> Inr None)"

section \<open>What the task relies on and what it provides\<close>

definition written :: "bytes \<Rightarrow> store_command list \<Rightarrow> bytes list" where
  "written k cs = List.map_filter (\<lambda>c. case c of Write k' v \<Rightarrow> (if k' = k then Some v else None) | _ \<Rightarrow> None) cs"

definition notify_replies :: "nat \<Rightarrow> store_reply list \<Rightarrow> (store_error + bytes) list" where
  "notify_replies i rs = List.map_filter (\<lambda>r. case r of NotifyReply j x \<Rightarrow> (if j = i then Some x else None) | _ \<Rightarrow> None) rs"

lemma written_simps [simp]:
  "written k [] = []" "written k (Write k1 v # cs) = (if k1 = k then v # written k cs else written k cs)"
  "written k (Read k2 i # cs) = written k cs" "written k (NotifyRead k3 j # cs) = written k cs"
  by (simp_all add: written_def)

lemma notify_replies_simps [simp]:
  "notify_replies i [] = []" "notify_replies i (rs @ rs') = notify_replies i rs @ notify_replies i rs'"
  "notify_replies i (NotifyReply j x # rs) = (if j = i then x # notify_replies i rs else notify_replies i rs)"
  "notify_replies i (ReadReply j1 y # rs) = notify_replies i rs"
  by (simp_all add: notify_replies_def map_filter_def)

lemma notify_replies_map [simp]:
  "notify_replies i (map (\<lambda>j. NotifyReply j x) js) = replicate (count_list js i) x"
  by (induction js) auto

definition notifies :: "nat \<Rightarrow> store_command \<Rightarrow> bool" where
  "notifies i c \<longleftrightarrow> (\<exists>k. c = NotifyRead k i)"

lemma notifies_simps [simp]:
  "notifies i (NotifyRead k j) \<longleftrightarrow> j = i" "\<not> notifies i (Write k1 v)" "\<not> notifies i (Read k2 j1)"
  by (auto simp: notifies_def)

definition senders :: "'db store_task \<Rightarrow> bytes \<Rightarrow> nat list" where
  "senders s k = (case obligations s k of None \<Rightarrow> [] | Some is \<Rightarrow> is)"

lemma store_run_Cons:
  "store_run put get (c # cs) s =
     (fst (store_step put get c s) @ fst (store_run put get cs (snd (store_step put get c s))),
      snd (store_run put get cs (snd (store_step put get c s))))"
  by (simp split: prod.split)

lemma store_run_append:
  "store_run put get (cs @ cs') s =
     (fst (store_run put get cs s) @ fst (store_run put get cs' (snd (store_run put get cs s))),
      snd (store_run put get cs' (snd (store_run put get cs s))))"
  by (induction cs arbitrary: s) (simp_all add: store_run_Cons del: store_run.simps(2))

lemma db_step:
  "db (snd (store_step put get c s)) = (case c of Write k v \<Rightarrow> put k v (db s) | _ \<Rightarrow> db s)"
  by (cases c) (auto simp: Let_def split: option.splits sum.splits)

text \<open>What one round does to the replies and the waiting senders.\<close>

lemma senders_step:
  "senders (snd (store_step put get c s)) k =
     (case c of Write k' v \<Rightarrow> if k' = k then [] else senders s k
      | Read k' i \<Rightarrow> senders s k
      | NotifyRead k' i \<Rightarrow> if k' = k \<and> get k (db s) = Inr None then senders s k @ [i] else senders s k)"
  by (cases c) (auto simp: Let_def senders_def split: option.splits sum.splits)

lemma replies_step:
  "notify_replies i (fst (store_step put get c s)) =
     (case c of Write k v \<Rightarrow> replicate (count_list (senders s k) i) (Inr v)
      | Read k j \<Rightarrow> []
      | NotifyRead k j \<Rightarrow> if j \<noteq> i then [] else (case get k (db s) of
          Inr None \<Rightarrow> [] | Inr (Some v) \<Rightarrow> [Inr v] | Inl e \<Rightarrow> [Inl e]))"
  by (cases c) (auto simp: Let_def senders_def split: option.splits sum.splits)

lemma no_reply_run:
  "(\<forall>k. i \<notin> set (senders s k)) \<Longrightarrow> (\<forall>c \<in> set cs. \<not> notifies i c) \<Longrightarrow>
   notify_replies i (fst (store_run put get cs s)) = [] \<and>
   (\<forall>k. i \<notin> set (senders (snd (store_run put get cs s)) k))"
proof (induction cs arbitrary: s)
  case Nil
  then show ?case by simp
next
  case (Cons c cs)
  let ?s1 = "snd (store_step put get c s)"
  have "\<forall>k. i \<notin> set (senders ?s1 k)"
    using Cons.prems by (cases c) (auto simp: senders_step simp del: store_step.simps)
  moreover have "notify_replies i (fst (store_step put get c s)) = []"
    using Cons.prems by (cases c) (auto simp: replies_step simp del: store_step.simps)
  ultimately show ?case
    using Cons.IH [of ?s1] Cons.prems(2) by (simp add: store_run_Cons del: store_run.simps(2))
qed

lemma pending_reply_run:
  "count_list (senders s k) i = 1 \<Longrightarrow> (\<forall>k'. k' \<noteq> k \<longrightarrow> i \<notin> set (senders s k')) \<Longrightarrow>
   (\<forall>c \<in> set cs. \<not> notifies i c) \<Longrightarrow>
   notify_replies i (fst (store_run put get cs s)) =
     (case written k cs of [] \<Rightarrow> [] | v # _ \<Rightarrow> [Inr v])"
proof (induction cs arbitrary: s)
  case Nil
  then show ?case by simp
next
  case (Cons c cs)
  let ?s1 = "snd (store_step put get c s)"
  show ?case
  proof (cases "\<exists>v. c = Write k v")
    case True
    then obtain v where c: "c = Write k v" by blast
    have "\<forall>k'. i \<notin> set (senders ?s1 k')"
      using Cons.prems by (auto simp: c senders_step simp del: store_step.simps)
    then show ?thesis
      using no_reply_run [of i ?s1 cs put get] Cons.prems
      by (simp add: c store_run_Cons replies_step del: store_run.simps(2) store_step.simps)
  next
    case False
    have "count_list (senders ?s1 k) i = 1" "\<forall>k'. k' \<noteq> k \<longrightarrow> i \<notin> set (senders ?s1 k')"
      using Cons.prems False by (cases c; auto simp: senders_step simp del: store_step.simps)+
    moreover have "notify_replies i (fst (store_step put get c s)) = []"
      using Cons.prems False
      by (cases c) (auto simp: replies_step count_list_0_iff simp del: store_step.simps)
    moreover have "written k (c # cs) = written k cs"
      using False by (cases c) auto
    ultimately show ?thesis
      using Cons.IH [of ?s1] Cons.prems(3)
      by (simp add: store_run_Cons del: store_run.simps(2))
  qed
qed

locale kv_store =
  fixes put :: "bytes \<Rightarrow> bytes \<Rightarrow> 'db \<Rightarrow> 'db"
    and get :: "bytes \<Rightarrow> 'db \<Rightarrow> store_error + bytes option"
  assumes get_put: "get k (put k v d) = Inr (Some v)"
    and get_put_other: "k \<noteq> k' \<Longrightarrow> get k (put k' v d) = get k d"
begin

text \<open>A read sees the last write of its key.\<close>

lemma get_run:
  "get k (db (snd (store_run put get cs s))) =
     (if written k cs = [] then get k (db s) else Inr (Some (last (written k cs))))"
proof (induction cs arbitrary: s)
  case Nil
  then show ?case by simp
next
  case (Cons c cs)
  have "get k (db (snd (store_step put get c s))) =
      (case c of Write k' v \<Rightarrow> if k' = k then Inr (Some v) else get k (db s) | _ \<Rightarrow> get k (db s))"
    by (cases c) (auto simp: db_step get_put get_put_other simp del: store_step.simps)
  then show ?case
    by (cases c) (auto simp: store_run_Cons Cons.IH simp del: store_run.simps(2) store_step.simps)
qed

text \<open>
  A \<open>notify_read\<close> is answered exactly once: at once with the value of a key that was
  written, or with what the database held or its error; otherwise with the first value written
  later; not at all while nobody writes it.
\<close>

lemma notify_answered_once:
  assumes fresh: "\<forall>c \<in> set (cs @ cs'). \<not> notifies i c"
  shows "notify_replies i (fst (store_run put get (cs @ NotifyRead k i # cs') (store_new d))) =
    (if written k cs \<noteq> [] then [Inr (last (written k cs))]
     else case get k d of
       Inl e \<Rightarrow> [Inl e]
     | Inr (Some v) \<Rightarrow> [Inr v]
     | Inr None \<Rightarrow> (case written k cs' of [] \<Rightarrow> [] | v # _ \<Rightarrow> [Inr v]))"
proof -
  let ?s = "snd (store_run put get cs (store_new d))"
  let ?s1 = "snd (store_step put get (NotifyRead k i) ?s)"
  have no: "\<forall>k. i \<notin> set (senders (store_new d) k)"
    by (simp add: senders_def store_new_def)
  have r0: "notify_replies i (fst (store_run put get cs (store_new d))) = []"
    and s0: "\<forall>k. i \<notin> set (senders ?s k)"
    using no_reply_run [OF no, of cs put get] fresh by auto
  have g: "get k (db ?s) = (if written k cs = [] then get k d else Inr (Some (last (written k cs))))"
    by (simp add: get_run store_new_def)
  have split: "notify_replies i (fst (store_run put get (cs @ NotifyRead k i # cs') (store_new d))) =
      notify_replies i (fst (store_step put get (NotifyRead k i) ?s)) @
      notify_replies i (fst (store_run put get cs' ?s1))"
    by (simp add: store_run_append store_run_Cons r0 del: store_run.simps(2) store_step.simps)
  show ?thesis
  proof (cases "written k cs = [] \<and> get k d = Inr None")
    case True
    then have "count_list (senders ?s1 k) i = 1" "\<forall>k'. k' \<noteq> k \<longrightarrow> i \<notin> set (senders ?s1 k')"
      using s0 g by (auto simp: senders_step count_list_0_iff simp del: store_step.simps)
    then show ?thesis
      using pending_reply_run [of ?s1 k i cs' put get] fresh True
      unfolding split by (simp add: replies_step g del: store_step.simps)
  next
    case False
    then have "\<forall>k'. i \<notin> set (senders ?s1 k')"
      using s0 g by (auto simp: senders_step simp del: store_step.simps)
    then show ?thesis
      using no_reply_run [of i ?s1 cs' put get] fresh False
      unfolding split by (auto simp: replies_step g simp del: store_step.simps split: sum.split option.split)
  qed
qed

end

interpretation ddb: kv_store default_put default_get
  by unfold_locales (auto simp: default_put_def default_get_def)

section \<open>The task over any database\<close>

text \<open>
  C25. Over a database whose writes do not fail, whatever it holds at the start, a notify_read
  sent to the store task is answered exactly once: at once with the last value if its key was
  written before, or else with what the database held or its error; otherwise with the first
  value written after it; and not at all while nobody writes the key.
\<close>

lemma notify_read_answered_once:
  assumes "kv_store put get" and "\<forall>c \<in> set (before @ after). \<not> notifies i c"
  shows "notify_replies i (fst (store_run put get (before @ NotifyRead k i # after) (store_new d))) =
    (if written k before \<noteq> [] then [Inr (last (written k before))]
     else case get k d of
       Inl e \<Rightarrow> [Inl e]
     | Inr (Some v) \<Rightarrow> [Inr v]
     | Inr None \<Rightarrow> (case written k after of [] \<Rightarrow> [] | v # _ \<Rightarrow> [Inr v]))"
  by (rule kv_store.notify_answered_once [OF assms])

lemma notify_read_witness:
  "notify_replies 3 (fst (store_run default_put default_get
     ([Write [1] [10], NotifyRead [2] 4] @ NotifyRead [2] 3 # [Read [2] 3, Write [2] [20], Write [2] [21]]) (store_new [[5] \<mapsto> [6]])))
   = [Inr [20]]
   \<and> notify_replies 3 (fst (store_run default_put default_get
     ([Write [1] [10]] @ NotifyRead [5] 3 # [Write [5] [7]]) (store_new [[5] \<mapsto> [6]])))
   = [Inr [6]]"
  by (subst (1 2) notify_read_answered_once [OF ddb.kv_store_axioms]) (simp_all add: notifies_def default_get_def)

text \<open>
  A read sent to the store task after any sequence of commands is answered with the last
  value written to its key, or with what the database held if there was no write.
\<close>

lemma store_reads_last_write:
  assumes "kv_store put get"
  shows "fst (store_run put get (cs @ [Read k i]) (store_new d)) = fst (store_run put get cs (store_new d)) @
      [ReadReply i (if written k cs = [] then get k d else Inr (Some (last (written k cs))))]"
  using kv_store.get_run [OF assms, of k cs "store_new d"] by (simp add: store_run_append) (simp add: store_new_def)

end
