(* ===== verification/Core_State.thy ===== *)
theory Core_State
  imports Aggregator Store
begin

text \<open>
  The data of \<^verbatim>\<open>consensus/src/core.rs\<close>: the messages, a \<open>Chain\<close>, the state of the
  \<open>Core\<close>, and the form in which its handlers are written. A handler that takes
  \<open>chain: &mut Chain\<close> runs on the pair of the core and that chain; the copy of the chain in
  \<open>pubkey_to_chain\<close> stays as it was until \<open>run\<close> inserts the chain back.

  What a handler sends to a channel is appended to the list that stands for the channel, so
  a state records everything the task has sent. The tasks at the other ends run forever, so
  a send does not fail.
\<close>

section \<open>Messages\<close>

datatype consensus_message =
    Propose block
  | VoteMsg vote
  | LoopBack block
  | SyncRequest digest public_key
  | SyncReply block
  | TimeoutMsg timeout
  | TCMsg tc
  | ABAVal aba_val
  | ABAProof aba_proof
  | ABACoinShare randomness_share

text \<open>\<^verbatim>\<open>consensus/src/mempool.rs\<close>: what the core tells the mempool and what it is told.\<close>

datatype payload_status = Accept | Reject | Wait

datatype consensus_mempool_message =
    MGet nat
  | MVerify block
  | MCleanup "digest list" u64

section \<open>Constants\<close>

definition NEXT_EPOCH_HEIGHT :: u64 where "NEXT_EPOCH_HEIGHT = 10"
definition LAMBDA_VAL :: u64 where "LAMBDA_VAL = 10"
definition INIT_PHASE :: u8 where "INIT_PHASE = 0"
definition AUX_PHASE :: u8 where "AUX_PHASE = 2"
definition COIN_PHASE :: u8 where "COIN_PHASE = 3"
definition HOTSTUFF :: u8 where "HOTSTUFF = 0"
definition TCVBA :: u8 where "TCVBA = 1"

section \<open>Chains and the core\<close>

record chain =
  ch_name :: public_key
  ch_height :: u64
  ch_last_voted_height :: u64
  ch_last_committed_height :: u64
  ch_aggregator :: aggregator
  ch_high_qc :: qc
  ch_height_to_digest :: "u64 \<rightharpoonup> digest"
  ch_epoch :: u64

definition chain_new :: "public_key \<Rightarrow> committee \<Rightarrow> chain" where
  "chain_new nm c = \<lparr>ch_name = nm, ch_height = 1, ch_last_voted_height = 0,
     ch_last_committed_height = 0, ch_aggregator = aggregator_new c, ch_high_qc = qc_genesis,
     ch_height_to_digest = Map.empty, ch_epoch = 0\<rparr>"

record 'db core =
  name :: public_key
  core_committee :: committee
  core_parameters :: parameters
  store :: 'db
  core_signature_service :: signature_service
  pk_set :: public_key_set
  leader_elector :: committee
  network_filter :: "(consensus_message \<times> socket_addr list) list"
  network_filter_smvba :: "(consensus_message \<times> socket_addr list) list"
  commit_channel :: "block list"
  inner_channel :: "((public_key \<times> digest) list \<times> block option) list"
  mempool_channel :: "consensus_mempool_message list"
  epoch :: u64
  total_epoch :: u64
  tc_processed :: bool
  val_value_broadcasted :: bool
  aux_value_broadcasted :: bool
  coin_share_broadcasted :: bool
  aux_proof_broadcasted :: bool
  is_view_change :: bool
  pubkey_to_chain :: "(public_key \<times> chain) list"
  tc_cache :: "u64 \<rightharpoonup> tc"
  core_aggregator :: aggregator
  bin_values :: "u64 set"
  aba_round :: u64
  phase :: u8
  aba_output_val :: "u64 option"
  aba_input_val :: "u64 \<rightharpoonup> u64"
  aba_val_phase_cache1 :: "u64 \<times> u64 \<rightharpoonup> aba_proof"
  aba_val_phase_cache2 :: "u64 \<times> u64 \<rightharpoonup> aba_proof"
  aba_aux_phase_cache :: "u64 \<times> u64 \<rightharpoonup> aba_proof"
  aux_value_nums :: "u64 \<times> u64 \<rightharpoonup> u64"
  aba_coin_cache :: "u64 \<times> u64 \<rightharpoonup> usize"
  aba_proof_cache :: "u64 \<times> u64 \<rightharpoonup> aba_proof"

text \<open>
  \<open>Core::new\<close>. The chains are filed in the order in which the committee is iterated over;
  the channels start empty.
\<close>

definition core_new :: "public_key \<Rightarrow> committee \<Rightarrow> parameters \<Rightarrow> signature_service \<Rightarrow> public_key_set \<Rightarrow>
    'db \<Rightarrow> committee \<Rightarrow> 'db core" where
  "core_new nm c params svc pks st leaders = \<lparr>
     name = nm, core_committee = c, core_parameters = params, store = st,
     core_signature_service = svc, pk_set = pks, leader_elector = leaders,
     network_filter = [], network_filter_smvba = [], commit_channel = [], inner_channel = [],
     mempool_channel = [],
     epoch = 0, total_epoch = 0, tc_processed = False, val_value_broadcasted = False,
     aux_value_broadcasted = False, coin_share_broadcasted = False,
     aux_proof_broadcasted = False, is_view_change = False,
     pubkey_to_chain = map (\<lambda>pk. (pk, chain_new pk c)) (members c),
     tc_cache = Map.empty, core_aggregator = aggregator_new c, bin_values = {}, aba_round = 1,
     phase = INIT_PHASE, aba_output_val = None, aba_input_val = Map.empty,
     aba_val_phase_cache1 = Map.empty, aba_val_phase_cache2 = Map.empty,
     aba_aux_phase_cache = Map.empty, aux_value_nums = Map.empty,
     aba_coin_cache = Map.empty, aba_proof_cache = Map.empty\<rparr>"

section \<open>The environment\<close>

text \<open>
  What comes from other crates and tasks: the cryptographic primitives, the database, the
  \<open>bincode\<close> form of a block, and the answers of the mempool task, which may depend on
  everything it was told before. \<open>fuel\<close> bounds the depth of the two recursions of the core.
\<close>

record 'db env =
  prims :: primitives
  db_put :: "bytes \<Rightarrow> bytes \<Rightarrow> 'db \<Rightarrow> 'db"
  db_get :: "bytes \<Rightarrow> 'db \<Rightarrow> store_error + bytes option"
  serialize_block :: "block \<Rightarrow> bytes"
  deserialize_block :: "bytes \<Rightarrow> bincode_error + block"
  mempool_get :: "consensus_mempool_message list \<Rightarrow> nat \<Rightarrow> digest list"
  mempool_verify :: "consensus_mempool_message list \<Rightarrow> block \<Rightarrow> payload_status"
  fuel :: nat

type_synonym ('db, 'a) core_act = "('db core, consensus_error, 'a) act"
type_synonym ('db, 'a) chain_act = "('db core \<times> chain, consensus_error, 'a) act"

section \<open>Plumbing\<close>

text \<open>A method of the core, called from one that also holds a chain; and an update of the chain.\<close>

definition on_core :: "('db, 'a) core_act \<Rightarrow> ('db, 'a) chain_act" where
  "on_core m = (\<lambda>(s, c). case m s of (r, s') \<Rightarrow> (r, (s', c)))"

definition modify_chain :: "(chain \<Rightarrow> chain) \<Rightarrow> ('db, unit) chain_act" where
  "modify_chain f = (\<lambda>(s, c). (Ok (), (s, f c)))"

definition set_chain :: "public_key \<Rightarrow> chain \<Rightarrow> 'db core \<Rightarrow> 'db core" where
  "set_chain k c s = s\<lparr>pubkey_to_chain := AList.update k c (pubkey_to_chain s)\<rparr>"

text \<open>
  The frame \<open>run\<close> puts around a handler:
  \<open>let mut chain = map.get(&k).cloned().unwrap(); let result = handler(&mut chain); map.insert(k, chain); result\<close>.
\<close>

definition with_chain :: "public_key \<Rightarrow> ('db, 'a) chain_act \<Rightarrow> ('db, 'a) core_act" where
  "with_chain k m = (\<lambda>s. case map_of (pubkey_to_chain s) k of
     None \<Rightarrow> (Panic UnwrapNone, s)
   | Some c \<Rightarrow> (case m (s, c) of (r, (s', c')) \<Rightarrow> (r, set_chain k c' s')))"

text \<open>A handler on a chain that is a local variable of the caller, which gets it back.\<close>

definition run_with :: "chain \<Rightarrow> ('db, 'a) chain_act \<Rightarrow> ('db, 'a \<times> chain) core_act" where
  "run_with c m = (\<lambda>s. case m (s, c) of (r, (s', c')) \<Rightarrow>
     (case r of Ok x \<Rightarrow> Ok (x, c') | Err e \<Rightarrow> Err e | Panic p \<Rightarrow> Panic p | Diverge \<Rightarrow> Diverge, s'))"

definition leader_of :: "u64 \<Rightarrow> ('db, public_key) core_act" where
  "leader_of ep = bind (gets leader_elector) (\<lambda>c. case get_leader c ep of
     None \<Rightarrow> panic RemByZero | Some k \<Rightarrow> ret k)"

text \<open>\<open>let _ = ...\<close> and the logging of errors in \<open>run\<close>: an error is dropped, a panic is not.\<close>

definition ignore_err :: "('s, 'e, unit) act \<Rightarrow> ('s, 'e, unit) act" where
  "ignore_err m = (\<lambda>s. case m s of (r, s') \<Rightarrow> (case r of Err e \<Rightarrow> Ok () | _ \<Rightarrow> r, s'))"

text \<open>A result computed together with an update of one field (an aggregator call and \<open>?\<close>).\<close>

definition core_aggregate :: "(aggregator \<Rightarrow> 'a consensus_result \<times> aggregator) \<Rightarrow> ('db, 'a) core_act" where
  "core_aggregate f = (\<lambda>s. case f (core_aggregator s) of (r, ag) \<Rightarrow>
     lift r (s\<lparr>core_aggregator := ag\<rparr>))"

definition chain_aggregate :: "(aggregator \<Rightarrow> 'a consensus_result \<times> aggregator) \<Rightarrow> ('db, 'a) chain_act" where
  "chain_aggregate f = (\<lambda>(s, c). case f (ch_aggregator c) of (r, ag) \<Rightarrow>
     lift r (s, c\<lparr>ch_aggregator := ag\<rparr>))"

lemmas plumbing_defs = on_core_def modify_chain_def set_chain_def with_chain_def run_with_def
  leader_of_def ignore_err_def core_aggregate_def chain_aggregate_def

section \<open>The mempool driver\<close>

text \<open>\<open>MempoolDriver::get\<close>, \<open>verify\<close> and \<open>cleanup\<close>.\<close>

definition driver_get :: "'db env \<Rightarrow> nat \<Rightarrow> ('db, digest list) core_act" where
  "driver_get env mx = bind (gets mempool_channel) (\<lambda>sent.
     bind (modify (\<lambda>s. s\<lparr>mempool_channel := mempool_channel s @ [MGet mx]\<rparr>)) (\<lambda>_.
     ret (mempool_get env sent mx)))"

definition driver_verify :: "'db env \<Rightarrow> block \<Rightarrow> ('db, bool) core_act" where
  "driver_verify env b = bind (gets mempool_channel) (\<lambda>sent.
     bind (modify (\<lambda>s. s\<lparr>mempool_channel := mempool_channel s @ [MVerify b]\<rparr>)) (\<lambda>_.
     case mempool_verify env sent b of
       Accept \<Rightarrow> ret True
     | Reject \<Rightarrow> throw InvalidPayload
     | Wait \<Rightarrow> ret False))"

definition driver_cleanup :: "block \<Rightarrow> ('db, unit) core_act" where
  "driver_cleanup b0 =
     modify (\<lambda>s. s\<lparr>mempool_channel := mempool_channel s @ [MCleanup (b_payload b0) (b_height b0)]\<rparr>)"

section \<open>The synchronizer, seen from the core\<close>

text \<open>
  \<^verbatim>\<open>consensus/src/synchronizer.rs\<close>: \<open>transmit\<close> picks the addresses by recipient and
  protocol; \<open>get_block\<close> reads the store and asks the background task for what is missing.
\<close>

definition transmit_addresses :: "committee \<Rightarrow> public_key \<Rightarrow> public_key option \<Rightarrow> u8 \<Rightarrow>
    socket_addr list consensus_result" where
  "transmit_addresses c from to tag = (case to of
     Some k \<Rightarrow> if tag = HOTSTUFF then rbind (address c k) (\<lambda>a. Inr [a])
              else rbind (smvba_address c k) (\<lambda>a. Inr [a])
   | None \<Rightarrow> Inr (if tag = HOTSTUFF then broadcast_addresses c from
                  else smvba_broadcast_addresses c from))"

definition transmit_hotstuff :: "consensus_message \<Rightarrow> public_key option \<Rightarrow> ('db, unit) core_act" where
  "transmit_hotstuff msg to = bind (gets id) (\<lambda>s.
     bind (lift (transmit_addresses (core_committee s) (name s) to HOTSTUFF)) (\<lambda>addrs.
     modify (\<lambda>s. s\<lparr>network_filter := network_filter s @ [(msg, addrs)]\<rparr>)))"

definition transmit_smvba :: "consensus_message \<Rightarrow> public_key option \<Rightarrow> ('db, unit) core_act" where
  "transmit_smvba msg to = bind (gets id) (\<lambda>s.
     bind (lift (transmit_addresses (core_committee s) (name s) to TCVBA)) (\<lambda>addrs.
     modify (\<lambda>s. s\<lparr>network_filter_smvba := network_filter_smvba s @ [(msg, addrs)]\<rparr>)))"

definition get_block :: "'db env \<Rightarrow> public_key \<Rightarrow> digest \<Rightarrow> block option \<Rightarrow> ('db, block option) core_act"
  where
  "get_block env author d blk =
     (if d = qc_hash qc_genesis then ret (Some block_genesis)
      else bind (gets store) (\<lambda>st.
        bind (lift (from_store (db_get env (digest_to_vec d) st))) (\<lambda>r. case r of
          Some bytes \<Rightarrow> bind (lift (from_bincode (deserialize_block env bytes))) (\<lambda>b. ret (Some b))
        | None \<Rightarrow> bind (modify (\<lambda>s. s\<lparr>inner_channel := inner_channel s @ [([(author, d)], blk)]\<rparr>))
            (\<lambda>_. ret None))))"

definition get_parent_block :: "'db env \<Rightarrow> block \<Rightarrow> ('db, block option) core_act" where
  "get_parent_block env b = get_block env (b_author b) (block_parent b) (Some b)"

definition get_ancestors :: "'db env \<Rightarrow> block \<Rightarrow> ('db, (block \<times> block) option) core_act" where
  "get_ancestors env b = bind (get_parent_block env b) (\<lambda>r. case r of
     None \<Rightarrow> ret None
   | Some b1 \<Rightarrow> bind (get_parent_block env b1) (\<lambda>r. case r of
       None \<Rightarrow> ret None
     | Some b0 \<Rightarrow> ret (Some (b0, b1))))"

section \<open>Preservation through the plumbing\<close>

lemma pres_on_core [pres_rules]:
  "(\<And>c. pres (\<lambda>s. I (s, c)) m) \<Longrightarrow> pres I (on_core m)"
  by (auto simp: pres_def on_core_def split: prod.split) (metis snd_conv)

lemma pres_ignore_err [pres_rules]: "pres I m \<Longrightarrow> pres I (ignore_err m)"
  by (auto simp: pres_def ignore_err_def split: prod.split)

lemma pres_leader_of [pres_rules]: "pres I (leader_of ep)"
  unfolding leader_of_def by (intro pres_rules)

lemma pres_request_signature [pres_rules]: "pres I (request_signature cr svc d)"
  unfolding request_signature_def by (intro pres_rules)

lemma pres_constructors [pres_rules]:
  "pres I (block_new cr svc q author h ep payload refs)" "pres I (vote_new cr svc b author)"
  "pres I (timeout_new cr svc q ep author)" "pres I (aba_val_new cr svc author ep r v ph)"
  "pres I (randomness_share_new cr svc ep r author)"
  unfolding block_new_def vote_new_def timeout_new_def aba_val_new_def randomness_share_new_def Let_def
  by (intro pres_rules)+

lemma pres_randomness_share_verify [pres_rules]: "pres I (randomness_share_verify cr c pks sh)"
  unfolding randomness_share_verify_def by (intro pres_rules)

lemma pres_modify_chain:
  "(\<And>s c. I (s, c) \<Longrightarrow> I (s, f c)) \<Longrightarrow> pres I (modify_chain f)"
  by (auto simp: pres_def modify_chain_def)

end
