(* ===== verification/Core_Chain.thy ===== *)
theory Core_Chain
  imports Core_State
begin

text \<open>
  The chain half of \<^verbatim>\<open>consensus/src/core.rs\<close>: voting, committing, proposing, and the
  handlers of proposals, votes, timeouts and sync requests. The methods appear in the order of
  the file, except that \<open>handle_vote\<close> stands after the methods it calls and that call it
  back: it proposes a block, which is processed and voted for at once, and our own vote is
  handled like any other. That recursion and the one of \<open>commit_prev_block\<close> run on the
  fuel of the environment.
\<close>

section \<open>Storing and voting\<close>

definition store_block :: "'db env \<Rightarrow> block \<Rightarrow> ('db, unit) core_act" where
  "store_block env b = modify (\<lambda>s. s\<lparr>store :=
     db_put env (digest_to_vec (block_digest (prims env) b)) (serialize_block env b) (store s)\<rparr>)"

definition increase_last_voted_round :: "u64 \<Rightarrow> ('db, unit) chain_act" where
  "increase_last_voted_round target =
     modify_chain (\<lambda>c. c\<lparr>ch_last_voted_height := max (ch_last_voted_height c) target\<rparr>)"

definition make_vote :: "'db env \<Rightarrow> block \<Rightarrow> ('db, vote option) chain_act" where
  "make_vote env b = bind (gets id) (\<lambda>(s, c).
     if ch_epoch c > b_epoch b then ret None else
     bind (if is_view_change s then bind (on_core (leader_of (epoch s))) (\<lambda>l. ret (b_author b = l))
           else ret False) (\<lambda>leader_block.
     if leader_block then ret None else
     let safety_rule_1 = b_height b > ch_last_voted_height c;
         safety_rule_2 = (qc_height (b_qc b) + 1 = b_height b \<or> qc_eq (b_qc b) qc_genesis) in
     if \<not> (safety_rule_1 \<and> safety_rule_2) then ret None else
     bind (increase_last_voted_round (b_height b)) (\<lambda>_.
     bind (vote_new (prims env) (core_signature_service s) b (name s)) (\<lambda>v.
     ret (Some v)))))"

section \<open>Committing\<close>

text \<open>
  The loop over the references of a leader block. \<open>rec\<close> is the recursive call, made on a
  copy of the referenced block's chain that is inserted back only if the call returned
  \<open>Ok(true)\<close>. The result is the flag and the queue \<open>to_commit\<close>.
\<close>

primrec commit_refs :: "'db env \<Rightarrow> (block \<Rightarrow> block list \<Rightarrow> ('db, bool \<times> block list) chain_act) \<Rightarrow>
    (public_key \<times> digest) list \<Rightarrow> block list \<Rightarrow> ('db, bool \<times> block list) core_act" where
  "commit_refs env rec [] to_commit = ret (True, to_commit)"
| "commit_refs env rec (r # refs) to_commit =
     bind (gets name) (\<lambda>me.
     bind (get_block env me (snd r) None) (\<lambda>found. case found of
       None \<Rightarrow> ret (False, to_commit)
     | Some b \<Rightarrow>
         bind (gets pubkey_to_chain) (\<lambda>chains.
         bind (unwrap (map_of chains (b_author b))) (\<lambda>target.
         bind (run_with target (rec b to_commit)) (\<lambda>((done, to_commit), target).
         if \<not> done then ret (False, to_commit) else
         bind (modify (set_chain (b_author b) target)) (\<lambda>_.
         commit_refs env rec refs to_commit))))))"

text \<open>
  \<open>commit_prev_block\<close>. The test before the loop and the test of the loop are the same, so
  the next round of the loop is a recursive call. \<open>to_commit\<close> is the deque, front first.
\<close>

primrec commit_prev_block :: "'db env \<Rightarrow> nat \<Rightarrow> block \<Rightarrow> block list \<Rightarrow>
    ('db, bool \<times> block list) chain_act" where
  "commit_prev_block env 0 = (\<lambda>b to_commit. diverge)"
| "commit_prev_block env (Suc n) = (\<lambda>b to_commit.
     bind (gets id) (\<lambda>(s, c).
     if ch_last_committed_height c \<ge> b_height b then ret (True, to_commit) else
     case ch_height_to_digest c (ch_last_committed_height c + 1) of
       None \<Rightarrow> ret (False, to_commit)
     | Some current_digest \<Rightarrow>
         bind (on_core (get_block env (name s) current_digest None)) (\<lambda>r.
         if r = None then ret (False, to_commit) else
         bind (on_core (get_block env (name s) current_digest None)) (\<lambda>r.
         bind (unwrap r) (\<lambda>current_block.
         bind (on_core (leader_of (epoch s))) (\<lambda>leader.
         bind (if b_author current_block = leader
               then on_core (commit_refs env (commit_prev_block env n)
                      (sort_key fst (b_references current_block)) to_commit)
               else ret (True, to_commit)) (\<lambda>(done, to_commit).
         if \<not> done then ret (False, to_commit) else
         bind (modify_chain (\<lambda>c. c\<lparr>ch_last_committed_height := ch_last_committed_height c + 1\<rparr>)) (\<lambda>_.
         commit_prev_block env n b
           (current_block\<lparr>b_references := (if b_author current_block = leader
              then sort_key fst (b_references current_block) else b_references current_block)\<rparr>
            # to_commit)))))))))"

text \<open>The loop that pops the blocks from the back of the deque.\<close>

primrec deliver :: "block list \<Rightarrow> ('db, unit) core_act" where
  "deliver [] = ret ()"
| "deliver (b # bs) =
     bind (whenever (b_payload b \<noteq> []) (driver_cleanup b)) (\<lambda>_.
     bind (modify (\<lambda>s. s\<lparr>commit_channel := commit_channel s @ [b]\<rparr>)) (\<lambda>_.
     deliver bs))"

definition commit :: "'db env \<Rightarrow> block \<Rightarrow> ('db, unit) chain_act" where
  "commit env b = bind (commit_prev_block env (fuel env) b []) (\<lambda>(done, to_commit).
     on_core (deliver (rev to_commit)))"

section \<open>Quorum certificates and heights\<close>

definition update_high_qc :: "qc \<Rightarrow> ('db, unit) chain_act" where
  "update_high_qc q = modify_chain (\<lambda>c.
     let c = c\<lparr>ch_height_to_digest := (ch_height_to_digest c)(qc_height q \<mapsto> qc_hash q)\<rparr> in
     if qc_height q > qc_height (ch_high_qc c) then c\<lparr>ch_high_qc := q\<rparr> else c)"

definition advance_height :: "u64 \<Rightarrow> ('db, unit) chain_act" where
  "advance_height h = bind (gets id) (\<lambda>(s, c).
     if h < ch_height c then ret () else
     bind (modify_chain (\<lambda>c. c\<lparr>ch_height := h + 1\<rparr>)) (\<lambda>_.
     bind (on_core (leader_of (epoch s))) (\<lambda>_.
     modify_chain (\<lambda>c. c\<lparr>ch_aggregator := cleanup (epoch s) (ch_height c) (ch_aggregator c)\<rparr>))))"

definition process_qc :: "qc \<Rightarrow> ('db, unit) chain_act" where
  "process_qc q = bind (advance_height (qc_height q)) (\<lambda>_. update_high_qc q)"

section \<open>Timeouts\<close>

definition handle_timeout :: "'db env \<Rightarrow> timeout \<Rightarrow> ('db, unit) chain_act" where
  "handle_timeout env t = bind (gets id) (\<lambda>(s, c).
     if t_epoch t < epoch s then ret () else
     bind (lift (timeout_verify (prims env) (core_committee s) t)) (\<lambda>_.
     bind (process_qc (t_high_qc t)) (\<lambda>_.
     bind (chain_aggregate (add_timeout t)) (\<lambda>r. case r of
       Some cert \<Rightarrow> on_core (modify (\<lambda>s. s\<lparr>tc_cache := (tc_cache s)(tc_epoch cert \<mapsto> cert)\<rparr>))
     | None \<Rightarrow> ret ()))))"

definition local_timeout_round :: "'db env \<Rightarrow> ('db, unit) chain_act" where
  "local_timeout_round env = bind (gets id) (\<lambda>(s, c).
     bind (increase_last_voted_round (ch_height c)) (\<lambda>_.
     bind (timeout_new (prims env) (core_signature_service s) (ch_high_qc c) (epoch s) (name s)) (\<lambda>t.
     bind (on_core (transmit_smvba (TimeoutMsg t) None)) (\<lambda>_.
     handle_timeout env t))))"

section \<open>Proposing\<close>

definition proposal_references :: "'db core \<Rightarrow> chain \<Rightarrow> (public_key \<times> digest) list" where
  "proposal_references s c = List.map_filter (\<lambda>k. case map_of (pubkey_to_chain s) k of
       None \<Rightarrow> None
     | Some ch \<Rightarrow> if qc_eq (ch_high_qc ch) qc_genesis then None
                 else Some (k, qc_hash (ch_high_qc ch)))
     (filter (\<lambda>k. k \<noteq> ch_name c) (members (core_committee s)))"

definition generate_proposal :: "'db env \<Rightarrow> bool \<Rightarrow> ('db, block) chain_act" where
  "generate_proposal env tag = bind (gets id) (\<lambda>(s, c).
     let refs = proposal_references s c;
         q = (if tag then qc_genesis else ch_high_qc c) in
     bind (on_core (driver_get env (max_payload_size (core_parameters s)))) (\<lambda>payload.
     block_new (prims env) (core_signature_service s) q (name s) (ch_height c) (ch_epoch c) payload refs))"

section \<open>Processing blocks\<close>

definition process_block_vote :: "'db env \<Rightarrow> (vote \<Rightarrow> ('db, unit) chain_act) \<Rightarrow> block \<Rightarrow> ('db, unit) chain_act"
  where
  "process_block_vote env hv b = bind (gets id) (\<lambda>(s, c).
     if b_height b = ch_height c \<or> qc_eq (b_qc b) qc_genesis then
       bind (make_vote env b) (\<lambda>r. case r of
         None \<Rightarrow> ret ()
       | Some v \<Rightarrow> if v_proposer v = name s then hv v
                  else on_core (transmit_hotstuff (VoteMsg v) (Some (v_proposer v))))
     else ret ())"

definition process_block_prepare :: "'db env \<Rightarrow> block \<Rightarrow> ('db, (block \<times> block) option) core_act" where
  "process_block_prepare env b = get_ancestors env b"

definition process_block_commit :: "'db env \<Rightarrow> block \<Rightarrow> block \<Rightarrow> ('db, unit) chain_act" where
  "process_block_commit env b0 b1 = bind (gets id) (\<lambda>(s, c).
     bind (on_core (leader_of (epoch s))) (\<lambda>leader.
     if leader = b_author b0 \<and> b_height b0 + 1 = b_height b1 then commit env b0 else ret ()))"

definition process_block :: "'db env \<Rightarrow> (vote \<Rightarrow> ('db, unit) chain_act) \<Rightarrow> block \<Rightarrow> ('db, unit) chain_act"
  where
  "process_block env hv b = bind (on_core (store_block env b)) (\<lambda>_.
     bind (gets id) (\<lambda>(s, c).
     bind (on_core (leader_of (epoch s))) (\<lambda>leader.
     bind (if b_author b = leader then
             bind (on_core (process_block_prepare env b)) (\<lambda>r. case r of
               Some (b0, b1) \<Rightarrow> if \<not> is_view_change s \<and> b_epoch b \<le> ch_epoch c
                               then process_block_commit env b0 b1 else ret ()
             | None \<Rightarrow> ret ())
           else bind (on_core (process_block_prepare env b)) (\<lambda>_. ret ())) (\<lambda>_.
     process_block_vote env hv b))))"

definition broadcast_propose :: "'db env \<Rightarrow> (vote \<Rightarrow> ('db, unit) chain_act) \<Rightarrow> block \<Rightarrow> ('db, unit) chain_act"
  where
  "broadcast_propose env hv b =
     bind (on_core (transmit_hotstuff (Propose b) None)) (\<lambda>_. process_block env hv b)"

section \<open>Votes\<close>

primrec handle_vote_rec :: "'db env \<Rightarrow> nat \<Rightarrow> vote \<Rightarrow> ('db, unit) chain_act" where
  "handle_vote_rec env 0 = (\<lambda>v. diverge)"
| "handle_vote_rec env (Suc n) = (\<lambda>v. bind (gets id) (\<lambda>(s, c).
     if v_height v < ch_height c then ret () else
     bind (lift (vote_verify (prims env) (core_committee s) v)) (\<lambda>_.
     bind (chain_aggregate (add_vote v)) (\<lambda>r. case r of
       None \<Rightarrow> ret ()
     | Some q \<Rightarrow>
         bind (process_qc q) (\<lambda>_.
         bind (generate_proposal env False) (\<lambda>b.
         broadcast_propose env (handle_vote_rec env n) b))))))"

definition handle_vote :: "'db env \<Rightarrow> vote \<Rightarrow> ('db, unit) chain_act" where
  "handle_vote env = handle_vote_rec env (fuel env)"

section \<open>Proposals, timeout certificates and sync requests\<close>

definition handle_proposal :: "'db env \<Rightarrow> block \<Rightarrow> ('db, unit) chain_act" where
  "handle_proposal env b = bind (gets id) (\<lambda>(s, c).
     bind (lift (ensure (b_author b = ch_name c)
       (WrongAuthor (block_digest (prims env) b) (b_author b) (b_height b)))) (\<lambda>_.
     bind (lift (block_verify (prims env) (core_committee s) b)) (\<lambda>_.
     bind (process_qc (b_qc b)) (\<lambda>_.
     bind (on_core (driver_verify env b)) (\<lambda>available.
     if \<not> available then ret () else process_block env (handle_vote env) b)))))"

definition handle_tc :: "'db env \<Rightarrow> tc \<Rightarrow> ('db, unit) core_act" where
  "handle_tc env t = bind (gets id) (\<lambda>s.
     if tc_epoch t < epoch s then ret () else
     bind (lift (tc_verify (prims env) (core_committee s) t)) (\<lambda>_.
     modify (\<lambda>s. s\<lparr>tc_cache := (tc_cache s)(tc_epoch t \<mapsto> t)\<rparr>)))"

definition handle_sync_request :: "'db env \<Rightarrow> digest \<Rightarrow> public_key \<Rightarrow> ('db, unit) core_act" where
  "handle_sync_request env d sender = bind (gets store) (\<lambda>st.
     bind (lift (from_store (db_get env (digest_to_vec d) st))) (\<lambda>r. case r of
       Some bytes \<Rightarrow> bind (lift (from_bincode (deserialize_block env bytes))) (\<lambda>b.
         transmit_hotstuff (SyncReply b) (Some sender))
     | None \<Rightarrow> ret ()))"

end
