(* ===== verification/Core_ABA.thy ===== *)
theory Core_ABA
  imports Core_Chain
begin

text \<open>
  The agreement half of \<^verbatim>\<open>consensus/src/core.rs\<close>: the handlers of agreement values,
  coin shares and proofs, which fill the caches, and the steps that \<open>process_aba_phase\<close>
  takes over the caches once per round of the main loop.
\<close>

section \<open>Handlers\<close>

definition is_expired_aba_message :: "u64 \<Rightarrow> u64 \<Rightarrow> 'db core \<Rightarrow> bool" where
  "is_expired_aba_message ep r s =
     (if aba_output_val s \<noteq> None then True
      else ep < epoch s \<or> (ep = epoch s \<and> r < aba_round s))"

definition handle_val_phase :: "'db env \<Rightarrow> aba_val \<Rightarrow> ('db, unit) core_act" where
  "handle_val_phase env v = bind (lift (aba_val_verify (prims env) v)) (\<lambda>_.
     bind (core_aggregate (add_aba_val v)) (\<lambda>r. case r of
       None \<Rightarrow> ret ()
     | Some p \<Rightarrow> if ap_tag p
         then modify (\<lambda>s. s\<lparr>aba_val_phase_cache1 := (aba_val_phase_cache1 s)((ap_epoch p, ap_round p) \<mapsto> p)\<rparr>)
         else modify (\<lambda>s. s\<lparr>aba_val_phase_cache2 := (aba_val_phase_cache2 s)((ap_epoch p, ap_round p) \<mapsto> p)\<rparr>)))"

definition handle_aux_phase :: "'db env \<Rightarrow> aba_val \<Rightarrow> ('db, unit) core_act" where
  "handle_aux_phase env v = bind (lift (aba_val_verify (prims env) v)) (\<lambda>_.
     bind (modify (\<lambda>s. s\<lparr>aux_value_nums := (aux_value_nums s)((av_epoch v, av_round v) \<mapsto>
       entry_or (aux_value_nums s) (av_epoch v, av_round v) 0 + 1)\<rparr>)) (\<lambda>_.
     bind (core_aggregate (add_aba_val v)) (\<lambda>r. case r of
       None \<Rightarrow> ret ()
     | Some p \<Rightarrow> modify (\<lambda>s. s\<lparr>aba_aux_phase_cache := (aba_aux_phase_cache s)((ap_epoch p, ap_round p) \<mapsto> p)\<rparr>))))"

definition handle_aba_val :: "'db env \<Rightarrow> aba_val \<Rightarrow> ('db, unit) core_act" where
  "handle_aba_val env v = bind (gets id) (\<lambda>s.
     if is_expired_aba_message (av_epoch v) (av_round v) s then ret ()
     else if av_phase v = VAL_PHASE then handle_val_phase env v
     else if av_phase v = AUX_PHASE then handle_aux_phase env v
     else throw (InvalidPhase (av_phase v)))"

definition handle_coin_share :: "'db env \<Rightarrow> randomness_share \<Rightarrow> ('db, unit) core_act" where
  "handle_coin_share env sh = bind (gets id) (\<lambda>s.
     if is_expired_aba_message (rs_epoch sh) (rs_round sh) s then ret () else
     bind (randomness_share_verify (prims env) (core_committee s) (pk_set s) sh) (\<lambda>_.
     bind (\<lambda>s. case add_aba_random sh (pk_set s) (core_aggregator s) of (r, ag) \<Rightarrow>
       (r, s\<lparr>core_aggregator := ag\<rparr>)) (\<lambda>r. case r of
       None \<Rightarrow> ret ()
     | Some coin \<Rightarrow> modify (\<lambda>s. s\<lparr>aba_coin_cache := (aba_coin_cache s)((rs_epoch sh, rs_round sh) \<mapsto> coin)\<rparr>))))"

definition handle_aba_proof :: "'db env \<Rightarrow> aba_proof \<Rightarrow> ('db, unit) core_act" where
  "handle_aba_proof env p = bind (gets id) (\<lambda>s.
     if is_expired_aba_message (ap_epoch p) (ap_round p) s then ret () else
     bind (lift (aba_proof_verify (prims env) (core_committee s) p)) (\<lambda>_.
     modify (\<lambda>s. s\<lparr>aba_proof_cache := (aba_proof_cache s)((ap_epoch p, ap_round p) \<mapsto> p)\<rparr>)))"

section \<open>Steps over the caches\<close>

definition process_tc :: "'db env \<Rightarrow> tc \<Rightarrow> ('db, unit) core_act" where
  "process_tc env t = bind (transmit_smvba (TCMsg t) None) (\<lambda>_.
     bind (unwrap (if high_qc_rounds t = [] then None else Some (Max (set (high_qc_rounds t))))) (\<lambda>input_val.
     bind (modify (\<lambda>s. s\<lparr>aba_input_val := (aba_input_val s)(1 \<mapsto> input_val)\<rparr>)) (\<lambda>_.
     bind (gets id) (\<lambda>s.
     bind (aba_val_new (prims env) (core_signature_service s) (name s) (epoch s) 1 input_val VAL_PHASE) (\<lambda>v.
     bind (transmit_smvba (ABAVal v) None) (\<lambda>_.
     handle_aba_val env v))))))"

definition process_val_phase_1 :: "'db env \<Rightarrow> aba_proof \<Rightarrow> ('db, unit) core_act" where
  "process_val_phase_1 env p = bind (gets id) (\<lambda>s.
     case aba_input_val s (ap_round p) of
       None \<Rightarrow> panic MissingKey
     | Some input \<Rightarrow> if input = ap_val p then ret () else
         bind (aba_val_new (prims env) (core_signature_service s) (name s) (ap_epoch p) (ap_round p)
                 (ap_val p) (ap_phase p)) (\<lambda>v.
         whenever (\<not> val_value_broadcasted s)
           (bind (modify (\<lambda>s. s\<lparr>val_value_broadcasted := True\<rparr>)) (\<lambda>_.
            bind (transmit_smvba (ABAVal v) None) (\<lambda>_.
            handle_aba_val env v)))))"

definition process_val_phase_2 :: "'db env \<Rightarrow> aba_proof \<Rightarrow> ('db, unit) core_act" where
  "process_val_phase_2 env p = bind (gets id) (\<lambda>s.
     bind (whenever (bin_values s \<noteq> {})
       (bind (aba_val_new (prims env) (core_signature_service s) (name s) (ap_epoch p) (ap_round p)
                (ap_val p) AUX_PHASE) (\<lambda>v.
        whenever (\<not> aux_value_broadcasted s)
          (bind (modify (\<lambda>s. s\<lparr>aux_value_broadcasted := True\<rparr>)) (\<lambda>_.
           bind (transmit_smvba (ABAVal v) None) (\<lambda>_.
           handle_aba_val env v)))))) (\<lambda>_.
     modify (\<lambda>s. s\<lparr>bin_values := insert (ap_val p) (bin_values s)\<rparr>)))"

definition process_aux_phase :: "'db env \<Rightarrow> u64 \<Rightarrow> u64 \<Rightarrow> ('db, unit) core_act" where
  "process_aux_phase env ep r = bind (gets id) (\<lambda>s.
     bind (randomness_share_new (prims env) (core_signature_service s) ep r (name s)) (\<lambda>sh.
     whenever (\<not> coin_share_broadcasted s)
       (bind (modify (\<lambda>s. s\<lparr>coin_share_broadcasted := True\<rparr>)) (\<lambda>_.
        bind (transmit_smvba (ABACoinShare sh) None) (\<lambda>_.
        handle_coin_share env sh)))))"

text \<open>The part of \<open>advance_aba_round\<close> between the signature and the broadcast.\<close>

definition clear_round :: "'db core \<Rightarrow> 'db core" where
  "clear_round s = (let keep = (\<lambda>(k1, k2). k1 = epoch s \<and> k2 \<ge> aba_round s) in
     s\<lparr>val_value_broadcasted := False, aux_value_broadcasted := False,
       coin_share_broadcasted := False, aux_proof_broadcasted := False, bin_values := {},
       aba_val_phase_cache1 := retain keep (aba_val_phase_cache1 s),
       aba_val_phase_cache2 := retain keep (aba_val_phase_cache2 s),
       aba_aux_phase_cache := retain keep (aba_aux_phase_cache s),
       aux_value_nums := retain keep (aux_value_nums s),
       aba_proof_cache := retain keep (aba_proof_cache s)\<rparr>)"

definition advance_aba_round :: "'db env \<Rightarrow> u64 \<Rightarrow> ('db, unit) core_act" where
  "advance_aba_round env input_val =
     bind (modify (\<lambda>s. s\<lparr>aba_round := aba_round s + 1, phase := VAL_PHASE,
       aba_input_val := (aba_input_val s)(aba_round s + 1 \<mapsto> input_val)\<rparr>)) (\<lambda>_.
     bind (gets id) (\<lambda>s.
     bind (aba_val_new (prims env) (core_signature_service s) (name s) (epoch s) (aba_round s)
             input_val VAL_PHASE) (\<lambda>v.
     bind (modify clear_round) (\<lambda>_.
     bind (transmit_smvba (ABAVal v) None) (\<lambda>_.
     handle_aba_val env v)))))"

text \<open>The output branch, which appears twice in \<open>process_coin_share\<close>.\<close>

definition broadcast_aux_proof :: "aba_proof \<Rightarrow> ('db, unit) core_act" where
  "broadcast_aux_proof p = bind (gets aux_proof_broadcasted) (\<lambda>sent.
     whenever (\<not> sent)
       (bind (modify (\<lambda>s. s\<lparr>aux_proof_broadcasted := True\<rparr>)) (\<lambda>_.
        transmit_smvba (ABAProof p) None)))"

definition process_coin_share :: "'db env \<Rightarrow> u64 \<Rightarrow> u64 \<Rightarrow> usize \<Rightarrow> ('db, unit) core_act" where
  "process_coin_share env ep r coin = bind (gets id) (\<lambda>s.
     if card (bin_values s) = 1 then
       let v = the_elem (bin_values s) in
       if v mod 2 = coin then
         bind (modify (\<lambda>s. s\<lparr>aba_output_val := Some v\<rparr>)) (\<lambda>_.
         bind (unwrap (aba_aux_phase_cache s (ep, r))) (\<lambda>p.
         broadcast_aux_proof p))
       else advance_aba_round env v
     else case aba_aux_phase_cache s (ep, r) of
         Some p \<Rightarrow>
           if ap_val p mod 2 = coin then
             bind (modify (\<lambda>s. s\<lparr>aba_output_val := Some (ap_val p)\<rparr>)) (\<lambda>_.
             broadcast_aux_proof p)
           else advance_aba_round env coin
       | None \<Rightarrow> advance_aba_round env coin)"

definition process_aba_proof :: "aba_proof \<Rightarrow> ('db, unit) core_act" where
  "process_aba_proof p = bind (gets id) (\<lambda>s.
     case aba_coin_cache s (ap_epoch p, ap_round p) of
       Some coin \<Rightarrow> whenever (ap_val p mod 2 = coin)
         (modify (\<lambda>s. s\<lparr>aba_output_val := Some (ap_val p)\<rparr>))
     | None \<Rightarrow> ret ())"

text \<open>The blocks of \<open>process_aba_phase\<close>, one definition each.\<close>

definition tc_step :: "'db env \<Rightarrow> ('db, unit) core_act" where
  "tc_step env = bind (gets id) (\<lambda>s.
     whenever (phase s \<ge> INIT_PHASE \<and> \<not> tc_processed s)
       (case tc_cache s (epoch s) of
          Some t \<Rightarrow> bind (process_tc env t) (\<lambda>_. modify (\<lambda>s. s\<lparr>tc_processed := True\<rparr>))
        | None \<Rightarrow> ret ()))"

definition val_step :: "'db env \<Rightarrow> ('db, unit) core_act" where
  "val_step env = bind (gets id) (\<lambda>s.
     whenever (phase s \<ge> VAL_PHASE)
       (bind (case aba_val_phase_cache1 s (epoch s, aba_round s) of
                Some p \<Rightarrow> process_val_phase_1 env p | None \<Rightarrow> ret ()) (\<lambda>_.
        bind (gets id) (\<lambda>s.
        case aba_val_phase_cache2 s (epoch s, aba_round s) of
          Some p \<Rightarrow> process_val_phase_2 env p | None \<Rightarrow> ret ()))))"

definition aux_step :: "'db env \<Rightarrow> ('db, unit) core_act" where
  "aux_step env = bind (gets id) (\<lambda>s.
     whenever (phase s \<ge> AUX_PHASE)
       (case aba_aux_phase_cache s (epoch s, aba_round s) of
          Some p \<Rightarrow> process_aux_phase env (ap_epoch p) (ap_round p) | None \<Rightarrow> ret ()))"

definition coin_step :: "'db env \<Rightarrow> ('db, unit) core_act" where
  "coin_step env = bind (gets id) (\<lambda>s.
     whenever (phase s \<ge> COIN_PHASE)
       (case aba_coin_cache s (epoch s, aba_round s) of
          Some coin \<Rightarrow> process_coin_share env (epoch s) (aba_round s) coin | None \<Rightarrow> ret ()))"

definition proof_step :: "('db, unit) core_act" where
  "proof_step = bind (gets id) (\<lambda>s.
     whenever (is_view_change s)
       (case aba_proof_cache s (epoch s, aba_round s) of
          Some p \<Rightarrow> process_aba_proof p | None \<Rightarrow> ret ()))"

definition process_aba_phase :: "'db env \<Rightarrow> ('db, unit) core_act" where
  "process_aba_phase env = bind (tc_step env) (\<lambda>_. bind (val_step env) (\<lambda>_.
     bind (aux_step env) (\<lambda>_. bind (coin_step env) (\<lambda>_. proof_step))))"

end
