(* ===== verification/Core_Run.thy ===== *)
theory Core_Run
  imports Core_ABA
begin

text \<open>
  The main loop of \<^verbatim>\<open>consensus/src/core.rs\<close>: the change of phases and epochs, the
  test for a timeout, the dispatch of messages, and \<open>run\<close> as a function of the events it
  receives.
\<close>

section \<open>Timeouts and phases\<close>

definition check_timeout :: "'db env \<Rightarrow> ('db, unit) chain_act" where
  "check_timeout env =
     bind (on_core (modify (\<lambda>s. if tc_cache s (epoch s) \<noteq> None then s\<lparr>is_view_change := True\<rparr> else s))) (\<lambda>_.
     bind (gets id) (\<lambda>(s, c).
     if is_view_change s then ret () else
     let current_round = ch_height c in
     if \<exists>(_, other_chain) \<in> set (pubkey_to_chain s). current_round + LAMBDA_VAL < ch_height other_chain then
       bind (on_core (modify (\<lambda>s. s\<lparr>is_view_change := True\<rparr>))) (\<lambda>_. local_timeout_round env)
     else ret ()))"

text \<open>The three tests at the head of \<open>update_aba_phase\<close> that move the phase on.\<close>

definition enter_val_phase :: "'db core \<Rightarrow> 'db core" where
  "enter_val_phase s = (if phase s = INIT_PHASE \<and> tc_processed s then s\<lparr>phase := VAL_PHASE\<rparr> else s)"

definition enter_aux_phase :: "'db core \<Rightarrow> 'db core" where
  "enter_aux_phase s = (if phase s = VAL_PHASE \<and> bin_values s \<noteq> {} then s\<lparr>phase := AUX_PHASE\<rparr> else s)"

text \<open>\<open>entry(..).or_insert(0)\<close> is reached only if the tests before it hold.\<close>

definition enter_coin_phase :: "'db core \<Rightarrow> 'db core" where
  "enter_coin_phase s = (let key = (epoch s, aba_round s) in
     if phase s = AUX_PHASE \<and> aba_coin_cache s key \<noteq> None then
       (let n = entry_or (aux_value_nums s) key 0;
            s = s\<lparr>aux_value_nums := (aux_value_nums s)(key \<mapsto> n)\<rparr> in
        if n \<ge> ucast (quorum_threshold (core_committee s))
           \<and> (card (bin_values s) = 2 \<or> aba_aux_phase_cache s key \<noteq> None)
        then s\<lparr>phase := COIN_PHASE\<rparr> else s)
     else s)"

text \<open>The reset of the old leader's chain and of the core after an agreement on \<open>output_height\<close>.\<close>

definition reset_chain :: "u64 \<Rightarrow> chain \<Rightarrow> chain" where
  "reset_chain output_height c = (let h = output_height + NEXT_EPOCH_HEIGHT in
     c\<lparr>ch_height_to_digest := retain (\<lambda>k. k > output_height) (ch_height_to_digest c),
       ch_high_qc := qc_genesis, ch_epoch := ch_epoch c + 1, ch_height := h,
       ch_last_committed_height := h - 1\<rparr>)"

definition reset_epoch :: "'db core \<Rightarrow> 'db core" where
  "reset_epoch s =
     s\<lparr>is_view_change := False, tc_processed := False, val_value_broadcasted := False,
       aux_value_broadcasted := False, coin_share_broadcasted := False,
       aux_proof_broadcasted := False, core_aggregator := cleanup_aba (epoch s) (core_aggregator s),
       bin_values := {}, aba_round := 1, phase := INIT_PHASE, aba_output_val := None,
       aba_input_val := Map.empty,
       tc_cache := retain (\<lambda>k. k \<ge> epoch s) (tc_cache s),
       aba_val_phase_cache1 := retain (\<lambda>(k, _). k \<ge> epoch s) (aba_val_phase_cache1 s),
       aba_val_phase_cache2 := retain (\<lambda>(k, _). k \<ge> epoch s) (aba_val_phase_cache2 s),
       aba_aux_phase_cache := retain (\<lambda>(k, _). k \<ge> epoch s) (aba_aux_phase_cache s),
       aba_coin_cache := retain (\<lambda>(k, _). k \<ge> epoch s) (aba_coin_cache s),
       aux_value_nums := retain (\<lambda>(k, _). k \<ge> epoch s) (aux_value_nums s),
       aba_proof_cache := retain (\<lambda>(k, _). k \<ge> epoch s) (aba_proof_cache s)\<rparr>"

definition next_epoch :: "'db env \<Rightarrow> u64 \<Rightarrow> ('db, unit) chain_act" where
  "next_epoch env output_height = bind (gets id) (\<lambda>(s, c).
     case ch_height_to_digest c output_height of
       None \<Rightarrow> ret ()
     | Some d \<Rightarrow>
         bind (on_core (get_block env (name s) d None)) (\<lambda>r. case r of
           None \<Rightarrow> ret ()
         | Some b \<Rightarrow>
             bind (commit env b) (\<lambda>_.
             bind (on_core (modify (\<lambda>s. s\<lparr>epoch := epoch s + 1\<rparr>))) (\<lambda>_.
             bind (modify_chain (reset_chain output_height)) (\<lambda>_.
             bind (on_core (modify reset_epoch)) (\<lambda>_.
             bind (gets id) (\<lambda>(s, c).
             whenever (ch_name c = name s)
               (bind (generate_proposal env True) (\<lambda>b.
                broadcast_propose env (handle_vote env) b)))))))))"

definition update_aba_phase :: "'db env \<Rightarrow> ('db, unit) chain_act" where
  "update_aba_phase env = bind (gets (is_view_change \<circ> fst)) (\<lambda>vc.
     if \<not> vc then ret () else
     bind (on_core (modify (\<lambda>s. enter_coin_phase (enter_aux_phase (enter_val_phase s))))) (\<lambda>_.
     bind (gets (aba_output_val \<circ> fst)) (\<lambda>out. case out of
       Some output_height \<Rightarrow> next_epoch env output_height
     | None \<Rightarrow> on_core (process_aba_phase env))))"

section \<open>The main loop\<close>

text \<open>
  An event is a message on one of the two channels, or a write of another task to the
  database they share, which happens between two rounds of the loop.
\<close>

datatype event =
    CoreMsg consensus_message
  | SmvbaMsg consensus_message
  | StoreWritten bytes bytes

fun handle_core_message :: "'db env \<Rightarrow> consensus_message \<Rightarrow> ('db, unit) core_act" where
  "handle_core_message env (Propose b) = with_chain (b_author b) (handle_proposal env b)"
| "handle_core_message env (VoteMsg v) = with_chain (v_proposer v) (handle_vote env v)"
| "handle_core_message env (LoopBack b) = with_chain (b_author b) (process_block env (handle_vote env) b)"
| "handle_core_message env (SyncRequest d sender) = handle_sync_request env d sender"
| "handle_core_message env (SyncReply b) = with_chain (b_author b) (handle_proposal env b)"
| "handle_core_message env _ = panic UnexpectedMessage"

fun handle_smvba_message :: "'db env \<Rightarrow> consensus_message \<Rightarrow> ('db, unit) core_act" where
  "handle_smvba_message env (TimeoutMsg t) =
     bind (leader_of (t_epoch t)) (\<lambda>leader. with_chain leader (handle_timeout env t))"
| "handle_smvba_message env (TCMsg t) = handle_tc env t"
| "handle_smvba_message env (ABAVal v) = handle_aba_val env v"
| "handle_smvba_message env (ABAProof p) = handle_aba_proof env p"
| "handle_smvba_message env (ABACoinShare sh) = handle_coin_share env sh"
| "handle_smvba_message env _ = panic UnexpectedMessage"

definition after_message :: "'db env \<Rightarrow> ('db, unit) core_act" where
  "after_message env =
     bind (gets epoch) (\<lambda>ep. bind (leader_of ep) (\<lambda>leader.
     bind (ignore_err (with_chain leader (update_aba_phase env))) (\<lambda>_.
     bind (gets epoch) (\<lambda>ep. bind (leader_of ep) (\<lambda>leader.
     ignore_err (with_chain leader (check_timeout env)))))))"

definition core_round :: "'db env \<Rightarrow> ('db, unit) core_act \<Rightarrow> ('db, unit) core_act" where
  "core_round env handler =
     bind (modify (\<lambda>s. s\<lparr>total_epoch := total_epoch s + 1\<rparr>)) (\<lambda>_.
     bind (gets epoch) (\<lambda>ep. bind (leader_of ep) (\<lambda>_.
     bind (ignore_err handler) (\<lambda>_. after_message env))))"

fun core_step :: "'db env \<Rightarrow> event \<Rightarrow> ('db, unit) core_act" where
  "core_step env (CoreMsg m) = core_round env (handle_core_message env m)"
| "core_step env (SmvbaMsg m) = core_round env (handle_smvba_message env m)"
| "core_step env (StoreWritten k v) = modify (\<lambda>s. s\<lparr>store := db_put env k v (store s)\<rparr>)"

fun core_loop :: "'db env \<Rightarrow> event list \<Rightarrow> ('db, unit) core_act" where
  "core_loop env [] = ret ()"
| "core_loop env (e # es) = bind (core_step env e) (\<lambda>_. core_loop env es)"

text \<open>\<open>run\<close>: the first proposal on our own chain, then the loop.\<close>

definition first_proposal :: "'db env \<Rightarrow> ('db, unit) core_act" where
  "first_proposal env = bind (gets name) (\<lambda>me. with_chain me
     (bind (generate_proposal env False) (\<lambda>b.
      ignore_err (broadcast_propose env (handle_vote env) b))))"

definition core_run :: "'db env \<Rightarrow> event list \<Rightarrow> ('db, unit) core_act" where
  "core_run env es = bind (first_proposal env) (\<lambda>_. core_loop env es)"

end
