(* ===== verification/Example_Setup.thy ===== *)
theory Example_Setup
  imports Messages
begin

text \<open>
  A small system on which the theorems are applied: a committee of four with one stake each,
  primitives that accept everything, and blocks without payload.
\<close>

definition example_committee :: committee where
  "example_committee = committee_new (map (\<lambda>i. (PublicKey i, ucast i, 1, V4 (ucast i) 0, V4 (ucast i) 1))
     [1, 2, 3, 4]) 1"

definition example_primitives :: primitives where
  "example_primitives = \<lparr>sha512 = (\<lambda>bs. 0), sig_from_bytes = (\<lambda>_. True), pk_from_bytes = (\<lambda>_. True),
     verify_strict = (\<lambda>k m s. True), dalek_verify_batch = (\<lambda>ms ss ks. True),
     keypair_from_bytes = (\<lambda>_. True), dalek_sign = (\<lambda>sk m. 0)\<rparr>"

definition example_service :: signature_service where
  "example_service = signature_service_new (SecretKey 7) (Some (\<lambda>d. SignatureShare []))"

definition example_key_set :: public_key_set where
  "example_key_set = \<lparr>share_verify = (\<lambda>i sh d. True), combine_signatures = (\<lambda>sigs. Some [0, 0, 0, 0, 0, 0, 0, 1])\<rparr>"

definition example_block :: "256 word \<Rightarrow> u64 \<Rightarrow> (256 word \<times> 256 word) list \<Rightarrow> block" where
  "example_block author h refs = \<lparr>b_qc = qc_genesis, b_author = PublicKey author, b_height = h,
     b_epoch = 0, b_payload = [], b_references = map (\<lambda>(k, d). (PublicKey k, Digest d)) refs,
     b_signature = default_signature\<rparr>"

lemma example_authorities:
  "authorities example_committee = map (\<lambda>i. (PublicKey i, \<lparr>a_name = PublicKey i, a_id = ucast i,
     a_stake = 1, a_address = V4 (ucast i) 0, a_smvba_address = V4 (ucast i) 1\<rparr>)) [1, 2, 3, 4]"
  by (simp add: example_committee_def committee_new_def)

lemma example_members [simp]: "members example_committee = map PublicKey [1, 2, 3, 4]"
  by (simp add: members_def example_authorities)

lemma example_ok [simp]: "committee_ok example_committee" "stakes_fit example_committee"
  "total_stake example_committee = 4"
proof -
  show "committee_ok example_committee"
    unfolding example_committee_def by (rule committee_new_ok)
  show total: "total_stake example_committee = 4"
    by (simp add: total_stake_def example_authorities)
  then show "stakes_fit example_committee"
    by (simp add: stakes_fit_def)
qed

lemma example_stake: "stake example_committee (PublicKey w) = (if w \<in> {1, 2, 3, 4} then 1 else 0)"
  by (auto simp: stake_def example_authorities)

lemma example_leader: "get_leader example_committee 0 = Some (PublicKey 1)"
  by (simp add: get_leader_def committee_size_def example_authorities insort_key.simps
      less_eq_public_key_def)

end
