(* ===== verification/Examples.thy ===== *)
theory Examples
  imports Core_Run Example_Setup
begin

text \<open>
  The small system of theory \<^verbatim>\<open>Example_Setup\<close>, with a store that is a list of pairs.
\<close>

text \<open>A block is stored as its number in a list of blocks.\<close>

definition example_env :: "block list \<Rightarrow> nat \<Rightarrow> (bytes \<times> bytes) list env" where
  "example_env blocks n = \<lparr>prims = example_primitives, db_put = (\<lambda>k v d. (k, v) # d),
     db_get = (\<lambda>k d. Inr (map_of d k)), serialize_block = (\<lambda>b. []),
     deserialize_block = (\<lambda>bs. if bs = [] then Inl (BincodeError ''eof'') else Inr (blocks ! unat (hd bs))),
     mempool_get = (\<lambda>_ _. []), mempool_verify = (\<lambda>_ _. Accept), fuel = n\<rparr>"

text \<open>The state of node 1, whose store holds the blocks of \<open>example_env\<close> under the given digests.\<close>

definition example_core :: "(256 word \<times> u8) list \<Rightarrow> (bytes \<times> bytes) list core" where
  "example_core entries = core_new (PublicKey 1) example_committee default_parameters example_service
     example_key_set (map (\<lambda>(d, i). (digest_to_vec (Digest d), [i])) entries) example_committee"

text \<open>A fresh node of the system, and the facts that evaluate its first steps.\<close>

definition start :: "256 word \<Rightarrow> (bytes \<times> bytes) list core" where
  "start i = (core_new (PublicKey i) example_committee default_parameters example_service example_key_set [] example_committee)"

lemma start_fields [simp]:
  "name (start i) = PublicKey i" "core_committee (start i) = example_committee" "leader_elector (start i) = example_committee"
  "epoch (start i) = 0" "is_view_change (start i) = False" "network_filter (start i) = []" "store (start i) = []"
  "pubkey_to_chain (start i) = map (\<lambda>k. (k, chain_new k example_committee)) [PublicKey 1, PublicKey 2, PublicKey 3, PublicKey 4]"
  "mempool_channel (start i) = []" "core_signature_service (start i) = example_service" "core_parameters (start i) = default_parameters"
  "tc_cache (start i) = Map.empty" "total_epoch (start i) = 0"
  by (simp_all add: start_def core_new_def)

lemma example_env_fields [simp]:
  "prims (example_env bs n) = example_primitives" "fuel (example_env bs n) = n"
  "mempool_get (example_env bs n) ms mx = []" "mempool_verify (example_env bs n) ms b = Accept"
  "db_put (example_env bs n) k v d = (k, v) # d" "serialize_block (example_env bs n) b = []"
  by (simp_all add: example_env_def)

lemma example_primitives_run [simp]:
  "finalize32 example_primitives x = Digest 0"
  "signature_new example_primitives dg (SecretKey 7) = Some default_signature"
  "secret example_service = SecretKey 7"
  "signature_verify example_primitives sg dg k = Inr ()"
  by (simp_all add: example_primitives_def finalize32_def example_service_def signature_service_new_def
      default_signature_def Let_def signature_verify_def)

lemma example_verify [simp]:
  "0 < stake example_committee (v_author v) \<Longrightarrow> vote_verify example_primitives example_committee v = Inr ()"
  "0 < stake example_committee (b_author b) \<Longrightarrow> b_qc b = qc_genesis \<Longrightarrow>
     block_verify example_primitives example_committee b = Inr ()"
  by (simp_all add: vote_verify_def block_verify_def from_crypto_def qc_eq_def)

lemma chain_new_fields [simp]:
  "ch_height (chain_new k c) = 1" "ch_name (chain_new k c) = k" "ch_high_qc (chain_new k c) = qc_genesis"
  "ch_epoch (chain_new k c) = 0" "ch_last_voted_height (chain_new k c) = 0" "ch_aggregator (chain_new k c) = aggregator_new c"
  "ch_last_committed_height (chain_new k c) = 0" "ch_height_to_digest (chain_new k c) = Map.empty"
  by (simp_all add: chain_new_def)

lemma qc_genesis_fields [simp]: "qc_eq qc_genesis qc_genesis" "qc_hash qc_genesis = Digest 0" "qc_height qc_genesis = 0"
  by (simp_all add: qc_eq_def qc_genesis_def default_digest_def)

lemma example_block_genesis [simp]: "b_qc (example_block a h r) = qc_genesis" "b_epoch (example_block a h r) = 0"
  by (simp_all add: example_block_def)

end
