(* ===== verification/Voting.thy ===== *)
theory Voting
  imports Examples
begin

text \<open>
  Voting over whole runs. The votes a node has sent for the blocks of one proposer have
  strictly increasing heights, whatever messages arrive and in whatever order, and also
  through errors, timeouts and changes of epoch. The invariant ties the votes on the network
  channel to \<open>last_voted_height\<close> of the proposer's chain, where the chain a handler works on
  counts instead of its stale copy in \<open>pubkey_to_chain\<close>.
\<close>

section \<open>The votes a node has sent\<close>

definition votes_of :: "(consensus_message \<times> socket_addr list) list \<Rightarrow> vote list" where
  "votes_of out = List.map_filter (\<lambda>(m, _). case m of VoteMsg v \<Rightarrow> Some v | _ \<Rightarrow> None) out"

definition votes_sent :: "'db core \<Rightarrow> vote list" where
  "votes_sent s = votes_of (network_filter s)"

definition is_vote :: "consensus_message \<Rightarrow> bool" where
  "is_vote m \<longleftrightarrow> (\<exists>v. m = VoteMsg v)"

lemma votes_of_simps [simp]:
  "votes_of [] = []" "votes_of (xs @ ys) = votes_of xs @ votes_of ys"
  "votes_of [(VoteMsg v, a)] = [v]" "\<not> is_vote m \<Longrightarrow> votes_of [(m, a)] = []"
  by (auto simp: votes_of_def map_filter_def is_vote_def split: consensus_message.splits)

lemma is_vote_simps [simp]:
  "\<not> is_vote (Propose b)" "\<not> is_vote (SyncReply b)" "\<not> is_vote (SyncRequest d k)"
  "is_vote (VoteMsg v)"
  by (auto simp: is_vote_def)

section \<open>The invariant\<close>

text \<open>Name and last voted height of every chain on file.\<close>

definition voted_view :: "'db core \<Rightarrow> public_key \<rightharpoonup> public_key \<times> u64" where
  "voted_view s = (\<lambda>k. map_option (\<lambda>c. (ch_name c, ch_last_voted_height c)) (map_of (pubkey_to_chain s) k))"

definition votes_ok :: "vote list \<Rightarrow> (public_key \<rightharpoonup> public_key \<times> u64) \<Rightarrow> bool" where
  "votes_ok vs view \<longleftrightarrow> (\<forall>k x. view k = Some x \<longrightarrow> fst x = k) \<and>
     (\<forall>p. sorted_wrt (<) (map v_height (filter (\<lambda>v. v_proposer v = p) vs))) \<and>
     (\<forall>v \<in> set vs. \<exists>x. view (v_proposer v) = Some x \<and> v_height v \<le> snd x)"

definition core_votes_ok :: "public_key \<Rightarrow> 'db core \<Rightarrow> bool" where
  "core_votes_ok me s \<longleftrightarrow> name s = me \<and> votes_ok (votes_of (network_filter s)) (voted_view s)"

definition chain_votes_ok :: "public_key \<Rightarrow> public_key \<Rightarrow> 'db core \<times> chain \<Rightarrow> bool" where
  "chain_votes_ok me k = (\<lambda>(s, c). name s = me \<and> ch_name c = k \<and>
     votes_ok (votes_of (network_filter s)) ((voted_view s)(k \<mapsto> (k, ch_last_voted_height c))))"

lemma voted_view_set_chain [simp]:
  "voted_view (set_chain k c s) = (voted_view s)(k \<mapsto> (ch_name c, ch_last_voted_height c))"
  by (auto simp: voted_view_def set_chain_def)

lemma voted_view_cong: "pubkey_to_chain s = pubkey_to_chain s' \<Longrightarrow> voted_view s = voted_view s'"
  by (simp add: voted_view_def)

lemma votes_okD:
  assumes "votes_ok vs view"
  shows "view k = Some x \<Longrightarrow> fst x = k"
    and "sorted_wrt (<) (map v_height (filter (\<lambda>v. v_proposer v = p) vs))"
    and "v \<in> set vs \<Longrightarrow> \<exists>l. view (v_proposer v) = Some (v_proposer v, l) \<and> v_height v \<le> l"
proof -
  show n: "view k = Some x \<Longrightarrow> fst x = k" for k x
    using assms unfolding votes_ok_def by blast
  show "sorted_wrt (<) (map v_height (filter (\<lambda>v. v_proposer v = p) vs))"
    using assms by (simp add: votes_ok_def)
  assume "v \<in> set vs"
  then obtain y where "view (v_proposer v) = Some y" "v_height v \<le> snd y"
    using assms unfolding votes_ok_def by blast
  then show "\<exists>l. view (v_proposer v) = Some (v_proposer v, l) \<and> v_height v \<le> l"
    using n [of "v_proposer v" y] by (cases y) auto
qed

lemma votes_okI:
  assumes "\<And>k x. view k = Some x \<Longrightarrow> fst x = k"
    and "\<And>p. sorted_wrt (<) (map v_height (filter (\<lambda>v. v_proposer v = p) vs))"
    and "\<And>v. v \<in> set vs \<Longrightarrow> \<exists>l. view (v_proposer v) = Some (v_proposer v, l) \<and> v_height v \<le> l"
  shows "votes_ok vs view"
  unfolding votes_ok_def using assms by (metis snd_conv)

text \<open>A higher last voted height keeps the invariant; a new vote needs one strictly above it.\<close>

lemma votes_ok_raise:
  assumes ok: "votes_ok vs (view(k \<mapsto> (k, l)))" and le: "l \<le> l'"
  shows "votes_ok vs (view(k \<mapsto> (k, l')))"
proof (rule votes_okI)
  fix k' x assume "(view(k \<mapsto> (k, l'))) k' = Some x"
  then show "fst x = k'"
    using votes_okD(1) [OF ok, of k'] by (cases "k' = k") auto
next
  fix v assume v: "v \<in> set vs"
  show "\<exists>m. (view(k \<mapsto> (k, l'))) (v_proposer v) = Some (v_proposer v, m) \<and> v_height v \<le> m"
    using votes_okD(3) [OF ok v] le by (cases "v_proposer v = k") (auto intro: order_trans)
qed (rule votes_okD(2) [OF ok])

lemma votes_ok_new:
  assumes ok: "votes_ok vs (view(k \<mapsto> (k, l)))" and lt: "l < v_height v" and k: "v_proposer v = k"
  shows "votes_ok (vs @ [v]) (view(k \<mapsto> (k, v_height v)))"
proof (rule votes_okI)
  fix k' x assume "(view(k \<mapsto> (k, v_height v))) k' = Some x"
  then show "fst x = k'"
    using votes_okD(1) [OF ok, of k'] by (cases "k' = k") auto
next
  fix p
  have "v_height w < v_height v" if "w \<in> set vs" "v_proposer w = k" for w
    using votes_okD(3) [OF ok that(1)] that(2) lt by auto
  then show "sorted_wrt (<) (map v_height (filter (\<lambda>v. v_proposer v = p) (vs @ [v])))"
    using votes_okD(2) [OF ok, of p] k by (auto simp: sorted_wrt_append)
next
  fix w assume "w \<in> set (vs @ [v])"
  then consider "w \<in> set vs" | "w = v" by auto
  then show "\<exists>m. (view(k \<mapsto> (k, v_height v))) (v_proposer w) = Some (v_proposer w, m) \<and> v_height w \<le> m"
  proof cases
    case 1
    then show ?thesis
      using votes_okD(3) [OF ok 1] lt by (cases "v_proposer w = k") auto
  qed (use k in simp)
qed

section \<open>Code that leaves votes and voted heights alone\<close>

lemma pres_case_payload_status [pres_rules]:
  "pres I a \<Longrightarrow> pres I r \<Longrightarrow> pres I w \<Longrightarrow> pres I (case st of Accept \<Rightarrow> a | Reject \<Rightarrow> r | Wait \<Rightarrow> w)"
  by (cases st) auto

text \<open>
  A core method is \<open>quiet\<close> if it leaves alone the name of the node, the votes it has sent
  and the voted heights on file.
\<close>

definition quiet :: "('db, 'a) core_act \<Rightarrow> bool" where
  "quiet m \<longleftrightarrow> (\<forall>me vs view. pres (\<lambda>s. name s = me \<and> votes_of (network_filter s) = vs \<and> voted_view s = view) m)"

lemma quiet_core: "quiet m \<Longrightarrow> pres (core_votes_ok me) m"
  unfolding quiet_def pres_def core_votes_ok_def by auto

lemma quiet_chain: "quiet m \<Longrightarrow> pres (chain_votes_ok me k) (on_core m)"
  by (rule pres_on_core) (simp add: quiet_def pres_def chain_votes_ok_def)

named_theorems quiet_rules "methods of the core that leave the votes alone"

lemma quietI:
  "(\<And>me vs view. pres (\<lambda>s. name s = me \<and> votes_of (network_filter s) = vs \<and> voted_view s = view) m) \<Longrightarrow> quiet m"
  by (simp add: quiet_def)

lemma quiet_modify:
  "(\<And>s. name (f s) = name s \<and> votes_of (network_filter (f s)) = votes_of (network_filter s) \<and>
     pubkey_to_chain (f s) = pubkey_to_chain s) \<Longrightarrow> quiet (modify f)"
  by (rule quietI, rule pres_modify) (metis voted_view_cong)

lemma quiet_basic [quiet_rules]:
  "quiet (ret x)" "quiet (throw e)" "quiet (panic p)" "quiet diverge" "quiet (gets f)"
  "quiet (lift r)" "quiet (unwrap y)" "quiet (leader_of ep)"
  "quiet (block_new cr svc q author h ep' payload refs)" "quiet (vote_new cr svc b author1)"
  "quiet (timeout_new cr svc q1 ep1 author2)" "quiet (aba_val_new cr svc a ea ra va pha)"
  "quiet (randomness_share_new cr svc ep3 r3 author3)" "quiet (randomness_share_verify cr c pks sh)"
  by (simp_all add: quiet_def pres_rules)

lemma quiet_bind [quiet_rules]: "quiet m \<Longrightarrow> (\<And>x. quiet (f x)) \<Longrightarrow> quiet (bind m f)"
  by (simp add: quiet_def pres_bind)

lemma quiet_split [quiet_rules]:
  "(b \<Longrightarrow> quiet m) \<Longrightarrow> (\<not> b \<Longrightarrow> quiet n) \<Longrightarrow> quiet (if b then m else n)"
  "(b \<Longrightarrow> quiet m') \<Longrightarrow> quiet (whenever b m')"
  "(x = None \<Longrightarrow> quiet n1) \<Longrightarrow> (\<And>y. x = Some y \<Longrightarrow> quiet (f y)) \<Longrightarrow>
     quiet (case x of None \<Rightarrow> n1 | Some y \<Rightarrow> f y)"
  "(\<And>a b. z = (a, b) \<Longrightarrow> quiet (g a b)) \<Longrightarrow> quiet (case z of (a, b) \<Rightarrow> g a b)"
  "quiet m1 \<Longrightarrow> quiet m2 \<Longrightarrow> quiet m3 \<Longrightarrow>
     quiet (case st of Accept \<Rightarrow> m1 | Reject \<Rightarrow> m2 | Wait \<Rightarrow> m3)"
  by (auto simp: whenever_def quiet_basic(1) split: option.split prod.split payload_status.split)

lemma quiet_aggregate [quiet_rules]: "quiet (core_aggregate f)"
  by (auto simp: quiet_def pres_def core_aggregate_def lift_def act_defs voted_view_def
    split: prod.split sum.split)

lemma quiet_transmit [quiet_rules]:
  "\<not> is_vote msg \<Longrightarrow> quiet (transmit_hotstuff msg to)" "quiet (transmit_smvba msg' to')"
  unfolding transmit_hotstuff_def transmit_smvba_def
  by (intro quiet_rules quiet_modify; simp)+

lemma quiet_driver [quiet_rules]:
  "quiet (driver_get env mx)" "quiet (driver_verify env b)" "quiet (driver_cleanup b0)"
  unfolding driver_get_def driver_verify_def driver_cleanup_def
  by (intro quiet_rules quiet_modify; simp)+

lemma quiet_get_block [quiet_rules]: "quiet (get_block env author d blk)"
  unfolding get_block_def by (intro quiet_rules quiet_modify; simp)

lemma quiet_ancestors [quiet_rules]: "quiet (get_ancestors env b)" "quiet (process_block_prepare env b)"
  unfolding get_ancestors_def get_parent_block_def process_block_prepare_def
  by (intro quiet_rules)+

lemma quiet_store_block [quiet_rules]: "quiet (store_block env b)"
  unfolding store_block_def by (rule quiet_modify) simp

lemma quiet_deliver [quiet_rules]: "quiet (deliver bs)"
  by (induction bs) (auto intro!: quiet_rules quiet_modify)

section \<open>Committing\<close>

text \<open>
  A commit moves last committed heights only, in the chain at hand and in the chains on file
  that it inserts back.
\<close>

definition commit_frame :: "public_key \<Rightarrow> vote list \<Rightarrow> (public_key \<rightharpoonup> public_key \<times> u64) \<Rightarrow>
    public_key \<times> u64 \<Rightarrow> 'db core \<times> chain \<Rightarrow> bool" where
  "commit_frame me vs view x = (\<lambda>(s, c). name s = me \<and> votes_of (network_filter s) = vs \<and>
     voted_view s = view \<and> (ch_name c, ch_last_voted_height c) = x)"

definition commit_quiet :: "('db, 'a) chain_act \<Rightarrow> bool" where
  "commit_quiet m \<longleftrightarrow> (\<forall>me vs view x. pres (commit_frame me vs view x) m)"

lemma commit_quiet_chain: "commit_quiet m \<Longrightarrow> pres (chain_votes_ok me k) m"
proof (unfold pres_def, intro allI impI)
  fix sc :: "'a core \<times> chain"
  assume m: "commit_quiet m" and ok: "chain_votes_ok me k sc"
  obtain s c where sc: "sc = (s, c)" by (cases sc)
  obtain s' c' where m_sc: "snd (m (s, c)) = (s', c')" by (cases "snd (m (s, c))")
  have "commit_frame (name s) (votes_of (network_filter s)) (voted_view s)
      (ch_name c, ch_last_voted_height c) (s', c')"
    using m presD [of "commit_frame (name s) (votes_of (network_filter s)) (voted_view s)
      (ch_name c, ch_last_voted_height c)" m "(s, c)"]
    by (simp add: commit_quiet_def m_sc) (simp add: commit_frame_def)
  then show "chain_votes_ok me k (snd (m sc))"
    using ok by (simp add: sc m_sc commit_frame_def chain_votes_ok_def)
qed

lemma commit_quiet_on_core [quiet_rules]: "quiet m \<Longrightarrow> commit_quiet (on_core m)"
  unfolding commit_quiet_def quiet_def commit_frame_def
  by (intro allI pres_on_core) (auto simp: pres_def)

lemma commit_quiet_basic [quiet_rules]:
  "commit_quiet (ret x)" "commit_quiet (throw e)" "commit_quiet (panic p)" "commit_quiet diverge"
  "commit_quiet (gets f)" "commit_quiet (lift r)" "commit_quiet (unwrap y)"
  by (simp_all add: commit_quiet_def pres_rules)

lemma commit_quiet_bind [quiet_rules]:
  "commit_quiet m \<Longrightarrow> (\<And>x. commit_quiet (f x)) \<Longrightarrow> commit_quiet (bind m f)"
  by (simp add: commit_quiet_def pres_bind)

lemma commit_quiet_split [quiet_rules]:
  "(b \<Longrightarrow> commit_quiet m) \<Longrightarrow> (\<not> b \<Longrightarrow> commit_quiet n) \<Longrightarrow> commit_quiet (if b then m else n)"
  "(x = None \<Longrightarrow> commit_quiet n1) \<Longrightarrow> (\<And>y. x = Some y \<Longrightarrow> commit_quiet (f y)) \<Longrightarrow>
     commit_quiet (case x of None \<Rightarrow> n1 | Some y \<Rightarrow> f y)"
  "(\<And>a b. z = (a, b) \<Longrightarrow> commit_quiet (g a b)) \<Longrightarrow> commit_quiet (case z of (a, b) \<Rightarrow> g a b)"
  by (auto split: option.split prod.split)

lemma commit_quiet_modify_chain:
  "(\<And>c. ch_name (f c) = ch_name c \<and> ch_last_voted_height (f c) = ch_last_voted_height c) \<Longrightarrow>
     commit_quiet (modify_chain f)"
  unfolding commit_quiet_def commit_frame_def by (intro allI pres_modify_chain) auto

text \<open>The chain a reference is committed on comes from the file and goes back to its place.\<close>

lemma quiet_commit_on_file:
  assumes m: "commit_quiet m" and g: "\<And>tc. quiet (g tc)"
  shows "quiet (bind (gets pubkey_to_chain) (\<lambda>chains. bind (unwrap (map_of chains k)) (\<lambda>target.
    bind (run_with target m) (\<lambda>((done, tc), target).
      if \<not> done then ret (False, tc) else
      bind (modify (set_chain k target)) (\<lambda>_. g tc)))))"
proof (rule quietI, unfold pres_def, intro allI impI)
  fix me vs view and s :: "'a core"
  let ?P = "\<lambda>s :: 'a core. name s = me \<and> votes_of (network_filter s) = vs \<and> voted_view s = view"
  let ?rest = "\<lambda>((done, tc), target). if \<not> done then ret (False, tc) else
      bind (modify (set_chain k target)) (\<lambda>_. g tc)"
  assume P: "?P s"
  show "?P (snd (bind (gets pubkey_to_chain) (\<lambda>chains. bind (unwrap (map_of chains k)) (\<lambda>target.
      bind (run_with target m) ?rest)) s))"
  proof (cases "map_of (pubkey_to_chain s) k")
    case None
    then show ?thesis using P by (simp add: act_defs)
  next
    case (Some target)
    let ?x = "(ch_name target, ch_last_voted_height target)"
    obtain r s' c' where run: "m (s, target) = (r, (s', c'))"
      by (cases "m (s, target)") auto
    have "commit_frame me vs view ?x (s, target)"
      using P by (simp add: commit_frame_def)
    then have fr: "commit_frame me vs view ?x (s', c')"
      using m run presD [of "commit_frame me vs view ?x" m "(s, target)"]
      by (simp add: commit_quiet_def)
    have vk: "view k = Some ?x"
      using P Some by (auto simp: voted_view_def)
    have "?P (set_chain k c' s')"
      using fr vk by (auto simp: commit_frame_def set_chain_def voted_view_def fun_eq_iff)
    moreover have "?P s'"
      using fr by (simp add: commit_frame_def)
    moreover have "?P (snd (g tc s2))" if "?P s2" for tc s2
      using g [of tc] that unfolding quiet_def pres_def by blast
    ultimately show ?thesis
      using Some run
      by (auto simp: act_defs run_with_def split: outcome.split)
  qed
qed

lemma quiet_commit_refs:
  assumes "\<And>b tc. commit_quiet (rec b tc)"
  shows "quiet (commit_refs env rec refs tc)"
proof (induction refs arbitrary: tc)
  case Nil
  then show ?case by (simp add: quiet_rules)
next
  case (Cons r refs)
  show ?case
    unfolding commit_refs.simps
    by (intro quiet_rules quiet_commit_on_file assms Cons.IH)
qed

lemma commit_quiet_prev_block [quiet_rules]: "commit_quiet (commit_prev_block env n b tc)"
proof (induction n arbitrary: b tc)
  case 0
  then show ?case by (simp add: quiet_rules)
next
  case (Suc n)
  show ?case
    unfolding commit_prev_block.simps
    by (intro quiet_rules quiet_commit_refs commit_quiet_modify_chain Suc.IH) simp
qed

lemma commit_quiet_commit [quiet_rules]: "commit_quiet (commit env b)"
  unfolding commit_def by (intro quiet_rules)

section \<open>Handlers on a chain\<close>

named_theorems vote_rules "handlers that keep the voting invariant"

lemmas commit_votes [vote_rules] = commit_quiet_commit [THEN commit_quiet_chain]

lemma on_core_votes [vote_rules]: "quiet m \<Longrightarrow> pres (chain_votes_ok me k) (on_core m)"
  by (rule quiet_chain)

lemma modify_chain_votes:
  "(\<And>c. ch_name (f c) = ch_name c \<and> ch_last_voted_height (f c) = ch_last_voted_height c) \<Longrightarrow>
     pres (chain_votes_ok me k) (modify_chain f)"
  by (rule pres_modify_chain) (simp add: chain_votes_ok_def)

lemma chain_aggregate_votes [vote_rules]: "pres (chain_votes_ok me k) (chain_aggregate f)"
  by (auto simp: pres_def chain_aggregate_def lift_def act_defs chain_votes_ok_def
    split: prod.split sum.split)

lemma increase_last_voted_votes [vote_rules]: "pres (chain_votes_ok me k) (increase_last_voted_round h)"
  unfolding increase_last_voted_round_def
  by (rule pres_modify_chain) (auto simp: chain_votes_ok_def elim: votes_ok_raise)

lemma process_qc_votes [vote_rules]: "pres (chain_votes_ok me k) (process_qc q)"
  unfolding process_qc_def advance_height_def update_high_qc_def
  by (intro pres_rules vote_rules quiet_rules modify_chain_votes; simp add: Let_def)

lemma handle_timeout_votes [vote_rules]: "pres (chain_votes_ok me k) (handle_timeout env t)"
  unfolding handle_timeout_def
  by (intro pres_rules vote_rules quiet_rules quiet_modify; simp)

lemma local_timeout_votes [vote_rules]: "pres (chain_votes_ok me k) (local_timeout_round env)"
  unfolding local_timeout_round_def by (intro pres_rules vote_rules quiet_rules)

lemma generate_proposal_votes [vote_rules]: "pres (chain_votes_ok me k) (generate_proposal env tag)"
  unfolding generate_proposal_def Let_def by (intro pres_rules vote_rules quiet_rules)

text \<open>What \<open>make_vote\<close> does: nothing but raise the last voted height, and then to the height of the vote.\<close>

lemma make_vote_cases:
  assumes "make_vote env b (s, c) = (r, (s', c'))"
  shows "s' = s \<and> (c' = c \<or> ch_last_voted_height c < b_height b \<and>
           c' = c\<lparr>ch_last_voted_height := b_height b\<rparr>) \<and>
    (\<forall>v. r = Ok (Some v) \<longrightarrow> c' = c\<lparr>ch_last_voted_height := b_height b\<rparr> \<and>
       ch_last_voted_height c < b_height b \<and> v_height v = b_height b \<and>
       v_proposer v = b_author b \<and> v_author v = name s \<and> v_epoch v = b_epoch b \<and>
       v_hash v = block_digest (prims env) b)"
  using assms
  by (auto simp: make_vote_def act_defs plumbing_defs increase_last_voted_round_def vote_new_def
      request_signature_def Let_def max_def
      split: if_splits option.splits)

text \<open>
  The one place where a vote goes out. The block must be on the chain at hand, or be our own,
  in which case its vote is not sent but handled.
\<close>

lemma process_block_vote_votes:
  assumes hv: "\<And>v. pres (chain_votes_ok me k) (hv v)" and own: "b_author b = k \<or> b_author b = me"
  shows "pres (chain_votes_ok me k) (process_block_vote env hv b)"
proof (unfold pres_def, intro allI impI)
  fix sc :: "'a core \<times> chain"
  assume ok: "chain_votes_ok me k sc"
  obtain s c where sc: "sc = (s, c)" by (cases sc)
  obtain r s' c' where mv: "make_vote env b (s, c) = (r, (s', c'))"
    by (cases "make_vote env b (s, c)") auto
  note cs = make_vote_cases [OF mv]
  have s': "s' = s" using cs by simp
  have ok': "chain_votes_ok me k (s, c')"
    using ok cs by (auto simp: sc chain_votes_ok_def elim: votes_ok_raise)
  have send: "chain_votes_ok me k (snd (on_core (transmit_hotstuff (VoteMsg v) (Some (v_proposer v))) (s, c')))"
    if v: "r = Ok (Some v)" "v_proposer v \<noteq> name s" for v
  proof -
    have facts: "ch_last_voted_height c < v_height v" "v_proposer v = b_author b"
      "c' = c\<lparr>ch_last_voted_height := v_height v\<rparr>"
      using cs v(1) by auto
    have k: "v_proposer v = k"
      using own facts(2) v(2) ok by (auto simp: sc chain_votes_ok_def)
    have "votes_ok (votes_of (network_filter s) @ [v]) ((voted_view s)(k \<mapsto> (k, v_height v)))"
      using ok facts k by (auto simp: sc chain_votes_ok_def intro: votes_ok_new)
    moreover have "voted_view (s\<lparr>network_filter := xs\<rparr>) = voted_view s" for xs
      by (simp add: voted_view_def)
    ultimately show ?thesis
      using ok' facts
      by (auto simp: chain_votes_ok_def on_core_def transmit_hotstuff_def act_defs split: sum.split)
  qed
  show "chain_votes_ok me k (snd (process_block_vote env hv b sc))"
    using ok ok' send presD [OF hv ok']
    by (auto simp: process_block_vote_def bind_def gets_def ret_def sc mv s'
        split: outcome.split option.split)
qed

lemma process_block_votes:
  assumes "\<And>v. pres (chain_votes_ok me k) (hv v)" and "b_author b = k \<or> b_author b = me"
  shows "pres (chain_votes_ok me k) (process_block env hv b)"
  unfolding process_block_def process_block_commit_def
  by (intro pres_rules vote_rules quiet_rules process_block_vote_votes assms)

lemma generate_proposal_author:
  assumes "generate_proposal env tag (s, c) = (Ok b, s1)"
  shows "b_author b = name s"
  using assms
  by (auto simp: generate_proposal_def act_defs plumbing_defs driver_get_def block_new_def
      request_signature_def Let_def split: option.splits)

text \<open>The blocks a node proposes carry its own name.\<close>

lemma propose_then_votes:
  assumes f: "\<And>b. b_author b = me \<Longrightarrow> pres (chain_votes_ok me k) (f b)"
  shows "pres (chain_votes_ok me k) (bind (generate_proposal env tag) f)"
proof (unfold pres_def, intro allI impI)
  fix sc :: "'a core \<times> chain"
  assume ok: "chain_votes_ok me k sc"
  obtain s c where sc: "sc = (s, c)" by (cases sc)
  obtain r sc' where gp: "generate_proposal env tag (s, c) = (r, sc')"
    by (cases "generate_proposal env tag (s, c)") auto
  have ok': "chain_votes_ok me k sc'"
    using presD [OF generate_proposal_votes ok, of env tag] by (simp add: sc gp)
  have "b_author b = me" if "r = Ok b" for b
    using generate_proposal_author [of env tag s c b sc'] gp that ok
    by (simp add: sc chain_votes_ok_def)
  then show "chain_votes_ok me k (snd (bind (generate_proposal env tag) f sc))"
    using ok' presD [OF f ok'] by (auto simp: bind_def sc gp split: outcome.split)
qed

lemma broadcast_propose_votes:
  assumes "\<And>v. pres (chain_votes_ok me k) (hv v)" and "b_author b = me"
  shows "pres (chain_votes_ok me k) (broadcast_propose env hv b)"
  unfolding broadcast_propose_def
  by (intro pres_rules vote_rules quiet_rules process_block_votes) (use assms in auto)

lemmas propose_votes = propose_then_votes [OF broadcast_propose_votes]

lemma handle_vote_rec_votes: "pres (chain_votes_ok me k) (handle_vote_rec env n v)"
proof (induction n arbitrary: v)
  case 0
  then show ?case by (simp add: pres_rules)
next
  case (Suc n)
  show ?case
    unfolding handle_vote_rec.simps
    by (intro pres_rules vote_rules propose_votes Suc.IH)
qed

lemma handle_vote_votes [vote_rules]: "pres (chain_votes_ok me k) (handle_vote env v)"
  unfolding handle_vote_def by (rule handle_vote_rec_votes)

lemma handle_proposal_votes: "pres (chain_votes_ok me k) (handle_proposal env b)"
proof (unfold pres_def, intro allI impI)
  fix sc :: "'a core \<times> chain"
  assume ok: "chain_votes_ok me k sc"
  obtain s c where sc: "sc = (s, c)" by (cases sc)
  show "chain_votes_ok me k (snd (handle_proposal env b sc))"
  proof (cases "b_author b = ch_name c")
    case True
    then have "b_author b = k"
      using ok by (simp add: sc chain_votes_ok_def)
    then have "pres (chain_votes_ok me k) (handle_proposal env b)"
      unfolding handle_proposal_def
      by (intro pres_rules vote_rules quiet_rules process_block_votes) auto
    then show ?thesis using ok by (rule presD)
  next
    case False
    then show ?thesis
      using ok by (simp add: sc handle_proposal_def act_defs ensure_def)
  qed
qed

section \<open>The agreement and the main loop\<close>

lemma quiet_handle_aba_val [quiet_rules]: "quiet (handle_aba_val env v)"
  unfolding handle_aba_val_def handle_val_phase_def handle_aux_phase_def
  by (intro quiet_rules quiet_modify; simp)

lemma quiet_handle_coin_share [quiet_rules]: "quiet (handle_coin_share env sh)"
proof -
  have "quiet (\<lambda>s. case add_aba_random sh (pk_set s) (core_aggregator s) of (r, ag) \<Rightarrow>
       (r, s\<lparr>core_aggregator := ag\<rparr>))"
    by (auto simp: quiet_def pres_def voted_view_def split: prod.split)
  then show ?thesis
    unfolding handle_coin_share_def by (intro quiet_rules quiet_modify; simp)
qed

lemma quiet_handlers [quiet_rules]:
  "quiet (handle_aba_proof env p)" "quiet (handle_tc env t)" "quiet (handle_sync_request env d k)"
  unfolding handle_aba_proof_def handle_tc_def handle_sync_request_def
  by (intro quiet_rules quiet_modify; simp)+

lemma quiet_process_tc [quiet_rules]: "quiet (process_tc env t)"
  unfolding process_tc_def by (intro quiet_rules quiet_modify; simp)

lemma quiet_advance_aba_round [quiet_rules]: "quiet (advance_aba_round env v)"
  unfolding advance_aba_round_def
  by (intro quiet_rules quiet_modify; simp add: clear_round_def Let_def)

lemma quiet_steps [quiet_rules]:
  "quiet (process_val_phase_1 env p)" "quiet (process_val_phase_2 env p)"
  "quiet (process_aux_phase env ep r)" "quiet (process_coin_share env ep r coin)"
  "quiet (process_aba_proof p)"
  unfolding process_val_phase_1_def process_val_phase_2_def process_aux_phase_def
    process_coin_share_def process_aba_proof_def broadcast_aux_proof_def Let_def
  by (intro quiet_rules quiet_modify; simp)+

lemma quiet_process_aba_phase [quiet_rules]: "quiet (process_aba_phase env)"
  unfolding process_aba_phase_def tc_step_def val_step_def aux_step_def coin_step_def proof_step_def
  by (intro quiet_rules quiet_modify; simp)

lemma next_epoch_votes [vote_rules]: "pres (chain_votes_ok me k) (next_epoch env h)"
  unfolding next_epoch_def
  by (intro pres_rules vote_rules quiet_rules quiet_modify modify_chain_votes propose_votes;
      simp add: reset_epoch_def reset_chain_def Let_def)

lemma update_aba_phase_votes [vote_rules]: "pres (chain_votes_ok me k) (update_aba_phase env)"
  unfolding update_aba_phase_def
  by (intro pres_rules vote_rules quiet_rules quiet_modify;
      simp add: enter_val_phase_def enter_aux_phase_def enter_coin_phase_def Let_def)

lemma check_timeout_votes [vote_rules]: "pres (chain_votes_ok me k) (check_timeout env)"
  unfolding check_timeout_def Let_def
  by (intro pres_rules vote_rules quiet_rules quiet_modify; simp)

lemma with_chain_votes:
  assumes "pres (chain_votes_ok me k) m"
  shows "pres (core_votes_ok me) (with_chain k m)"
proof (unfold pres_def, intro allI impI)
  fix s :: "'a core"
  assume ok: "core_votes_ok me s"
  show "core_votes_ok me (snd (with_chain k m s))"
  proof (cases "map_of (pubkey_to_chain s) k")
    case None
    then show ?thesis using ok by (simp add: with_chain_def)
  next
    case (Some c)
    have view: "voted_view s k = Some (ch_name c, ch_last_voted_height c)"
      using Some by (simp add: voted_view_def)
    then have k: "ch_name c = k"
      using ok votes_okD(1) by (fastforce simp: core_votes_ok_def)
    obtain r s' c' where m: "m (s, c) = (r, (s', c'))"
      by (cases "m (s, c)") auto
    have "chain_votes_ok me k (s, c)"
      using ok view k by (simp add: core_votes_ok_def chain_votes_ok_def fun_upd_idem)
    then have "chain_votes_ok me k (s', c')"
      using presD [OF assms, of "(s, c)"] by (simp add: m)
    then show ?thesis
      using Some m by (simp add: with_chain_def chain_votes_ok_def core_votes_ok_def)
        (simp add: set_chain_def)
  qed
qed

lemma handle_core_message_votes: "pres (core_votes_ok me) (handle_core_message env m)"
  by (cases m) (auto intro!: pres_rules with_chain_votes handle_proposal_votes handle_vote_votes
      process_block_votes intro: quiet_core [OF quiet_handlers(3)])

lemma handle_smvba_message_votes: "pres (core_votes_ok me) (handle_smvba_message env m)"
  by (cases m) (auto intro!: pres_rules with_chain_votes handle_timeout_votes
      intro: quiet_core quiet_handlers quiet_handle_aba_val quiet_handle_coin_share)

lemma core_step_votes: "pres (core_votes_ok me) (core_step env e)"
proof -
  have round: "pres (core_votes_ok me) (core_round env h)" if "pres (core_votes_ok me) h" for h
    unfolding core_round_def after_message_def
    by (intro pres_rules that with_chain_votes vote_rules quiet_core quiet_modify; simp)
  show ?thesis
    by (cases e) (auto intro!: round handle_core_message_votes handle_smvba_message_votes
        intro: quiet_core [OF quiet_modify])
qed

lemma core_loop_votes: "pres (core_votes_ok me) (core_loop env es)"
  by (induction es) (auto intro!: pres_rules core_step_votes)

lemma core_run_votes: "pres (core_votes_ok me) (core_run env es)"
  unfolding core_run_def first_proposal_def
  by (intro pres_rules core_loop_votes with_chain_votes propose_then_votes broadcast_propose_votes
      handle_vote_votes)

lemma core_new_votes: "core_votes_ok nm (core_new nm c params svc pks st leaders)"
proof -
  have "ch_name ch = k" if "map_of (map (\<lambda>pk. (pk, chain_new pk c)) ks) k = Some ch" for ks k ch
    using that by (induction ks) (auto simp: chain_new_def split: if_splits)
  then show ?thesis
    by (auto simp: core_votes_ok_def votes_ok_def core_new_def voted_view_def)
qed

text \<open>At most one of the votes is for a given proposer and height.\<close>

lemma sorted_heights_unique:
  assumes "sorted_wrt (<) (map h xs)" and "x \<in> set xs" "y \<in> set xs" and "h x = (h y :: 'a::linorder)"
  shows "x = y"
  using assms by (auto simp: strict_sorted_iff distinct_map dest: inj_onD)

lemma voted_once:
  assumes "v1 \<in> set (votes_sent (snd (core_run env es (core_new nm c params svc pks st leaders))))"
    and "v2 \<in> set (votes_sent (snd (core_run env es (core_new nm c params svc pks st leaders))))"
    and "v_proposer v1 = v_proposer v2" and "v_height v1 = v_height v2"
  shows "v1 = v2"
  using presD [OF core_run_votes core_new_votes, of nm env es c params svc pks st leaders] assms
  by (auto simp: core_votes_ok_def votes_ok_def votes_sent_def
      intro!: sorted_heights_unique [of v_height "filter (\<lambda>v. v_proposer v = v_proposer v2)
        (votes_sent (snd (core_run env es (core_new nm c params svc pks st leaders))))"])

section \<open>The promises\<close>

text \<open>
  C1. Whatever events a node's core receives, from its first proposal on, the heights of the
  votes it has sent for the blocks of one proposer are strictly increasing: it never sends two
  votes for the same proposer and height.
\<close>

lemma no_double_vote:
  "sorted_wrt (<) (map v_height (filter (\<lambda>v. v_proposer v = p)
     (votes_sent (snd (core_run env es (core_new nm c params svc pks st leaders))))))"
  using presD [OF core_run_votes core_new_votes, of nm env es c params svc pks st leaders]
  by (simp add: core_votes_ok_def votes_ok_def votes_sent_def)

text \<open>
  When Core::make_vote returns a vote, the block is above the last voted height of the
  chain, which is raised to the block's height; its certificate is for the height before or is
  the genesis certificate; its epoch is not older than the chain's; during a view change it is
  not a block of the current leader; and the vote carries the block's digest, proposer, height
  and epoch under the node's own name.
\<close>

lemma make_vote_safe:
  assumes "make_vote env b (s, c) = (Ok (Some v), (s', c'))"
  shows "ch_last_voted_height c < b_height b \<and> ch_last_voted_height c' = b_height b \<and>
    ch_epoch c \<le> b_epoch b \<and> (qc_height (b_qc b) + 1 = b_height b \<or> qc_eq (b_qc b) qc_genesis) \<and>
    (is_view_change s \<longrightarrow> get_leader (leader_elector s) (epoch s) \<noteq> Some (b_author b)) \<and>
    v_hash v = block_digest (prims env) b \<and> v_author v = name s \<and> v_proposer v = b_author b \<and>
    v_height v = b_height b \<and> v_epoch v = b_epoch b"
  using assms
  by (auto simp: make_vote_def act_defs plumbing_defs increase_last_voted_round_def vote_new_def
      request_signature_def Let_def max_def split: if_splits option.splits)

lemma make_vote_safe_witness:
  "\<exists>v s' c'. make_vote (example_env [] 10) (example_block 2 4 [])
     (example_core [], (chain_new (PublicKey 2) example_committee)\<lparr>ch_last_voted_height := 3\<rparr>) = (Ok (Some v), (s', c')) \<and>
   v_author v = PublicKey 1 \<and> v_height v = 4 \<and> ch_last_voted_height c' = 4"
proof -
  obtain v s' c' where run: "make_vote (example_env [] 10) (example_block 2 4 [])
     (example_core [], (chain_new (PublicKey 2) example_committee)\<lparr>ch_last_voted_height := 3\<rparr>) = (Ok (Some v), (s', c'))"
    by (simp add: make_vote_def act_defs plumbing_defs increase_last_voted_round_def vote_new_def
        request_signature_def Let_def example_env_def example_core_def core_new_def example_block_def
        chain_new_def example_primitives_def example_service_def signature_service_new_def qc_eq_def word_less_nat_alt)
  from make_vote_safe [OF run] run show ?thesis
    by (auto simp: example_core_def core_new_def example_block_def)
qed

end
