(* ===== verification/Chain_Frame.thy ===== *)
theory Chain_Frame
  imports Core_Run
begin

text \<open>
  What the chain half of the core leaves alone. The locale \<open>channel_blind\<close> is the contract of
  a property that does not look at the store and the channels, which every method of the core
  without a chain keeps; \<open>chain_blind\<close> adds that it does not look at the chains on file, and
  then every handler of proposals and votes, and the whole of a commit, keeps it. The
  agreement (theory \<^verbatim>\<open>Agreement\<close>) and the clock of epochs and rounds (theory
  \<^verbatim>\<open>Progress\<close>) rest on it.
\<close>

lemma pres_case_status [pres_rules]:
  "pres I a \<Longrightarrow> pres I r \<Longrightarrow> pres I w \<Longrightarrow> pres I (case st of Accept \<Rightarrow> a | Reject \<Rightarrow> r | Wait \<Rightarrow> w)"
  by (cases st) auto

lemma pres_chain_aggregate: "(\<And>s c ag. I (s, c) \<Longrightarrow> I (s, c\<lparr>ch_aggregator := ag\<rparr>)) \<Longrightarrow> pres I (chain_aggregate f)"
  by (auto simp: pres_def chain_aggregate_def lift_def act_defs split: prod.split sum.split)

lemma pres_core_aggregate: "(\<And>s ag. I s \<Longrightarrow> I (s\<lparr>core_aggregator := ag\<rparr>)) \<Longrightarrow> pres I (core_aggregate f)"
  by (auto simp: pres_def core_aggregate_def lift_def act_defs split: prod.split sum.split)

lemma pres_run_with: "pres (\<lambda>sc. I (fst sc)) m \<Longrightarrow> pres I (run_with c m)"
  by (auto simp: pres_def run_with_def split: prod.split) (metis fst_conv snd_conv)

locale channel_blind =
  fixes I :: "'db core \<Rightarrow> bool"
  assumes store: "I (s\<lparr>store := st\<rparr>) \<longleftrightarrow> I s"
    and network_filter: "I (s\<lparr>network_filter := out\<rparr>) \<longleftrightarrow> I s"
    and network_filter_smvba: "I (s\<lparr>network_filter_smvba := out\<rparr>) \<longleftrightarrow> I s"
    and commit_channel: "I (s\<lparr>commit_channel := bs\<rparr>) \<longleftrightarrow> I s"
    and inner_channel: "I (s\<lparr>inner_channel := reqs\<rparr>) \<longleftrightarrow> I s"
    and mempool_channel: "I (s\<lparr>mempool_channel := msgs\<rparr>) \<longleftrightarrow> I s"
begin

lemmas blind = store network_filter network_filter_smvba commit_channel inner_channel
  mempool_channel

lemma core_methods:
  "pres I (store_block env b)" "pres I (transmit_hotstuff msg to)" "pres I (transmit_smvba msg to)"
  "pres I (driver_get env mx)" "pres I (driver_verify env b)" "pres I (driver_cleanup b)"
  "pres I (get_block env author d blk)"
  unfolding store_block_def transmit_hotstuff_def transmit_smvba_def driver_get_def
    driver_verify_def driver_cleanup_def get_block_def
  by (intro pres_rules pres_modify; simp add: blind)+

lemma get_ancestors: "pres I (get_ancestors env b)" "pres I (process_block_prepare env b)"
  unfolding process_block_prepare_def get_ancestors_def get_parent_block_def
  by (intro pres_rules core_methods)+

lemma deliver: "pres I (deliver bs)"
  by (induction bs) (auto intro!: pres_rules core_methods pres_modify simp: blind)

lemma handle_sync_request: "pres I (handle_sync_request env d k)"
  unfolding handle_sync_request_def by (intro pres_rules core_methods)

end

locale chain_blind = channel_blind I for I :: "'db core \<Rightarrow> bool" +
  assumes pubkey_to_chain: "I (s\<lparr>pubkey_to_chain := file\<rparr>) \<longleftrightarrow> I s"
begin

lemma set_chain: "I (set_chain k c s) \<longleftrightarrow> I s"
  by (simp add: set_chain_def pubkey_to_chain)

text \<open>Handlers on a chain: the property of the core, whatever the chain.\<close>

lemma on_core: "pres I m \<Longrightarrow> pres (\<lambda>sc. I (fst sc)) (on_core m)"
  by (rule pres_on_core) simp

lemma modify_chain: "pres (\<lambda>sc. I (fst sc)) (modify_chain f)"
  by (rule pres_modify_chain) simp

lemma aggregate: "pres (\<lambda>sc. I (fst sc)) (chain_aggregate f)"
  by (rule pres_chain_aggregate) simp

lemma commit_refs:
  assumes "\<And>b tc. pres (\<lambda>sc. I (fst sc)) (rec b tc)"
  shows "pres I (commit_refs env rec refs tc)"
  by (induction refs arbitrary: tc)
    (auto intro!: pres_rules core_methods pres_modify pres_run_with assms simp: set_chain split: prod.splits)

lemma commit_prev_block: "pres (\<lambda>sc. I (fst sc)) (commit_prev_block env n b tc)"
proof (induction n arbitrary: b tc)
  case 0
  then show ?case by (simp add: pres_rules)
next
  case (Suc n)
  show ?case
    unfolding commit_prev_block.simps
    by (intro pres_rules on_core core_methods modify_chain commit_refs Suc.IH)
qed

lemma commit: "pres (\<lambda>sc. I (fst sc)) (commit env b)"
  unfolding commit_def by (intro pres_rules on_core commit_prev_block deliver)

lemma process_qc: "pres (\<lambda>sc. I (fst sc)) (process_qc q)"
  unfolding process_qc_def advance_height_def update_high_qc_def
  by (intro pres_rules on_core modify_chain)

lemma generate_proposal: "pres (\<lambda>sc. I (fst sc)) (generate_proposal env tag)"
  unfolding generate_proposal_def Let_def by (intro pres_rules on_core core_methods)

lemma make_vote: "pres (\<lambda>sc. I (fst sc)) (make_vote env b)"
  unfolding make_vote_def increase_last_voted_round_def Let_def
  by (intro pres_rules on_core modify_chain)

lemma process_block:
  assumes "\<And>v. pres (\<lambda>sc. I (fst sc)) (hv v)"
  shows "pres (\<lambda>sc. I (fst sc)) (process_block env hv b)"
  unfolding process_block_def process_block_commit_def process_block_vote_def
  by (intro pres_rules on_core core_methods get_ancestors commit make_vote assms)

lemma broadcast_propose:
  assumes "\<And>v. pres (\<lambda>sc. I (fst sc)) (hv v)"
  shows "pres (\<lambda>sc. I (fst sc)) (broadcast_propose env hv b)"
  unfolding broadcast_propose_def
  by (intro pres_rules on_core core_methods process_block assms)

lemma handle_vote_rec: "pres (\<lambda>sc. I (fst sc)) (handle_vote_rec env n v)"
proof (induction n arbitrary: v)
  case 0
  then show ?case by (simp add: pres_rules)
next
  case (Suc n)
  show ?case
    unfolding handle_vote_rec.simps
    by (intro pres_rules aggregate process_qc generate_proposal broadcast_propose Suc.IH)
qed

lemma handle_vote: "pres (\<lambda>sc. I (fst sc)) (handle_vote env v)"
  unfolding handle_vote_def by (rule handle_vote_rec)

lemma handle_proposal: "pres (\<lambda>sc. I (fst sc)) (handle_proposal env b)"
  unfolding handle_proposal_def
  by (intro pres_rules on_core core_methods process_qc process_block handle_vote)

lemma with_chain:
  assumes "pres (\<lambda>sc. I (fst sc)) m"
  shows "pres I (with_chain k m)"
  using assms unfolding pres_def with_chain_def
  by (auto simp: set_chain split: option.split prod.split) (metis fst_conv snd_conv)

lemma handle_core_message: "pres I (handle_core_message env m)"
  by (cases m) (auto intro!: pres_rules with_chain handle_proposal handle_vote process_block
      handle_sync_request)

lemma first_proposal: "pres I (first_proposal env)"
  unfolding first_proposal_def
  by (intro pres_rules with_chain generate_proposal broadcast_propose handle_vote)

end

end
