(* ===== verification/Agreement.thy ===== *)
theory Agreement
  imports Chain_Frame Examples
begin

text \<open>
  The agreement never panics. The invariant \<open>agreement_ok\<close> says what the lookups that would
  panic rely on: an input value for the round once the first phase is left, certificates filed
  under their own epoch and round, timeout certificates with votes, and at the coin a proof of
  the one value of \<open>bin_values\<close>. Every round of the main loop keeps it.
\<close>

section \<open>The invariant\<close>

definition proofs_keyed :: "(u64 \<times> u64 \<rightharpoonup> aba_proof) \<Rightarrow> bool" where
  "proofs_keyed m \<longleftrightarrow> (\<forall>k p. m k = Some p \<longrightarrow> (ap_epoch p, ap_round p) = k)"

definition tcs_ok :: "(u64 \<rightharpoonup> tc) \<Rightarrow> bool" where
  "tcs_ok m \<longleftrightarrow> (\<forall>k t. m k = Some t \<longrightarrow> tc_epoch t = k \<and> tc_votes t \<noteq> [])"

definition coins_ok :: "committee \<Rightarrow> aggregator \<Rightarrow> bool" where
  "coins_ok c ag \<longleftrightarrow> ag_committee ag = c \<and>
     (\<forall>k m. aba_randomcoin_aggregators ag k = Some m \<longrightarrow> (\<forall>sh \<in> set (cm_shares m). 0 < stake c (rs_author sh)))"

text \<open>The bounds on the phase and what each phase has at hand.\<close>

definition phases_ok :: "'db core \<Rightarrow> bool" where
  "phases_ok s \<longleftrightarrow>
     (phase s = INIT_PHASE \<longrightarrow> aba_round s = 1) \<and>
     (tc_processed s \<or> phase s \<noteq> INIT_PHASE \<longrightarrow> aba_input_val s (aba_round s) \<noteq> None) \<and>
     phase s \<le> COIN_PHASE \<and> finite (bin_values s) \<and>
     (AUX_PHASE \<le> phase s \<longrightarrow> bin_values s \<noteq> {}) \<and>
     (phase s = COIN_PHASE \<longrightarrow> card (bin_values s) = 1 \<longrightarrow>
        aba_aux_phase_cache s (epoch s, aba_round s) \<noteq> None)"

definition caches_ok :: "'db core \<Rightarrow> bool" where
  "caches_ok s \<longleftrightarrow> proofs_keyed (aba_val_phase_cache1 s) \<and> proofs_keyed (aba_val_phase_cache2 s) \<and>
     proofs_keyed (aba_aux_phase_cache s) \<and> proofs_keyed (aba_proof_cache s) \<and>
     tcs_ok (tc_cache s) \<and> coins_ok (core_committee s) (core_aggregator s)"

lemma phase_order [simp]:
  "VAL_PHASE \<noteq> INIT_PHASE" "VAL_PHASE \<noteq> COIN_PHASE" "\<not> AUX_PHASE \<le> VAL_PHASE" "VAL_PHASE \<le> COIN_PHASE"
  "AUX_PHASE \<le> COIN_PHASE" "AUX_PHASE \<noteq> INIT_PHASE" "AUX_PHASE \<noteq> COIN_PHASE" "COIN_PHASE \<noteq> INIT_PHASE"
  "INIT_PHASE \<le> COIN_PHASE" "\<not> AUX_PHASE \<le> INIT_PHASE" "INIT_PHASE \<noteq> COIN_PHASE"
  by (simp_all add: VAL_PHASE_def INIT_PHASE_def AUX_PHASE_def COIN_PHASE_def word_le_nat_alt)

text \<open>The keys the node was started with: a loadable key pair and a threshold share.\<close>

definition keys_ok :: "'db env \<Rightarrow> signature_service \<Rightarrow> bool" where
  "keys_ok env svc \<longleftrightarrow> tss_channel svc \<noteq> None \<and>
     (case secret svc of SecretKey sk \<Rightarrow> keypair_from_bytes (prims env) sk)"

definition agreement_ok :: "'db core \<Rightarrow> bool" where
  "agreement_ok s \<longleftrightarrow> phases_ok s \<and> caches_ok s"

lemmas agreement_defs = agreement_ok_def phases_ok_def caches_ok_def

definition agreement_inv :: "'db env \<Rightarrow> 'db core \<Rightarrow> bool" where
  "agreement_inv env s \<longleftrightarrow> agreement_ok s \<and> keys_ok env (core_signature_service s)"

interpretation agreement_blind: chain_blind "agreement_inv env" for env
  by unfold_locales (simp_all add: agreement_inv_def agreement_defs)

lemma proofs_keyed_upd [simp]: "proofs_keyed m \<Longrightarrow> proofs_keyed (m((ap_epoch p, ap_round p) \<mapsto> p))"
  by (simp add: proofs_keyed_def)

lemma proofs_keyed_retain [simp]: "proofs_keyed m \<Longrightarrow> proofs_keyed (retain P m)"
  by (simp add: proofs_keyed_def)

lemma proofs_keyedD: "proofs_keyed m \<Longrightarrow> m (ep, r) = Some p \<Longrightarrow> ap_epoch p = ep \<and> ap_round p = r"
  unfolding proofs_keyed_def by blast

lemma empty_ok [simp]: "proofs_keyed Map.empty" "tcs_ok Map.empty"
  by (simp_all add: proofs_keyed_def tcs_ok_def)

lemma tcs_ok_upd: "tcs_ok m \<Longrightarrow> tc_votes t \<noteq> [] \<Longrightarrow> tcs_ok (m(tc_epoch t \<mapsto> t))"
  by (simp add: tcs_ok_def)

lemma tcs_ok_retain [simp]: "tcs_ok m \<Longrightarrow> tcs_ok (retain P m)"
  by (simp add: tcs_ok_def)

lemma coins_ok_cleanup [simp]: "coins_ok c ag \<Longrightarrow> coins_ok c (cleanup_aba ep ag)"
  by (auto simp: coins_ok_def cleanup_aba_def split: if_splits)

section \<open>Parts that cannot fail\<close>

lemma wp_request_signature:
  "keys_ok env svc \<Longrightarrow> (\<And>sig. Q sig s) \<Longrightarrow> wp (request_signature (prims env) svc d) Q E s"
  by (cases "secret svc") (auto simp: request_signature_def keys_ok_def Let_def split: option.split)

lemma wp_aba_val_new:
  assumes "keys_ok env svc"
    and "\<And>sig. Q \<lparr>av_author = a, av_epoch = ep, av_round = r, av_phase = ph, av_val = v, av_signature = sig\<rparr> s"
  shows "wp (aba_val_new (prims env) svc a ep r v ph) Q E s"
  unfolding aba_val_new_def Let_def using assms by (auto intro!: wp_request_signature)

lemma wp_randomness_share_new:
  assumes "keys_ok env svc"
    and "\<And>x. Q \<lparr>rs_epoch = ep, rs_round = r, rs_author = a, rs_signature_share = x\<rparr> s"
  shows "wp (randomness_share_new (prims env) svc ep r a) Q E s"
  using assms by (auto simp: randomness_share_new_def request_tss_signature_def keys_ok_def)

lemma wp_transmit_smvba [simp]:
  "wp (transmit_smvba msg None) Q E s \<longleftrightarrow>
     Q () (s\<lparr>network_filter_smvba := network_filter_smvba s @
       [(msg, smvba_broadcast_addresses (core_committee s) (name s))]\<rparr>)"
  by (simp add: transmit_smvba_def transmit_addresses_def HOTSTUFF_def TCVBA_def)

lemma add_aba_val_coins:
  "add_aba_val v ag = (r, ag') \<Longrightarrow> coins_ok c ag' = coins_ok c ag"
  by (auto simp: add_aba_val_def coins_ok_def split: prod.splits)

lemma wp_core_aggregate:
  assumes "\<And>ag e. coins_ok (core_committee s) (core_aggregator s) \<longrightarrow> coins_ok (core_committee s) ag \<Longrightarrow> E (s\<lparr>core_aggregator := ag\<rparr>)"
    and "\<And>ag x. coins_ok (core_committee s) (core_aggregator s) \<longrightarrow> coins_ok (core_committee s) ag \<Longrightarrow> Q x (s\<lparr>core_aggregator := ag\<rparr>)"
  shows "wp (core_aggregate (add_aba_val v)) Q E s"
  using assms add_aba_val_coins [of v "core_aggregator s"]
  by (auto simp: core_aggregate_def wp_def lift_def act_defs split: prod.split sum.split)

text \<open>
  What the handling of a value may change: the votes of the aggregator, the two caches of the
  first phase, and the cache and the count of the second, where nothing is lost.
\<close>

definition without_values :: "'db core \<Rightarrow> 'db core" where
  "without_values s = s\<lparr>core_aggregator := aggregator_new (core_committee s),
     aba_val_phase_cache1 := Map.empty, aba_val_phase_cache2 := Map.empty,
     aba_aux_phase_cache := Map.empty, aux_value_nums := Map.empty\<rparr>"

definition value_step :: "'db core \<Rightarrow> 'db core \<Rightarrow> bool" where
  "value_step s t \<longleftrightarrow> without_values t = without_values s \<and>
     (coins_ok (core_committee s) (core_aggregator s) \<longrightarrow> coins_ok (core_committee s) (core_aggregator t)) \<and>
     (proofs_keyed (aba_val_phase_cache1 s) \<longrightarrow> proofs_keyed (aba_val_phase_cache1 t)) \<and>
     (proofs_keyed (aba_val_phase_cache2 s) \<longrightarrow> proofs_keyed (aba_val_phase_cache2 t)) \<and>
     (proofs_keyed (aba_aux_phase_cache s) \<longrightarrow> proofs_keyed (aba_aux_phase_cache t)) \<and>
     (\<forall>k. aba_aux_phase_cache s k \<noteq> None \<longrightarrow> aba_aux_phase_cache t k \<noteq> None)"

lemma value_step_refl [simp]: "value_step s s"
  by (simp add: value_step_def)

lemma wp_handle_aba_val:
  assumes J: "\<And>t. value_step s t \<Longrightarrow> Q () t" "\<And>t. value_step s t \<Longrightarrow> E t"
  shows "wp (handle_aba_val env v) Q E s"
  unfolding handle_aba_val_def handle_val_phase_def handle_aux_phase_def
  by (auto split: sum.split option.split intro!: J wp_core_aggregate
      simp: value_step_def without_values_def)

lemma value_step_fields:
  assumes "value_step s t"
  shows "aba_input_val t = aba_input_val s" "aba_round t = aba_round s"
    "phase t = phase s" "tc_processed t = tc_processed s" "bin_values t = bin_values s"
    "epoch t = epoch s" "core_signature_service t = core_signature_service s"
    "core_committee t = core_committee s" "pk_set t = pk_set s" "tc_cache t = tc_cache s"
    "aba_proof_cache t = aba_proof_cache s"
proof -
  note field = arg_cong [of "without_values t" "without_values s"]
  have w: "without_values t = without_values s"
    using assms by (simp add: value_step_def)
  show "aba_input_val t = aba_input_val s" "aba_round t = aba_round s"
    "phase t = phase s" "tc_processed t = tc_processed s" "bin_values t = bin_values s"
    "epoch t = epoch s" "core_signature_service t = core_signature_service s"
    "core_committee t = core_committee s" "pk_set t = pk_set s" "tc_cache t = tc_cache s"
    "aba_proof_cache t = aba_proof_cache s"
    using field [OF w, of aba_input_val] field [OF w, of aba_round] field [OF w, of phase]
      field [OF w, of tc_processed] field [OF w, of bin_values] field [OF w, of epoch]
      field [OF w, of core_signature_service] field [OF w, of core_committee] field [OF w, of pk_set]
      field [OF w, of tc_cache] field [OF w, of aba_proof_cache]
    by (simp_all add: without_values_def)
qed

lemma value_step_ok:
  assumes "value_step s t" "agreement_ok s"
  shows "agreement_ok t"
  using assms(2) assms(1) [unfolded value_step_def] unfolding agreement_defs
  by (simp add: value_step_fields [OF assms(1)])


lemma agreement_inv_value_step:
  "value_step s t \<Longrightarrow> agreement_inv env s \<Longrightarrow> agreement_inv env t"
  by (simp add: agreement_inv_def value_step_ok value_step_fields)

lemma agreement_invD:
  assumes "agreement_inv env s"
  shows "keys_ok env (core_signature_service s)" "phases_ok s" "caches_ok s"
  using assms by (simp_all add: agreement_inv_def agreement_ok_def)

text \<open>A coin share of an authority is counted without a panic, and the shares stay those of authorities.\<close>

lemma add_aba_random_ok:
  assumes "coins_ok c ag" and "0 < stake c (rs_author sh)"
  shows "wp (add_aba_random sh pks) (\<lambda>_. coins_ok c) (coins_ok c) ag"
proof -
  let ?m = "entry_or (aba_randomcoin_aggregators ag) (rs_epoch sh, rs_round sh) coin_maker_new"
  have shares: "\<forall>x \<in> set (cm_shares ?m). 0 < stake c (rs_author x)"
    using assms(1) by (auto simp: coins_ok_def entry_or_def coin_maker_new_def split: option.splits)
  let ?post = "\<lambda>m. \<forall>x \<in> set (cm_shares m). 0 < stake c (rs_author x)"
  have "wp (coin_maker_append sh c pks) (\<lambda>_. ?post) ?post ?m"
    using coin_sigs_Some [of "cm_shares ?m @ [sh]" c Map.empty] shares assms(2)
    by (auto simp: coin_maker_append_def split: option.split)
  moreover have "ag_committee ag = c"
    using assms(1) by (simp add: coins_ok_def)
  ultimately show ?thesis
    using assms(1) unfolding wp_def add_aba_random_def Let_def
    by (auto simp: coins_ok_def split: prod.splits outcome.splits)
qed

lemma wp_on_aggregator:
  "wp (\<lambda>s. case add_aba_random sh (pk_set s) (core_aggregator s) of (r, ag) \<Rightarrow> (r, s\<lparr>core_aggregator := ag\<rparr>)) Q E s \<longleftrightarrow>
     wp (add_aba_random sh (pk_set s)) (\<lambda>x ag. Q x (s\<lparr>core_aggregator := ag\<rparr>))
       (\<lambda>ag. E (s\<lparr>core_aggregator := ag\<rparr>)) (core_aggregator s)"
  by (auto simp: wp_def split: prod.split outcome.split)

lemma wp_randomness_share_verify:
  assumes "0 < stake c (rs_author sh) \<Longrightarrow> Q () s" and "E s"
  shows "wp (randomness_share_verify cr c pks sh) Q E s"
  using assms stake_pos_id [of c "rs_author sh"]
  by (auto simp: randomness_share_verify_def ensure_def split: option.split)

lemma agreement_inv_coins:
  "agreement_inv env s \<Longrightarrow> coins_ok (core_committee s) ag \<Longrightarrow> agreement_inv env (s\<lparr>core_aggregator := ag\<rparr>)"
  "agreement_inv env (s\<lparr>aba_coin_cache := m\<rparr>) = agreement_inv env s"
  by (simp_all add: agreement_inv_def agreement_defs)

lemma wp_handle_coin_share:
  assumes inv: "agreement_inv env s"
  shows "wp (handle_coin_share env sh) (\<lambda>_. agreement_inv env) (agreement_inv env) s"
proof -
  have coins: "coins_ok (core_committee s) (core_aggregator s)"
    using inv by (simp add: agreement_inv_def agreement_defs)
  have "wp (add_aba_random sh (pk_set s))
      (\<lambda>r ag. wp (case r of None \<Rightarrow> ret () | Some coin \<Rightarrow> modify (\<lambda>s. s\<lparr>aba_coin_cache :=
          (aba_coin_cache s)((rs_epoch sh, rs_round sh) \<mapsto> coin)\<rparr>))
         (\<lambda>_. agreement_inv env) (agreement_inv env) (s\<lparr>core_aggregator := ag\<rparr>))
      (\<lambda>ag. agreement_inv env (s\<lparr>core_aggregator := ag\<rparr>)) (core_aggregator s)"
    if "0 < stake (core_committee s) (rs_author sh)"
    by (rule wp_mono [OF add_aba_random_ok [OF coins that]])
      (auto simp: inv agreement_inv_coins split: option.split)
  then show ?thesis
    by (auto simp: handle_coin_share_def inv wp_on_aggregator intro!: wp_randomness_share_verify)
qed

section \<open>The steps over the caches\<close>

lemma agreement_inv_quiet [simp]:
  "agreement_inv env (s\<lparr>val_value_broadcasted := x\<rparr>) = agreement_inv env s"
  "agreement_inv env (s\<lparr>aux_value_broadcasted := x\<rparr>) = agreement_inv env s"
  "agreement_inv env (s\<lparr>coin_share_broadcasted := x\<rparr>) = agreement_inv env s"
  "agreement_inv env (s\<lparr>aux_proof_broadcasted := x\<rparr>) = agreement_inv env s"
  "agreement_inv env (s\<lparr>aba_output_val := out\<rparr>) = agreement_inv env s"
  "agreement_inv env (s\<lparr>is_view_change := x\<rparr>) = agreement_inv env s"
  "agreement_inv env (s\<lparr>total_epoch := n\<rparr>) = agreement_inv env s"
  "agreement_inv env (s\<lparr>network_filter_smvba := xs\<rparr>) = agreement_inv env s"
  by (simp_all add: agreement_inv_def agreement_defs)

lemmas agreement_steps = wp_handle_aba_val wp_aba_val_new wp_randomness_share_new

lemma tc_step_ok:
  assumes inv: "agreement_inv env s"
  shows "wp (tc_step env) (\<lambda>_. agreement_inv env) (agreement_inv env) s"
proof -
  note I = agreement_invD [OF inv]
  have in_val: "agreement_inv env (s\<lparr>aba_input_val := (aba_input_val s)(1 \<mapsto> w), network_filter_smvba := out\<rparr>)"
    for w out
    using inv by (auto simp: agreement_inv_def agreement_defs)
  have process: "wp (process_tc env t)
      (\<lambda>_ u. agreement_inv env u \<and> aba_input_val u 1 \<noteq> None) (agreement_inv env) s"
    if "tc_cache s (epoch s) = Some t" for t
  proof -
    have "tc_votes t \<noteq> []"
      using that I(3) by (auto simp: caches_ok_def tcs_ok_def)
    then have "high_qc_rounds t \<noteq> []"
      by (simp add: high_qc_rounds_def)
    moreover have "agreement_inv env u \<and> aba_input_val u 1 \<noteq> None"
      if "value_step (s\<lparr>aba_input_val := (aba_input_val s)(1 \<mapsto> w), network_filter_smvba := out\<rparr>) u"
      for u out w
      using agreement_inv_value_step [OF that in_val] value_step_fields(1) [OF that] by simp
    ultimately show ?thesis
      using I(1) by (simp add: process_tc_def) (auto intro!: agreement_steps)
  qed
  have mark: "agreement_inv env (u\<lparr>tc_processed := True\<rparr>)"
    if "agreement_inv env u" "aba_input_val u 1 \<noteq> None" for u
    using that by (cases "phase u = INIT_PHASE") (auto simp: agreement_inv_def agreement_defs)
  show ?thesis
    unfolding tc_step_def
    by (auto simp: inv split: option.split intro!: wp_mono [OF process] mark)
qed


lemma process_val_phase_1_ok:
  assumes inv: "agreement_inv env s" and "aba_input_val s (ap_round p) \<noteq> None"
  shows "wp (process_val_phase_1 env p) (\<lambda>_. agreement_inv env) (agreement_inv env) s"
  using assms(2) agreement_invD(1) [OF inv]
  by (auto simp: process_val_phase_1_def inv intro!: agreement_steps elim!: agreement_inv_value_step)

lemma process_val_phase_2_ok:
  assumes inv: "agreement_inv env s"
  shows "wp (process_val_phase_2 env p) (\<lambda>_. agreement_inv env) (agreement_inv env) s"
proof -
  have grow: "agreement_inv env (t\<lparr>bin_values := insert v (bin_values t)\<rparr>)" if "agreement_inv env t" for t v
  proof -
    note I = agreement_invD [OF that, unfolded phases_ok_def]
    have "card (bin_values t) = 1" if "bin_values t \<noteq> {}" "card (insert v (bin_values t)) = 1"
      using that I(2) by (metis One_nat_def card_1_singletonE insert_absorb insert_is_Un insert_iff
          singletonD subset_singletonD subset_insertI)
    with I(2) have "phases_ok (t\<lparr>bin_values := insert v (bin_values t)\<rparr>)"
      by (auto simp: phases_ok_def)
    with I show ?thesis
      by (simp add: agreement_inv_def agreement_ok_def caches_ok_def)
  qed
  have first: "agreement_inv env (s\<lparr>bin_values := {ap_val p}\<rparr>)" if "bin_values s = {}"
    using grow [OF inv, of "ap_val p"] that by simp
  have later: "agreement_inv env (t\<lparr>bin_values := insert (ap_val p) (bin_values t)\<rparr>)"
    if "value_step u t" "agreement_inv env u" for t u
    using grow [OF agreement_inv_value_step [OF that]] .
  show ?thesis
    using agreement_invD(1) [OF inv]
    by (auto simp: process_val_phase_2_def inv first split: if_splits
        intro!: agreement_steps grow elim!: later agreement_inv_value_step)
qed

lemma process_aux_phase_ok:
  assumes inv: "agreement_inv env s"
  shows "wp (process_aux_phase env ep r) (\<lambda>_. agreement_inv env) (agreement_inv env) s"
  using agreement_invD(1) [OF inv]
  by (auto simp: process_aux_phase_def inv intro!: agreement_steps wp_handle_coin_share)

lemma advance_aba_round_ok:
  assumes inv: "agreement_inv env s"
  shows "wp (advance_aba_round env v) (\<lambda>_. agreement_inv env) (agreement_inv env) s"
proof -
  have "agreement_inv env (clear_round (s\<lparr>aba_round := aba_round s + 1, phase := VAL_PHASE,
       aba_input_val := (aba_input_val s)(aba_round s + 1 \<mapsto> v)\<rparr>))"
    using agreement_invD [OF inv]
    by (simp add: agreement_inv_def agreement_defs clear_round_def Let_def)
  moreover have "agreement_inv env t" if "value_step (clear_round u\<lparr>network_filter_smvba := out\<rparr>) t"
    "agreement_inv env (clear_round u)" for t u out
    using agreement_inv_value_step [OF that(1)] that(2) by simp
  ultimately show ?thesis
    using agreement_invD(1) [OF inv]
    by (auto simp: advance_aba_round_def inv intro!: agreement_steps)
qed


lemma process_coin_share_ok:
  assumes inv: "agreement_inv env s" and coin: "phase s = COIN_PHASE"
  shows "wp (process_coin_share env (epoch s) (aba_round s) c) (\<lambda>_. agreement_inv env) (agreement_inv env) s"
proof -
  have "aba_aux_phase_cache s (epoch s, aba_round s) \<noteq> None" if "card (bin_values s) = 1"
    using agreement_invD(2) [OF inv] that coin by (simp add: phases_ok_def)
  then show ?thesis
    by (auto simp: process_coin_share_def broadcast_aux_proof_def Let_def inv advance_aba_round_ok
        split: option.split if_splits)
qed

lemma val_step_ok:
  assumes inv: "agreement_inv env s"
  shows "wp (val_step env) (\<lambda>_. agreement_inv env) (agreement_inv env) s"
proof -
  have second: "wp (bind (gets id) (\<lambda>s. case aba_val_phase_cache2 s (epoch s, aba_round s) of
      Some p \<Rightarrow> process_val_phase_2 env p | None \<Rightarrow> ret ())) (\<lambda>_. agreement_inv env) (agreement_inv env) t"
    if "agreement_inv env t" for t
    using that by (auto simp: process_val_phase_2_ok split: option.split)
  have first: "wp (process_val_phase_1 env p) (\<lambda>_. agreement_inv env) (agreement_inv env) s"
    if "aba_val_phase_cache1 s (epoch s, aba_round s) = Some p" "VAL_PHASE \<le> phase s" for p
  proof (rule process_val_phase_1_ok [OF inv])
    have "ap_round p = aba_round s"
      using agreement_invD(3) [OF inv] that(1) by (auto simp: caches_ok_def dest: proofs_keyedD)
    moreover have "phase s \<noteq> INIT_PHASE"
      using that(2) by (auto simp: VAL_PHASE_def INIT_PHASE_def word_le_nat_alt)
    ultimately show "aba_input_val s (ap_round p) \<noteq> None"
      using agreement_invD(2) [OF inv] by (simp add: phases_ok_def)
  qed
  show ?thesis
    unfolding val_step_def
    using inv second by (auto split: option.split intro!: wp_mono [OF first] second)
qed

lemma aux_step_ok: "agreement_inv env s \<Longrightarrow> wp (aux_step env) (\<lambda>_. agreement_inv env) (agreement_inv env) s"
  by (auto simp: aux_step_def process_aux_phase_ok split: option.split)

lemma coin_step_ok:
  assumes inv: "agreement_inv env s"
  shows "wp (coin_step env) (\<lambda>_. agreement_inv env) (agreement_inv env) s"
proof -
  have "phase s = COIN_PHASE" if "COIN_PHASE \<le> phase s"
    using agreement_invD(2) [OF inv] that by (simp add: phases_ok_def)
  then show ?thesis
    by (auto simp: coin_step_def inv process_coin_share_ok split: option.split)
qed

lemma proof_step_ok: "agreement_inv env s \<Longrightarrow> wp proof_step (\<lambda>_. agreement_inv env) (agreement_inv env) s"
  by (auto simp: proof_step_def process_aba_proof_def split: option.split)

lemma wp_chain_steps:
  assumes "wp m (\<lambda>_. I) I s" and "\<And>t. I t \<Longrightarrow> wp n (\<lambda>_. I) I t"
  shows "wp (bind m (\<lambda>_. n)) (\<lambda>_. I) I s"
  using assms by (auto intro: wp_mono)

lemma process_aba_phase_wp:
  assumes "agreement_inv env s"
  shows "wp (process_aba_phase env) (\<lambda>_. agreement_inv env) (agreement_inv env) s"
  unfolding process_aba_phase_def
  by (intro wp_chain_steps tc_step_ok val_step_ok aux_step_ok coin_step_ok proof_step_ok assms)


section \<open>The whole of the core\<close>

lemma handle_aba_val_wp:
  "agreement_inv env s \<Longrightarrow> wp (handle_aba_val env v) (\<lambda>_. agreement_inv env) (agreement_inv env) s"
  by (auto intro!: wp_handle_aba_val elim: agreement_inv_value_step)

lemma handle_aba_proof_wp:
  "agreement_inv env s \<Longrightarrow> wp (handle_aba_proof env p) (\<lambda>_. agreement_inv env) (agreement_inv env) s"
  by (auto simp: handle_aba_proof_def agreement_inv_def agreement_defs split: sum.split)

lemma tc_cached:
  "agreement_inv env s \<Longrightarrow> tc_votes t \<noteq> [] \<Longrightarrow>
     agreement_inv env (s\<lparr>tc_cache := (tc_cache s)(tc_epoch t \<mapsto> t)\<rparr>)"
  by (simp add: agreement_inv_def agreement_defs tcs_ok_upd)

lemma handle_tc_wp:
  "agreement_inv env s \<Longrightarrow> wp (handle_tc env t) (\<lambda>_. agreement_inv env) (agreement_inv env) s"
  by (auto simp: handle_tc_def tc_cached split: sum.split dest: tc_verify_nonempty)

text \<open>Composition where the first part says something of its result.\<close>

lemma pres_bind_result:
  assumes "pres I m" and "\<And>s x s'. m s = (Ok x, s') \<Longrightarrow> P x" and "\<And>x. P x \<Longrightarrow> pres I (f x)"
  shows "pres I (bind m f)"
  using assms unfolding pres_def bind_def
  by (fastforce split: prod.splits outcome.splits)

lemma add_timeout_votes:
  "chain_aggregate (add_timeout t) sc = (Ok (Some cert), sc') \<Longrightarrow> tc_votes cert \<noteq> []"
  by (auto simp: chain_aggregate_def add_timeout_def tc_maker_append_def Let_def lift_def act_defs
      split: prod.splits sum.splits if_splits)

lemma handle_timeout_inv:
  "pres (\<lambda>sc. agreement_inv env (fst sc)) (handle_timeout env t)"
proof -
  have cached: "pres (\<lambda>sc. agreement_inv env (fst sc)) (case r of Some cert \<Rightarrow>
      on_core (modify (\<lambda>s. s\<lparr>tc_cache := (tc_cache s)(tc_epoch cert \<mapsto> cert)\<rparr>)) | None \<Rightarrow> ret ())"
    if "\<forall>cert. r = Some cert \<longrightarrow> tc_votes cert \<noteq> []" for r
    using that by (auto intro!: pres_rules pres_modify tc_cached)
  show ?thesis
    unfolding handle_timeout_def
    by (intro pres_rules agreement_blind.process_qc pres_bind_result [OF agreement_blind.aggregate _ cached])
      (auto dest: add_timeout_votes)
qed

lemma local_timeout_inv: "pres (\<lambda>sc. agreement_inv env (fst sc)) (local_timeout_round env)"
  unfolding local_timeout_round_def increase_last_voted_round_def
  by (intro pres_rules agreement_blind.on_core agreement_blind.modify_chain
      agreement_blind.core_methods handle_timeout_inv)

lemma check_timeout_inv: "pres (\<lambda>sc. agreement_inv env (fst sc)) (check_timeout env)"
  unfolding check_timeout_def Let_def
  by (intro pres_rules pres_modify local_timeout_inv) simp_all

lemma phases_inv:
  assumes "agreement_inv env s"
  shows "agreement_inv env (enter_coin_phase (enter_aux_phase (enter_val_phase s)))"
proof -
  have v: "agreement_inv env (enter_val_phase s)"
    using assms by (auto simp: enter_val_phase_def agreement_inv_def agreement_defs)
  have a: "agreement_inv env (enter_aux_phase t)" if "agreement_inv env t" for t
    using that by (simp add: enter_aux_phase_def agreement_inv_def agreement_defs)
  have c: "agreement_inv env (enter_coin_phase t)" if "agreement_inv env t" for t
    using that by (auto simp: enter_coin_phase_def Let_def agreement_inv_def agreement_defs)
  show ?thesis
    by (intro a c v)
qed

lemma reset_inv: "agreement_inv env s \<Longrightarrow> agreement_inv env (reset_epoch (s\<lparr>epoch := ep\<rparr>))"
  by (simp add: reset_epoch_def agreement_inv_def agreement_defs)


lemma next_epoch_inv: "pres (\<lambda>sc. agreement_inv env (fst sc)) (next_epoch env h)"
proof -
  have merge: "bind (on_core (modify f)) (\<lambda>_. bind (modify_chain g) (\<lambda>_. bind (on_core (modify h)) k))
      = bind (\<lambda>(s, c). (Ok (), (h (f s), g c))) k"
    for f h :: "'a core \<Rightarrow> 'a core" and g and k :: "unit \<Rightarrow> ('a, unit) chain_act"
    by (auto simp: fun_eq_iff act_defs on_core_def modify_chain_def)
  have reset: "pres (\<lambda>sc. agreement_inv env (fst sc))
      (\<lambda>(s, c). (Ok (), (reset_epoch (s\<lparr>epoch := epoch s + 1\<rparr>), g c)))" for g :: "chain \<Rightarrow> chain"
    by (auto simp: pres_def reset_inv)
  show ?thesis
    unfolding next_epoch_def merge
    by (intro pres_rules reset agreement_blind.on_core agreement_blind.core_methods agreement_blind.commit
        agreement_blind.generate_proposal agreement_blind.broadcast_propose agreement_blind.handle_vote)
qed

lemma update_aba_phase_inv: "pres (\<lambda>sc. agreement_inv env (fst sc)) (update_aba_phase env)"
proof -
  have "pres (agreement_inv env) (process_aba_phase env)"
    by (rule wp_pres) (rule process_aba_phase_wp)
  then show ?thesis
    unfolding update_aba_phase_def
    by (intro pres_rules agreement_blind.on_core pres_modify next_epoch_inv phases_inv)
qed

lemma after_message_inv: "pres (agreement_inv env) (after_message env)"
  unfolding after_message_def
  by (intro pres_rules agreement_blind.with_chain update_aba_phase_inv check_timeout_inv)

lemma handle_smvba_message_inv: "pres (agreement_inv env) (handle_smvba_message env m)"
proof (cases m)
  case (TimeoutMsg t)
  then show ?thesis
    by (auto intro!: pres_rules agreement_blind.with_chain handle_timeout_inv)
qed (auto intro!: pres_rules wp_pres [OF handle_tc_wp] wp_pres [OF handle_aba_val_wp]
    wp_pres [OF handle_aba_proof_wp] wp_pres [OF wp_handle_coin_share])

lemma core_step_inv: "pres (agreement_inv env) (core_step env e)"
proof (cases e)
  case (StoreWritten k v)
  then show ?thesis
    by (auto intro!: pres_modify simp: agreement_blind.blind)
qed (auto simp: core_round_def intro!: pres_rules pres_modify after_message_inv
    agreement_blind.handle_core_message handle_smvba_message_inv)

lemma core_run_inv: "pres (agreement_inv env) (core_run env es)"
proof -
  have "pres (agreement_inv env) (core_loop env es)"
    by (induction es) (auto intro!: pres_rules core_step_inv)
  then show ?thesis
    unfolding core_run_def by (intro pres_rules agreement_blind.first_proposal)
qed

lemma core_new_inv: "keys_ok env svc \<Longrightarrow> agreement_inv env (core_new me c params svc pks st leaders)"
  by (auto simp: core_new_def agreement_inv_def agreement_defs coins_ok_def aggregator_new_def)

text \<open>
  Every state a node can reach, with usable keys, from any events.
\<close>

lemma core_run_agreement:
  assumes "keys_ok env svc"
  shows "agreement_inv env (snd (core_run env es (core_new me c params svc pks st leaders)))"
  using presD [OF core_run_inv core_new_inv [OF assms]] .

section \<open>No panic\<close>

text \<open>The code comes back, with a result or an error.\<close>

definition completes :: "('s, 'e, 'a) act \<Rightarrow> 's \<Rightarrow> bool" where
  "completes m s \<longleftrightarrow> (case fst (m s) of Ok x \<Rightarrow> True | Err e \<Rightarrow> True | Panic p \<Rightarrow> False | Diverge \<Rightarrow> False)"

lemma wp_completes: "wp m Q E s \<Longrightarrow> completes m s"
  by (auto simp: wp_def completes_def split: prod.splits outcome.splits)

text \<open>
  C4. A core started with a loadable key and a threshold share reaches no state in which a
  timeout certificate, an agreement value, proof or coin share, or the pass over the agreement
  caches, ends in a panic: each comes back with a result or an error.
\<close>

lemma agreement_never_panics:
  assumes "keys_ok env svc"
  shows "let s = snd (core_run env es (core_new me c params svc pks st leaders)) in
    completes (handle_smvba_message env (TCMsg t)) s \<and> completes (handle_smvba_message env (ABAVal v)) s \<and>
    completes (handle_smvba_message env (ABAProof p)) s \<and> completes (handle_smvba_message env (ABACoinShare sh)) s \<and>
    completes (process_aba_phase env) s"
  using core_run_agreement [OF assms, of es me c params pks st leaders]
  by (simp add: Let_def wp_completes [OF handle_tc_wp] wp_completes [OF handle_aba_val_wp]
      wp_completes [OF handle_aba_proof_wp] wp_completes [OF wp_handle_coin_share] wp_completes [OF process_aba_phase_wp])

lemma example_keys_ok: "keys_ok (example_env blocks n) example_service"
  by (simp add: keys_ok_def example_env_def example_service_def signature_service_new_def example_primitives_def)

lemma agreement_never_panics_witness:
  "completes (process_aba_phase (example_env [] 10)) (snd (core_run (example_env [] 10)
     [SmvbaMsg (ABACoinShare \<lparr>rs_epoch = 0, rs_round = 1, rs_author = PublicKey 2, rs_signature_share = SignatureShare []\<rparr>)]
     (core_new (PublicKey 1) example_committee default_parameters example_service example_key_set [] example_committee)))"
  using agreement_never_panics [OF example_keys_ok] by (metis (no_types, lifting))

text \<open>
  C8. In every state a core with usable keys can reach, the agreement is in the first round
  while in INIT_PHASE, has an input value for its round afterwards, never passes COIN_PHASE,
  has a value in bin_values from AUX_PHASE on, holds a certificate of its second phase when it
  tosses the coin over a single value, and has filed under its epoch only a timeout
  certificate of that epoch with at least one vote.
\<close>

lemma agreement_invariant:
  assumes "keys_ok env svc" and "s = snd (core_run env es (core_new me c params svc pks st leaders))"
  shows "(phase s = INIT_PHASE \<longrightarrow> aba_round s = 1) \<and>
    (phase s \<noteq> INIT_PHASE \<longrightarrow> aba_input_val s (aba_round s) \<noteq> None) \<and>
    phase s \<le> COIN_PHASE \<and> (AUX_PHASE \<le> phase s \<longrightarrow> bin_values s \<noteq> {}) \<and>
    (phase s = COIN_PHASE \<longrightarrow> card (bin_values s) = 1 \<longrightarrow> aba_aux_phase_cache s (epoch s, aba_round s) \<noteq> None) \<and>
    (\<forall>t. tc_cache s (epoch s) = Some t \<longrightarrow> tc_epoch t = epoch s \<and> high_qc_rounds t \<noteq> [])"
  using core_run_agreement [OF assms(1), of es me c params pks st leaders]
  unfolding assms(2) [symmetric]
  by (auto simp: agreement_inv_def agreement_defs tcs_ok_def high_qc_rounds_def)

lemma agreement_invariant_witness:
  "phase (snd (core_run (example_env [] 10) []
     (core_new (PublicKey 1) example_committee default_parameters example_service example_key_set [] example_committee))) \<le> COIN_PHASE"
  using agreement_invariant [OF example_keys_ok refl] by blast

end
