(* ===== verification/Progress.thy ===== *)
theory Progress
  imports Chain_Frame
begin

text \<open>
  The clock of the node. A round of the main loop leaves the epoch alone or raises it by one,
  and in a new epoch the agreement stands where it stands in a fresh node.
\<close>

definition agreement_idle :: "'db core \<Rightarrow> bool" where
  "agreement_idle s \<longleftrightarrow> phase s = INIT_PHASE \<and> aba_round s = 1 \<and> bin_values s = {} \<and> \<not> tc_processed s \<and>
     aba_output_val s = None \<and> aba_input_val s = Map.empty"

interpretation epoch_blind: chain_blind "\<lambda>s. epoch s = e" for e
  by unfold_locales simp_all

text \<open>From states that satisfy \<open>P\<close>, the code leads to states that satisfy \<open>Q\<close>.\<close>

definition leads :: "('s \<Rightarrow> bool) \<Rightarrow> ('s, 'e, 'a) act \<Rightarrow> ('s \<Rightarrow> bool) \<Rightarrow> bool" where
  "leads P m Q \<longleftrightarrow> (\<forall>s. P s \<longrightarrow> Q (snd (m s)))"

lemma leads_same: "pres P m \<Longrightarrow> (\<And>s. P s \<Longrightarrow> Q s) \<Longrightarrow> leads P m Q"
  by (simp add: leads_def pres_def)

lemma leads_before:
  "pres P m \<Longrightarrow> (\<And>s. P s \<Longrightarrow> Q s) \<Longrightarrow> (\<And>x. leads P (f x) Q) \<Longrightarrow> leads P (bind m f) Q"
  unfolding leads_def pres_def bind_def by (fastforce split: prod.split outcome.split)

lemma leads_after: "leads P m Q \<Longrightarrow> (\<And>x. pres Q (f x)) \<Longrightarrow> leads P (bind m f) Q"
  unfolding leads_def pres_def bind_def by (fastforce split: prod.split outcome.split)

lemma leads_if: "(b \<Longrightarrow> leads P m Q) \<Longrightarrow> (\<not> b \<Longrightarrow> leads P n Q) \<Longrightarrow> leads P (if b then m else n) Q"
  by simp

lemma leads_case_option:
  "(x = None \<Longrightarrow> leads P m Q) \<Longrightarrow> (\<And>y. x = Some y \<Longrightarrow> leads P (f y) Q) \<Longrightarrow>
     leads P (case x of None \<Rightarrow> m | Some y \<Rightarrow> f y) Q"
  by (cases x) auto

lemma leads_case_prod: "(\<And>a b. x = (a, b) \<Longrightarrow> leads P (f a b) Q) \<Longrightarrow> leads P (case x of (a, b) \<Rightarrow> f a b) Q"
  by (cases x) auto

section \<open>Properties that do not look at the agreement either\<close>

text \<open>
  The contract of a property that looks neither at the channels nor at the state of the
  agreement; every agreement handler and every step over the caches keeps it.
\<close>

locale agreement_free = channel_blind I for I :: "'db core \<Rightarrow> bool" +
  assumes flags: "I (s\<lparr>tc_processed := x\<rparr>) \<longleftrightarrow> I s" "I (s\<lparr>val_value_broadcasted := x\<rparr>) \<longleftrightarrow> I s"
      "I (s\<lparr>aux_value_broadcasted := x\<rparr>) \<longleftrightarrow> I s" "I (s\<lparr>coin_share_broadcasted := x\<rparr>) \<longleftrightarrow> I s"
      "I (s\<lparr>aux_proof_broadcasted := x\<rparr>) \<longleftrightarrow> I s" "I (s\<lparr>is_view_change := x\<rparr>) \<longleftrightarrow> I s"
    and rounds: "I (s\<lparr>bin_values := b\<rparr>) \<longleftrightarrow> I s" "I (s\<lparr>aba_round := r\<rparr>) \<longleftrightarrow> I s" "I (s\<lparr>phase := ph\<rparr>) \<longleftrightarrow> I s"
      "I (s\<lparr>aba_output_val := out\<rparr>) \<longleftrightarrow> I s" "I (s\<lparr>aba_input_val := inp\<rparr>) \<longleftrightarrow> I s"
    and caches: "I (s\<lparr>tc_cache := tcs\<rparr>) \<longleftrightarrow> I s" "I (s\<lparr>core_aggregator := ag\<rparr>) \<longleftrightarrow> I s"
      "I (s\<lparr>aba_val_phase_cache1 := c1\<rparr>) \<longleftrightarrow> I s" "I (s\<lparr>aba_val_phase_cache2 := c1\<rparr>) \<longleftrightarrow> I s"
      "I (s\<lparr>aba_aux_phase_cache := c1\<rparr>) \<longleftrightarrow> I s" "I (s\<lparr>aux_value_nums := nums\<rparr>) \<longleftrightarrow> I s"
      "I (s\<lparr>aba_coin_cache := coins\<rparr>) \<longleftrightarrow> I s" "I (s\<lparr>aba_proof_cache := c1\<rparr>) \<longleftrightarrow> I s"
begin

lemmas free = flags rounds caches blind

lemma handle_aba_val: "pres I (handle_aba_val env v)"
  unfolding handle_aba_val_def handle_val_phase_def handle_aux_phase_def
  by (intro pres_rules pres_modify pres_core_aggregate; simp add: free)

lemma handle_coin_share: "pres I (handle_coin_share env sh)"
proof -
  have "pres I (\<lambda>s. case add_aba_random sh (pk_set s) (core_aggregator s) of (r, ag) \<Rightarrow>
       (r, s\<lparr>core_aggregator := ag\<rparr>))"
    by (auto simp: pres_def free split: prod.split)
  then show ?thesis
    unfolding handle_coin_share_def by (intro pres_rules pres_modify; simp add: free)
qed

lemma handlers: "pres I (handle_aba_proof env p)" "pres I (handle_tc env t)"
  unfolding handle_aba_proof_def handle_tc_def
  by (intro pres_rules pres_modify; simp add: free)+

lemma steps:
  "pres I (process_tc env t)" "pres I (advance_aba_round env v)" "pres I (process_val_phase_1 env p)"
  "pres I (process_val_phase_2 env p)" "pres I (process_aux_phase env ep r)" "pres I (process_aba_proof p)"
  unfolding process_tc_def advance_aba_round_def process_val_phase_1_def process_val_phase_2_def
    process_aux_phase_def process_aba_proof_def
  by (intro pres_rules pres_modify core_methods handle_aba_val handle_coin_share;
      simp add: free clear_round_def Let_def)+

lemma process_coin_share: "pres I (process_coin_share env ep r coin)"
  unfolding process_coin_share_def broadcast_aux_proof_def Let_def
  by (intro pres_rules pres_modify core_methods steps; simp add: free)

lemma process_aba_phase: "pres I (process_aba_phase env)"
  unfolding process_aba_phase_def tc_step_def val_step_def aux_step_def coin_step_def proof_step_def
  by (intro pres_rules pres_modify steps process_coin_share; simp add: free)

lemma enter_phases: "pres I (modify (\<lambda>s. enter_coin_phase (enter_aux_phase (enter_val_phase s))))"
  by (rule pres_modify)
    (simp add: enter_val_phase_def enter_aux_phase_def enter_coin_phase_def Let_def free)

end

locale clock_free = agreement_free I + chain_blind I for I :: "'db core \<Rightarrow> bool"
begin

lemma handle_timeout: "pres (\<lambda>sc. I (fst sc)) (handle_timeout env t)"
  unfolding handle_timeout_def
  by (intro pres_rules process_qc aggregate on_core pres_modify; simp add: free)

lemma handle_smvba_message: "pres I (handle_smvba_message env m)"
  by (cases m) (auto intro!: pres_rules with_chain handle_timeout handle_aba_val handle_coin_share handlers)

end

interpretation epoch_free: clock_free "\<lambda>s. epoch s = e" for e
  by unfold_locales simp_all

section \<open>One round of the main loop\<close>

text \<open>The epoch is that of the start, or the next one and the agreement is idle.\<close>

definition at_most_next :: "u64 \<Rightarrow> 'db core \<Rightarrow> bool" where
  "at_most_next e s \<longleftrightarrow> epoch s = e \<or> (epoch s = e + 1 \<and> agreement_idle s)"

interpretation next_blind: chain_blind "at_most_next e" for e
  by unfold_locales (simp_all add: at_most_next_def agreement_idle_def)

lemma next_epoch_leads:
  "leads (\<lambda>sc. epoch (fst sc) = e) (next_epoch env h) (\<lambda>sc. at_most_next e (fst sc))"
proof -
  let ?P = "\<lambda>sc. epoch (fst sc) = e" and ?Q = "\<lambda>sc. at_most_next e (fst sc)"
  have merge: "bind (on_core (modify f)) (\<lambda>_. bind (modify_chain g) (\<lambda>_. bind (on_core (modify h)) k))
      = bind (\<lambda>(s, c). (Ok (), (h (f s), g c))) k"
    for f h :: "'a core \<Rightarrow> 'a core" and g and k :: "unit \<Rightarrow> ('a, unit) chain_act"
    by (auto simp: fun_eq_iff act_defs on_core_def modify_chain_def)
  have weaker: "?P sc \<Longrightarrow> ?Q sc" for sc
    by (simp add: at_most_next_def)
  have reset: "leads ?P (\<lambda>(s, c). (Ok (), (reset_epoch (s\<lparr>epoch := epoch s + 1\<rparr>), g c))) ?Q" for g :: "chain \<Rightarrow> chain"
    by (auto simp: leads_def at_most_next_def reset_epoch_def agreement_idle_def)
  have rest: "pres ?Q (bind (gets id) (\<lambda>(s, c). whenever (ch_name c = name s)
      (bind (generate_proposal env True) (\<lambda>b. broadcast_propose env (handle_vote env) b))))"
    by (intro pres_rules next_blind.generate_proposal next_blind.broadcast_propose next_blind.handle_vote)
  have get: "pres ?P (gets id)" "pres ?P (on_core (get_block env k d None))" "pres ?P (commit env b)" for k d b
    by (intro pres_rules epoch_blind.on_core epoch_blind.core_methods epoch_blind.commit)+
  have stop: "leads ?P (ret x) ?Q" for x :: unit
    by (rule leads_same [OF pres_ret weaker])
  show ?thesis
    unfolding next_epoch_def merge
    by (intro leads_before [OF get(1) weaker] leads_case_prod leads_case_option stop
        leads_before [OF get(2) weaker] leads_before [OF get(3) weaker] leads_after [OF reset] rest)
qed

lemma update_aba_phase_leads:
  "leads (\<lambda>sc. epoch (fst sc) = e) (update_aba_phase env) (\<lambda>sc. at_most_next e (fst sc))"
proof -
  let ?P = "\<lambda>sc. epoch (fst sc) = e" and ?Q = "\<lambda>sc. at_most_next e (fst sc)"
  have weaker: "?P sc \<Longrightarrow> ?Q sc" for sc
    by (simp add: at_most_next_def)
  have parts: "pres ?P (gets f)" "pres ?P (on_core (process_aba_phase env))"
    "pres ?P (on_core (modify (\<lambda>s. enter_coin_phase (enter_aux_phase (enter_val_phase s)))))" for f :: "'a core \<times> chain \<Rightarrow> 'b"
    by (intro pres_rules epoch_blind.on_core epoch_free.process_aba_phase pres_modify;
        simp add: enter_val_phase_def enter_aux_phase_def enter_coin_phase_def Let_def)+
  show ?thesis
    unfolding update_aba_phase_def
    by (intro leads_before [OF pres_gets weaker] leads_if leads_case_option leads_same [OF pres_ret weaker]
        leads_before [OF parts(3) weaker] leads_same [OF parts(2) weaker] next_epoch_leads)
qed


lemma leads_with_chain:
  assumes "leads (\<lambda>sc. epoch (fst sc) = e) m (\<lambda>sc. at_most_next e (fst sc))"
  shows "leads (\<lambda>s. epoch s = e) (with_chain k m) (at_most_next e)"
proof (unfold leads_def, intro allI impI)
  fix s :: "'a core"
  assume e: "epoch s = e"
  show "at_most_next e (snd (with_chain k m s))"
  proof (cases "map_of (pubkey_to_chain s) k")
    case None
    then show ?thesis using e by (simp add: with_chain_def at_most_next_def)
  next
    case (Some c)
    obtain r s' c' where m: "m (s, c) = (r, (s', c'))"
      by (cases "m (s, c)") auto
    have "at_most_next e s'"
      using assms e m unfolding leads_def by (metis fst_conv snd_conv)
    then show ?thesis
      using Some m by (simp add: with_chain_def next_blind.set_chain)
  qed
qed

lemma leads_ignore_err: "leads P m Q \<Longrightarrow> leads P (ignore_err m) Q"
  by (auto simp: leads_def ignore_err_def split: prod.split)

lemma check_timeout_next: "pres (\<lambda>sc. at_most_next e (fst sc)) (check_timeout env)"
proof -
  have keep: "at_most_next e (if b then s\<lparr>is_view_change := x\<rparr> else s) = at_most_next e s"
    "at_most_next e (s\<lparr>is_view_change := x\<rparr>) = at_most_next e s"
    "at_most_next e (s\<lparr>tc_cache := tcs\<rparr>) = at_most_next e s" for b x s tcs
    by (simp_all add: at_most_next_def agreement_idle_def)
  have "pres (\<lambda>sc. at_most_next e (fst sc)) (handle_timeout env t)" for t
    unfolding handle_timeout_def
    by (intro pres_rules next_blind.process_qc next_blind.aggregate next_blind.on_core pres_modify;
        simp add: keep)
  then show ?thesis
    unfolding check_timeout_def local_timeout_round_def increase_last_voted_round_def Let_def
    by (intro pres_rules next_blind.on_core next_blind.modify_chain next_blind.core_methods pres_modify;
        simp add: keep)
qed

lemma core_round_leads:
  assumes "pres (\<lambda>s. epoch s = e) h"
  shows "leads (\<lambda>s. epoch s = e) (core_round env h) (at_most_next e)"
proof -
  let ?P = "\<lambda>s. epoch s = e"
  have weaker: "?P s \<Longrightarrow> at_most_next e s" for s
    by (simp add: at_most_next_def)
  have count: "pres ?P (modify (\<lambda>s. s\<lparr>total_epoch := total_epoch s + 1\<rparr>))" "pres ?P (ignore_err h)"
    using assms by (intro pres_rules pres_modify; simp)+
  have timeout: "pres (at_most_next e) (bind (gets epoch) (\<lambda>ep. bind (leader_of ep) (\<lambda>leader.
      ignore_err (with_chain leader (check_timeout env)))))"
    by (intro pres_rules next_blind.with_chain check_timeout_next)
  show ?thesis
    unfolding core_round_def after_message_def
    by (intro leads_before [OF count(1) weaker] leads_before [OF pres_gets weaker]
        leads_before [OF pres_leader_of weaker] leads_before [OF count(2) weaker]
        leads_after [OF leads_ignore_err [OF leads_with_chain [OF update_aba_phase_leads]]] timeout)
qed

lemma core_step_next: "at_most_next (epoch s) (snd (core_step env ev s))"
proof -
  have round: "at_most_next (epoch s) (snd (core_round env h s))" if "pres (\<lambda>t. epoch t = epoch s) h" for h
    using core_round_leads [OF that, of env] by (simp add: leads_def)
  show ?thesis
  proof (cases ev)
    case (CoreMsg m)
    then show ?thesis by (simp add: round epoch_blind.handle_core_message)
  next
    case (SmvbaMsg m)
    then show ?thesis by (simp add: round epoch_free.handle_smvba_message)
  next
    case (StoreWritten k v)
    then show ?thesis by (simp add: modify_def at_most_next_def)
  qed
qed

text \<open>
  C10. One round of the main loop, on any event and from any state, leaves the epoch as it is
  or raises it by one (modulo 2^64); in the second case the agreement stands as in a fresh
  core: INIT_PHASE, first round, no values, no input, no output, no processed certificate.
\<close>

lemma epoch_steps:
  "epoch (snd (core_step env ev s)) = epoch s \<or>
   (epoch (snd (core_step env ev s)) = epoch s + 1 \<and> agreement_idle (snd (core_step env ev s)))"
  using core_step_next [of s env ev] by (simp add: at_most_next_def)

end
