(* ===== verification/Certificates.thy ===== *)
theory Certificates
  imports Aggregator Example_Setup "HOL-Library.Multiset"
begin

text \<open>
  What a certificate is worth: the thresholds as numbers, how two quorums overlap, exactly when
  certificates verify, and what comes out of the makers of
  \<^verbatim>\<open>consensus/src/aggregator.rs\<close>.
\<close>

section \<open>Thresholds and the leader\<close>

text \<open>
  In a committee whose total stake is 3f+1, any two lists of voters that the certificate
  checks accept share authorities of more than f stake.
\<close>

lemma quorums_overlap:
  assumes "committee_ok c" and "stakes_fit c" and "total_stake c mod 3 = 1"
    and "is_quorum c ks" and "is_quorum c ks'"
  shows "(total_stake c - 1) div 3 < weight_of c (set ks \<inter> set ks')"
proof -
  have "2 * unat (quorum_threshold c) \<le> weight_of c (set ks \<inter> set ks') + total_stake c"
    using assms(4,5) by (intro quorum_overlap [OF assms(1)]) (simp_all add: is_quorum_def)
  then show ?thesis
    using quorum_weight [OF assms(2,3)] by linarith
qed

lemma example_quorum: "quorum_threshold example_committee = 3"
  by (simp add: quorum_threshold_def total_votes_def example_authorities)

lemma example_weight: "weight_of example_committee A = card (A \<inter> PublicKey ` {1, 2, 3, 4})"
proof -
  have "set (members example_committee) = PublicKey ` {1, 2, 3, 4}"
    by simp
  moreover have "(\<Sum>k \<in> A \<inter> PublicKey ` {1, 2, 3, 4}. unat (stake example_committee k)) = card (A \<inter> PublicKey ` {1, 2, 3, 4})"
    unfolding card_eq_sum by (rule sum.cong) (auto simp: example_stake)
  ultimately show ?thesis
    by (simp add: weight_of_def)
qed

lemma example_is_quorum: "is_quorum example_committee [PublicKey 1, PublicKey 2, PublicKey 3]"
  "is_quorum example_committee [PublicKey 2, PublicKey 3, PublicKey 4]"
  by (simp_all add: is_quorum_def example_stake example_weight example_quorum)

lemma quorums_overlap_witness:
  "1 < weight_of example_committee (set [PublicKey 1, PublicKey 2, PublicKey 3] \<inter> set [PublicKey 2, PublicKey 3, PublicKey 4])"
  using quorums_overlap [OF example_ok(1,2) _ example_is_quorum] by simp

text \<open>Six authorities with one stake each.\<close>

definition six :: committee where
  "six = committee_new (map (\<lambda>i. (PublicKey i, ucast i, 1, V4 0 0, V4 0 1)) [1, 2, 3, 4, 5, 6]) 1"

text \<open>
  In a committee of six authorities with one stake each, two disjoint sets of three both
  reach the quorum threshold, which is below N-f.
\<close>

lemma disjoint_quorums_of_six:
  "is_quorum six [PublicKey 1, PublicKey 2, PublicKey 3] \<and> is_quorum six [PublicKey 4, PublicKey 5, PublicKey 6] \<and>
   unat (quorum_threshold six) < total_stake six - (total_stake six - 1) div 3"
  by (simp add: is_quorum_def six_def committee_new_def stake_def weight_of_def members_def quorum_threshold_def
      total_votes_def total_stake_def)

lemma mset_rotation: "mset (rotate n xs) = mset xs"
proof (induction n)
  case (Suc n)
  have "mset (rotate1 ys) = mset ys" for ys :: "'a list"
    by (cases ys) simp_all
  with Suc show ?case by simp
qed simp

text \<open>
  Over as many consecutive epochs as there are authorities, get_leader names every
  authority exactly once, as long as the epoch counter does not wrap.
\<close>

lemma leader_round_robin:
  assumes "unat ep + committee_size c \<le> 2 ^ 64"
  shows "mset (map (\<lambda>i. get_leader c (ep + of_nat i)) [0..<committee_size c]) = mset (map Some (members c))"
proof -
  let ?n = "committee_size c" and ?xs = "sort (members c)"
  have len: "length ?xs = ?n"
    by (simp add: members_def committee_size_def)
  have "map (\<lambda>i. get_leader c (ep + of_nat i)) [0..<?n] = map Some (rotate (unat ep) ?xs)"
  proof (rule nth_equalityI)
    fix i assume i: "i < length (map (\<lambda>i. get_leader c (ep + of_nat i)) [0..<?n])"
    then have "unat (ep + of_nat i) = unat ep + i"
      using assms by (simp add: unat_word_ariths unat_of_nat)
    then show "map (\<lambda>i. get_leader c (ep + of_nat i)) [0..<?n] ! i = map Some (rotate (unat ep) ?xs) ! i"
      using i len by (simp add: get_leader_def nth_rotate)
  qed (simp add: members_def committee_size_def)
  then show ?thesis
    by (simp only: mset_map mset_rotation mset_sort)
qed

lemma leader_round_robin_witness:
  "mset (map (\<lambda>i. get_leader example_committee (6 + of_nat i)) [0..<4]) = mset (map Some (map PublicKey [1, 2, 3, 4]))"
proof -
  have size: "committee_size example_committee = 4"
    by (simp add: committee_size_def example_authorities)
  show ?thesis
    by (rule leader_round_robin [of 6 example_committee, unfolded size example_members]) simp
qed


section \<open>Exactly when a certificate verifies\<close>

text \<open>
  QC::verify accepts a certificate exactly if its voters are distinct authorities with
  stake that hold a quorum, every signature and key parses, and batch verification accepts the
  signatures on the digest of the certificate.
\<close>

lemma qc_verify_exact:
  assumes "committee_ok c" and "stakes_fit c"
  shows "qc_verify cr c q = Inr () \<longleftrightarrow>
    distinct (map fst (qc_votes q)) \<and> (\<forall>k \<in> fst ` set (qc_votes q). 0 < stake c k) \<and>
    unat (quorum_threshold c) \<le> weight_of c (fst ` set (qc_votes q)) \<and>
    (\<forall>(k, s) \<in> set (qc_votes q). sig_from_bytes cr (flatten s) \<and> pk_from_bytes cr (key_bits k)) \<and>
    dalek_verify_batch cr (map (\<lambda>_. digest_bits (qc_digest cr q)) (qc_votes q))
      (map (flatten \<circ> snd) (qc_votes q)) (map (key_bits \<circ> fst) (qc_votes q))"
  unfolding qc_verify_Inr [OF assms] is_quorum_def verify_batch_Inr by auto

definition example_qc :: "digest \<Rightarrow> public_key list \<Rightarrow> qc" where
  "example_qc d ks = \<lparr>qc_hash = d, qc_epoch = 0, qc_height = 1, qc_proposer = PublicKey 1,
     qc_votes = map (\<lambda>k. (k, default_signature)) ks\<rparr>"

lemma qc_verify_exact_witness:
  "qc_verify example_primitives example_committee (example_qc (Digest 5) [PublicKey 1, PublicKey 2, PublicKey 3]) = Inr () \<and>
   qc_verify example_primitives example_committee (example_qc (Digest 5) [PublicKey 1, PublicKey 2]) \<noteq> Inr ()"
  by (simp add: qc_verify_exact example_qc_def example_stake example_weight example_quorum example_primitives_def)

text \<open>
  TC::verify accepts a certificate exactly if its voters are distinct authorities with
  stake that hold a quorum and each signature is valid for the digest of any timeout of the
  certificate's epoch whose high certificate has the height listed with the voter.
\<close>

lemma tc_verify_exact:
  assumes "committee_ok c" and "stakes_fit c"
  shows "tc_verify cr c t = Inr () \<longleftrightarrow>
    distinct (map fst (tc_votes t)) \<and> (\<forall>k \<in> fst ` set (tc_votes t). 0 < stake c k) \<and>
    unat (quorum_threshold c) \<le> weight_of c (fst ` set (tc_votes t)) \<and>
    (\<forall>(k, s, h) \<in> set (tc_votes t). \<forall>m. t_epoch m = tc_epoch t \<longrightarrow> qc_height (t_high_qc m) = h \<longrightarrow>
       signature_verify cr s (timeout_digest cr m) k = Inr ())"
proof -
  have "(\<forall>m. t_epoch m = tc_epoch t \<longrightarrow> qc_height (t_high_qc m) = h \<longrightarrow>
       signature_verify cr s (timeout_digest cr m) k = Inr ()) \<longleftrightarrow>
     signature_verify cr s (finalize32 cr (timeout_preimage (tc_epoch t) h)) k = Inr ()" for k s h
  proof
    assume all: "\<forall>m. t_epoch m = tc_epoch t \<longrightarrow> qc_height (t_high_qc m) = h \<longrightarrow>
       signature_verify cr s (timeout_digest cr m) k = Inr ()"
    define m where "m = \<lparr>t_high_qc = qc_genesis\<lparr>qc_height := h\<rparr>, t_epoch = tc_epoch t,
      t_author = k, t_signature = s\<rparr>"
    show "signature_verify cr s (finalize32 cr (timeout_preimage (tc_epoch t) h)) k = Inr ()"
      using all [rule_format, of m] by (simp add: m_def timeout_digest_def)
  qed (simp add: timeout_digest_def)
  then show ?thesis
    unfolding tc_verify_Inr [OF assms] is_quorum_def by auto
qed


lemma tc_verify_exact_witness:
  "tc_verify example_primitives example_committee
     \<lparr>tc_epoch = 0, tc_votes = map (\<lambda>i. (PublicKey i, default_signature, 4)) [1, 2, 3]\<rparr> = Inr () \<and>
   tc_verify example_primitives example_committee
     \<lparr>tc_epoch = 0, tc_votes = map (\<lambda>i. (PublicKey i, default_signature, 4)) [1, 2, 2]\<rparr> \<noteq> Inr ()"
  by (simp add: tc_verify_exact example_stake example_weight example_quorum signature_verify_def example_primitives_def)

section \<open>What comes out of the makers\<close>

text \<open>
  C9. A fresh QCMaker fed any sequence of votes hands out a certificate exactly if the authors
  seen hold a quorum; with a total stake of 3f+1 it hands out at most one; and the signers of
  a certificate are distinct authors of those votes and hold a quorum.
\<close>

lemma qc_maker_certificates:
  assumes "committee_ok c" and "stakes_fit c"
    and "feed qc_maker_append c vs qc_maker_new = (certs, m)"
  shows "(certs \<noteq> [] \<longleftrightarrow> unat (quorum_threshold c) \<le> weight_of c (v_author ` set vs)) \<and>
    (total_stake c mod 3 = 1 \<longrightarrow> length certs \<le> 1) \<and>
    (\<forall>q \<in> set certs. distinct (map fst (qc_votes q)) \<and> fst ` set (qc_votes q) \<subseteq> v_author ` set vs \<and>
       unat (quorum_threshold c) \<le> weight_of c (fst ` set (qc_votes q)))"
  using qcm.full_certificates [OF assms] by simp

definition example_vote :: "256 word \<Rightarrow> digest \<Rightarrow> vote" where
  "example_vote i d = \<lparr>v_hash = d, v_epoch = 0, v_height = 1, v_author = PublicKey i,
     v_proposer = PublicKey 1, v_signature = default_signature\<rparr>"

lemma qc_maker_certificates_witness:
  "\<exists>q m. feed qc_maker_append example_committee (map (\<lambda>i. example_vote i (Digest 9)) [1, 2, 2, 3, 4]) qc_maker_new = ([q], m)"
proof -
  obtain certs m where fd: "feed qc_maker_append example_committee (map (\<lambda>i. example_vote i (Digest 9)) [1, 2, 2, 3, 4])
      qc_maker_new = (certs, m)"
    by (metis prod.collapse)
  have "weight_of example_committee (v_author ` set (map (\<lambda>i. example_vote i (Digest 9)) [1, 2, 2, 3, 4])) = 4"
    by (simp add: example_weight example_vote_def)
  then have "certs \<noteq> []" "length certs \<le> 1"
    using qc_maker_certificates [OF example_ok(1,2) fd] by (simp_all add: example_quorum)
  then obtain q where "certs = [q]"
    by (cases certs) auto
  with fd show ?thesis by blast
qed

text \<open>
  A fresh TCMaker fed any sequence of timeouts hands out a certificate exactly if the
  authors seen hold a quorum; with a total stake of 3f+1 it hands out at most one; and the
  signers of a certificate are distinct authors of those timeouts and hold a quorum.
\<close>

lemma tc_maker_certificates:
  assumes "committee_ok c" and "stakes_fit c"
    and "feed tc_maker_append c ts tc_maker_new = (certs, m)"
  shows "(certs \<noteq> [] \<longleftrightarrow> unat (quorum_threshold c) \<le> weight_of c (t_author ` set ts)) \<and>
    (total_stake c mod 3 = 1 \<longrightarrow> length certs \<le> 1) \<and>
    (\<forall>t \<in> set certs. distinct (map fst (tc_votes t)) \<and> fst ` set (tc_votes t) \<subseteq> t_author ` set ts \<and>
       unat (quorum_threshold c) \<le> weight_of c (fst ` set (tc_votes t)))"
  using tcm.full_certificates [OF assms] by simp

text \<open>
  A fresh ABAProofMaker fed any sequence of agreement values hands out a proof of a full
  quorum exactly if the authors seen hold a quorum; with a total stake of 3f+1 it hands out at
  most one such proof; and its signers are distinct authors of those values and hold a quorum.
\<close>

lemma aba_proof_maker_certificates:
  assumes "committee_ok c" and "stakes_fit c"
    and "feed aba_proof_maker_append c vs aba_proof_maker_new = (proofs, m)"
  shows "((\<exists>p \<in> set proofs. \<not> ap_tag p) \<longleftrightarrow> unat (quorum_threshold c) \<le> weight_of c (av_author ` set vs)) \<and>
    (total_stake c mod 3 = 1 \<longrightarrow> length (filter (\<lambda>p. \<not> ap_tag p) proofs) \<le> 1) \<and>
    (\<forall>p \<in> set proofs. \<not> ap_tag p \<longrightarrow> distinct (map fst (ap_votes p)) \<and> fst ` set (ap_votes p) \<subseteq> av_author ` set vs \<and>
       unat (quorum_threshold c) \<le> weight_of c (fst ` set (ap_votes p)))"
  using apm.full_certificates [OF assms] by (simp add: filter_empty_conv)


definition example_timeout :: "256 word \<Rightarrow> timeout" where
  "example_timeout i = \<lparr>t_high_qc = qc_genesis, t_epoch = 0, t_author = PublicKey i, t_signature = default_signature\<rparr>"

lemma tc_maker_certificates_witness:
  "\<exists>t m. feed tc_maker_append example_committee (map example_timeout [1, 2, 2, 3, 4]) tc_maker_new = ([t], m)"
proof -
  obtain certs m where fd: "feed tc_maker_append example_committee (map example_timeout [1, 2, 2, 3, 4]) tc_maker_new = (certs, m)"
    by (metis prod.collapse)
  have "weight_of example_committee (t_author ` set (map example_timeout [1, 2, 2, 3, 4])) = 4"
    by (simp add: example_weight example_timeout_def)
  then have "certs \<noteq> []" "length certs \<le> 1"
    using tc_maker_certificates [OF example_ok(1,2) fd] by (simp_all add: example_quorum)
  then obtain t where "certs = [t]"
    by (cases certs) auto
  with fd show ?thesis by blast
qed

definition example_aba_val :: "256 word \<Rightarrow> aba_val" where
  "example_aba_val i = \<lparr>av_author = PublicKey i, av_epoch = 0, av_round = 1, av_phase = VAL_PHASE,
     av_val = 5, av_signature = default_signature\<rparr>"

lemma aba_proof_maker_certificates_witness:
  "\<exists>p. filter (\<lambda>p. \<not> ap_tag p) (fst (feed aba_proof_maker_append example_committee
     (map example_aba_val [1, 2, 3, 4]) aba_proof_maker_new)) = [p]"
proof -
  obtain proofs m where fd: "feed aba_proof_maker_append example_committee (map example_aba_val [1, 2, 3, 4])
      aba_proof_maker_new = (proofs, m)"
    by (metis prod.collapse)
  have "weight_of example_committee (av_author ` set (map example_aba_val [1, 2, 3, 4])) = 4"
    by (simp add: example_weight example_aba_val_def)
  then have "filter (\<lambda>p. \<not> ap_tag p) proofs \<noteq> []" "length (filter (\<lambda>p. \<not> ap_tag p) proofs) \<le> 1"
    using aba_proof_maker_certificates [OF example_ok(1,2) fd] by (simp_all add: example_quorum filter_empty_conv)
  then obtain p where "filter (\<lambda>p. \<not> ap_tag p) proofs = [p]"
    by (cases "filter (\<lambda>p. \<not> ap_tag p) proofs") auto
  with fd show ?thesis by auto
qed

section \<open>Assembled certificates verify\<close>

lemma qc_maker_contents:
  assumes "feed qc_maker_append c vs m = (certs, m')" and "q \<in> set certs"
  shows "set (qc_votes q) \<subseteq> set (qm_votes m) \<union> (\<lambda>v. (v_author v, v_signature v)) ` set vs \<and>
    (\<exists>v \<in> set vs. qc_hash q = v_hash v \<and> qc_epoch q = v_epoch v \<and> qc_height q = v_height v \<and>
       qc_proposer q = v_proposer v)"
  using assms
proof (induction vs arbitrary: m certs)
  case Nil
  then show ?case by simp
next
  case (Cons v vs)
  obtain r m1 where app: "qc_maker_append v c m = (r, m1)"
    by (cases "qc_maker_append v c m")
  obtain cs where rest: "feed qc_maker_append c vs m1 = (cs, m')"
    using Cons.prems(1) app by (auto split: prod.splits)
  have certs: "certs = (case r of Inr (Some x) \<Rightarrow> x # cs | _ \<Rightarrow> cs)"
    using Cons.prems(1) app rest by auto
  have votes: "set (qm_votes m1) \<subseteq> insert (v_author v, v_signature v) (set (qm_votes m))"
    using app by (auto simp: qc_maker_append_def Let_def split: if_splits)
  show ?case
  proof (cases "r = Inr (Some q)")
    case True
    then show ?thesis
      using app by (auto simp: qc_maker_append_def Let_def split: if_splits)
  next
    case False
    then have "q \<in> set cs"
      using Cons.prems(2) certs by (auto split: sum.splits option.splits)
    from Cons.IH [OF rest this] votes show ?thesis by auto
  qed
qed

text \<open>
  C23. A certificate a QCMaker assembles from votes that agree on block, epoch, height and
  proposer and that each pass Vote::verify passes QC::verify, provided batch verification
  accepts signatures that are valid one by one.
\<close>

lemma assembled_qc_verifies:
  assumes "committee_ok c" and "stakes_fit c"
    and batch: "\<And>v votes. v \<in> set vs \<Longrightarrow> \<forall>(k, s) \<in> set votes. signature_verify cr s (vote_digest cr v) k = Inr () \<Longrightarrow>
      verify_batch cr (vote_digest cr v) votes = Inr ()"
    and same: "\<And>v. v \<in> set vs \<Longrightarrow> v_hash v = d \<and> v_epoch v = ep \<and> v_height v = h \<and> v_proposer v = p"
    and verified: "\<And>v. v \<in> set vs \<Longrightarrow> vote_verify cr c v = Inr ()"
    and "feed qc_maker_append c vs qc_maker_new = (certs, m)" and "q \<in> set certs"
  shows "qc_verify cr c q = Inr ()"
proof -
  have digest: "vote_digest cr v = qc_digest cr q" if "v \<in> set vs" for v
    using qc_maker_contents [OF assms(6,7)] same that by (auto simp: vote_digest_def qc_digest_def)
  obtain v where v: "v \<in> set vs"
    using qc_maker_contents [OF assms(6,7)] by blast
  have votes: "set (qc_votes q) \<subseteq> (\<lambda>v. (v_author v, v_signature v)) ` set vs"
    using qc_maker_contents [OF assms(6,7)] by (simp add: qc_maker_new_def)
  have ok: "0 < stake c (v_author v) \<and> signature_verify cr (v_signature v) (vote_digest cr v) (v_author v) = Inr ()"
    if "v \<in> set vs" for v
    using verified [OF that] by (auto simp: vote_verify_def rbind_eq_Inr from_crypto_def split: sum.splits)
  have "verify_batch cr (qc_digest cr q) (qc_votes q) = Inr ()"
    using batch [OF v, of "qc_votes q"] votes ok digest unfolding digest [OF v] by fastforce
  moreover have "is_quorum c (map fst (qc_votes q))"
    using qcm.full_certificates [OF assms(1,2,6)] assms(7) votes ok by (fastforce simp: is_quorum_def)
  ultimately show ?thesis
    by (simp add: qc_verify_Inr [OF assms(1,2)])
qed


lemma example_feed:
  "feed qc_maker_append example_committee (map (\<lambda>i. example_vote i (Digest 9)) [1, 2, 3]) qc_maker_new
     = ([example_qc (Digest 9) (map PublicKey [1, 2, 3])],
        \<lparr>qm_weight = 0, qm_votes = map (\<lambda>i. (PublicKey i, default_signature)) [1, 2, 3],
         qm_used = PublicKey ` {1, 2, 3}\<rparr>)"
  by (auto simp: qc_maker_append_def qc_maker_new_def example_vote_def example_qc_def example_quorum
      example_stake Let_def word_le_nat_alt)

lemma assembled_qc_verifies_witness:
  "qc_verify example_primitives example_committee (example_qc (Digest 9) (map PublicKey [1, 2, 3])) = Inr ()"
  by (rule assembled_qc_verifies [OF example_ok(1,2) _ _ _ example_feed, of _ "Digest 9" 0 1 "PublicKey 1"])
    (auto simp: example_vote_def vote_verify_def example_stake verify_batch_Inr signature_verify_def
      example_primitives_def from_crypto_def)

lemma feed_append:
  "feed app c (vs @ vs') m = (case feed app c vs m of (cs, m1) \<Rightarrow> case feed app c vs' m1 of (cs', m2) \<Rightarrow> (cs @ cs', m2))"
  by (induction vs arbitrary: m) (auto split: prod.split sum.split option.split)

text \<open>A maker that has seen less than a quorum holds the signatures of all its votes.\<close>

lemma feed_below_quorum:
  assumes "committee_ok c" and "stakes_fit c"
  shows "distinct (map v_author vs) \<Longrightarrow> weight_of c (v_author ` set vs) < unat (quorum_threshold c) \<Longrightarrow>
    \<exists>m. feed qc_maker_append c vs qc_maker_new = ([], m) \<and> unat (qm_weight m) = weight_of c (v_author ` set vs)
      \<and> qm_votes m = map (\<lambda>v. (v_author v, v_signature v)) vs \<and> qm_used m = v_author ` set vs"
proof (induction vs rule: rev_induct)
  case (snoc v vs)
  have split: "weight_of c (v_author ` set (vs @ [v])) = unat (stake c (v_author v)) + weight_of c (v_author ` set vs)"
    using snoc.prems(1) weight_of_insert [of "v_author v" "v_author ` set vs" c] by auto
  with snoc obtain m where m: "feed qc_maker_append c vs qc_maker_new = ([], m)"
    "unat (qm_weight m) = weight_of c (v_author ` set vs)"
    "qm_votes m = map (\<lambda>v. (v_author v, v_signature v)) vs" "qm_used m = v_author ` set vs"
    by auto
  have "weight_of c (v_author ` set (vs @ [v])) < 2 ^ 32"
    using weight_of_le_total [OF assms(1)] assms(2) unfolding stakes_fit_def by (meson le_less_trans)
  then have "unat (qm_weight m + stake c (v_author v)) = weight_of c (v_author ` set (vs @ [v]))"
    unfolding split by (simp add: m(2) unat_word_ariths)
  moreover from this snoc.prems(2) have "\<not> quorum_threshold c \<le> qm_weight m + stake c (v_author v)"
    by (simp add: word_le_nat_alt)
  moreover have "v_author v \<notin> qm_used m"
    using snoc.prems(1) by (auto simp: m(4))
  ultimately have "qc_maker_append v c m = (Inr None, m\<lparr>qm_used := insert (v_author v) (qm_used m),
      qm_votes := qm_votes m @ [(v_author v, v_signature v)], qm_weight := qm_weight m + stake c (v_author v)\<rparr>)"
    and "unat (qm_weight m + stake c (v_author v)) = weight_of c (v_author ` set (vs @ [v]))"
    by (simp_all add: qc_maker_append_def Let_def)
  then show ?case
    by (simp add: feed_append m(1,3,4))
qed (simp add: qc_maker_new_def weight_of_def)

text \<open>
  C29. A fresh QCMaker is fed votes of different authors that reach the quorum with the last
  one, and an earlier vote is for another block than the last: it hands out one certificate,
  for the block of the last vote and with the signature for the other block in it, which does
  not pass QC::verify, provided batch verification refuses every batch in which that signature
  is offered for the digest of the last vote; the weight is back to 0, and none of the voters
  can vote again.
\<close>

lemma mixed_votes_do_not_verify:
  assumes "committee_ok c" and "stakes_fit c"
    and "distinct (map v_author (vs @ [v]))"
    and "weight_of c (v_author ` set vs) < unat (quorum_threshold c)"
    and "unat (quorum_threshold c) \<le> weight_of c (v_author ` set (vs @ [v]))"
    and "w \<in> set vs" and "v_hash w \<noteq> v_hash v"
    and refused: "\<And>votes. (v_author w, v_signature w) \<in> set votes \<Longrightarrow> verify_batch cr (vote_digest cr v) votes \<noteq> Inr ()"
  shows "\<exists>q m. feed qc_maker_append c (vs @ [v]) qc_maker_new = ([q], m)
    \<and> qc_hash q = v_hash v \<and> (v_author w, v_signature w) \<in> set (qc_votes q) \<and> qc_verify cr c q \<noteq> Inr ()
    \<and> qm_weight m = 0
    \<and> (\<forall>u x. u \<in> set (vs @ [v]) \<and> v_author x = v_author u \<longrightarrow>
         fst (qc_maker_append x c m) = Inl (AuthorityReuseinQC (v_author u)))"
proof -
  obtain m where m: "feed qc_maker_append c vs qc_maker_new = ([], m)"
    "unat (qm_weight m) = weight_of c (v_author ` set vs)"
    "qm_votes m = map (\<lambda>v. (v_author v, v_signature v)) vs" "qm_used m = v_author ` set vs"
    using feed_below_quorum [OF assms(1,2) _ assms(4)] assms(3) by auto
  have new: "v_author v \<notin> qm_used m"
    using assms(3) by (auto simp: m(4))
  have split: "weight_of c (v_author ` set (vs @ [v])) = unat (stake c (v_author v)) + weight_of c (v_author ` set vs)"
    using new weight_of_insert [of "v_author v" "v_author ` set vs" c] by (auto simp: m(4))
  have "weight_of c (v_author ` set (vs @ [v])) < 2 ^ 32"
    using weight_of_le_total [OF assms(1)] assms(2) unfolding stakes_fit_def by (meson le_less_trans)
  then have "quorum_threshold c \<le> qm_weight m + stake c (v_author v)"
    using assms(5) unfolding split by (simp add: m(2) unat_word_ariths word_le_nat_alt)
  define q where "q = \<lparr>qc_hash = v_hash v, qc_epoch = v_epoch v, qc_height = v_height v, qc_proposer = v_proposer v,
    qc_votes = qm_votes m @ [(v_author v, v_signature v)]\<rparr>"
  define m' where "m' = m\<lparr>qm_used := insert (v_author v) (qm_used m), qm_votes := qm_votes m @ [(v_author v, v_signature v)],
    qm_weight := 0\<rparr>"
  have "feed qc_maker_append c (vs @ [v]) qc_maker_new = ([q], m')"
    using new \<open>quorum_threshold c \<le> qm_weight m + stake c (v_author v)\<close>
    by (simp add: feed_append m(1) qc_maker_append_def Let_def q_def m'_def)
  moreover have inside: "(v_author w, v_signature w) \<in> set (qc_votes q)"
    using assms(6) by (auto simp: q_def m(3))
  moreover have "qc_digest cr q = vote_digest cr v"
    by (simp add: qc_digest_def vote_digest_def q_def)
  with refused [OF inside] have "qc_verify cr c q \<noteq> Inr ()"
    by (auto simp: qc_verify_def rbind_eq_Inr from_crypto_def split: sum.splits)
  moreover have "fst (qc_maker_append x c m') = Inl (AuthorityReuseinQC (v_author u))"
    if "u \<in> set (vs @ [v]) \<and> v_author x = v_author u" for u x
    using that by (auto simp: qc_maker_append_def Let_def m'_def m(4))
  moreover have "qc_hash q = v_hash v" "qm_weight m' = 0"
    by (simp_all add: q_def m'_def)
  ultimately show ?thesis by blast
qed

text \<open>Primitives under which a signature is good for one digest only.\<close>

definition picky_primitives :: primitives where
  "picky_primitives = example_primitives\<lparr>sha512 := (\<lambda>bs. push_bit 256 (ucast (bs ! 31))),
     verify_strict := (\<lambda>k m s. s = ucast m), dalek_verify_batch := (\<lambda>ms ss ks. ss = map ucast ms)\<rparr>"

definition picky_vote :: "256 word \<Rightarrow> 256 word \<Rightarrow> vote" where
  "picky_vote i d = (example_vote i (Digest d))\<lparr>v_signature := Signature 0 d\<rparr>"

lemma mixed_votes_witness:
  "\<exists>q m. feed qc_maker_append example_committee [picky_vote 2 9, picky_vote 3 8, picky_vote 1 8] qc_maker_new = ([q], m) \<and>
     qc_verify picky_primitives example_committee q \<noteq> Inr ()"
proof -
  let ?vs = "[picky_vote 2 9, picky_vote 3 8]"
  have authors: "v_author ` set ?vs = {PublicKey 2, PublicKey 3}"
    "v_author ` set (?vs @ [picky_vote 1 8]) = {PublicKey 1, PublicKey 2, PublicKey 3}"
    by (auto simp: picky_vote_def example_vote_def)
  have "vote_preimage (Digest 8) 0 1 (PublicKey 1) ! 31 = 8"
    by (simp add: vote_preimage_def nth_append digest_to_vec_def be_bytes_def le_bytes_def rev_nth)
  then have "verify_batch picky_primitives (vote_digest picky_primitives (picky_vote 1 8)) votes \<noteq> Inr ()"
    if "(v_author (picky_vote 2 9), v_signature (picky_vote 2 9)) \<in> set votes" for votes
    using that by (auto simp: verify_batch_Inr vote_digest_def finalize32_def picky_primitives_def example_primitives_def
        picky_vote_def example_vote_def flatten_def intro!: bexI [of _ "(PublicKey 2, Signature 0 9)"])
  then have "\<exists>q m. feed qc_maker_append example_committee (?vs @ [picky_vote 1 8]) qc_maker_new = ([q], m)
      \<and> qc_hash q = v_hash (picky_vote 1 8)
      \<and> (v_author (picky_vote 2 9), v_signature (picky_vote 2 9)) \<in> set (qc_votes q)
      \<and> qc_verify picky_primitives example_committee q \<noteq> Inr () \<and> qm_weight m = 0
      \<and> (\<forall>u x. u \<in> set (?vs @ [picky_vote 1 8]) \<and> v_author x = v_author u \<longrightarrow>
           fst (qc_maker_append x example_committee m) = Inl (AuthorityReuseinQC (v_author u)))"
    by (intro mixed_votes_do_not_verify [OF example_ok(1,2), where w = "picky_vote 2 9"])
      (unfold authors, auto simp: picky_vote_def example_vote_def example_weight example_quorum)
  then show ?thesis by auto
qed


section \<open>The common coin\<close>

text \<open>A coin maker that is given verified shares one after the other, and the coins it tosses.\<close>

fun coin_feed :: "committee \<Rightarrow> public_key_set \<Rightarrow> randomness_share list \<Rightarrow> coin_maker \<Rightarrow> usize list \<times> coin_maker" where
  "coin_feed c pks [] m = ([], m)"
| "coin_feed c pks (sh # shs) m = (case coin_maker_append sh c pks m of (r, m1) \<Rightarrow>
     case coin_feed c pks shs m1 of (coins, m2) \<Rightarrow>
       (case r of Ok (Some x) \<Rightarrow> x # coins | _ \<Rightarrow> coins, m2))"

definition coin_account :: "committee \<Rightarrow> coin_maker \<Rightarrow> bool" where
  "coin_account c m \<longleftrightarrow> unat (cm_weight m) = weight_of c (cm_used m) \<and>
     (\<forall>sh \<in> set (cm_shares m). 0 < stake c (rs_author sh))"

lemma coin_append_used:
  "rs_author sh \<in> cm_used m \<Longrightarrow> coin_maker_append sh c pks m = (Err (AuthorityReuseinCoin (rs_author sh)), m)"
  by (simp add: coin_maker_append_def act_defs)

lemma coin_append_new:
  assumes wf: "committee_ok c" "stakes_fit c" and acc: "coin_account c m" and pos: "0 < stake c (rs_author sh)"
    and app: "coin_maker_append sh c pks m = (r, m')" and new: "rs_author sh \<notin> cm_used m"
  shows "coin_account c m'" "cm_used m' = insert (rs_author sh) (cm_used m)"
    "unat (cm_weight m') = unat (cm_weight m) + unat (stake c (rs_author sh))"
    "cm_weight m' \<noteq> random_coin_threshold c \<Longrightarrow> r = Ok None"
    "cm_weight m' = random_coin_threshold c \<Longrightarrow> \<forall>sigs. combine_signatures pks sigs \<noteq> None \<Longrightarrow> \<exists>x. r = Ok (Some x)"
proof -
  have ins: "weight_of c (insert (rs_author sh) (cm_used m)) = unat (stake c (rs_author sh)) + weight_of c (cm_used m)"
    using new by (rule weight_of_insert)
  have "weight_of c (insert (rs_author sh) (cm_used m)) < 2 ^ 32"
    using weight_of_le_total [OF wf(1)] wf(2) unfolding stakes_fit_def by (meson le_less_trans)
  then have add: "unat (cm_weight m + stake c (rs_author sh)) = unat (cm_weight m) + unat (stake c (rs_author sh))"
    using ins acc by (simp add: coin_account_def unat_word_ariths)
  have "\<forall>x \<in> set (cm_shares m @ [sh]). 0 < stake c (rs_author x)"
    using acc pos by (auto simp: coin_account_def)
  then obtain sigs where sigs: "coin_sigs c (cm_shares m @ [sh]) Map.empty = Some sigs"
    using coin_sigs_Some by blast
  have m': "m' = m\<lparr>cm_used := insert (rs_author sh) (cm_used m), cm_shares := cm_shares m @ [sh],
      cm_weight := cm_weight m + stake c (rs_author sh)\<rparr>"
    using app new sigs by (auto simp: coin_maker_append_def act_defs split: option.splits if_splits)
  show "coin_account c m'" "cm_used m' = insert (rs_author sh) (cm_used m)"
    "unat (cm_weight m') = unat (cm_weight m) + unat (stake c (rs_author sh))"
    using acc pos ins add by (auto simp: m' coin_account_def)
  show "cm_weight m' \<noteq> random_coin_threshold c \<Longrightarrow> r = Ok None"
    using app new sigs by (auto simp: m' coin_maker_append_def act_defs split: option.splits if_splits)
  show "\<exists>x. r = Ok (Some x)"
    if hit: "cm_weight m' = random_coin_threshold c" and combines: "\<forall>sigs. combine_signatures pks sigs \<noteq> None"
  proof -
    obtain sig where "combine_signatures pks sigs = Some sig"
      using combines by blast
    with hit app new sigs show ?thesis
      by (auto simp: m' coin_maker_append_def act_defs split: if_splits)
  qed
qed

lemma coin_range:
  "coin_maker_append sh c pks m = (Ok (Some x), m') \<Longrightarrow> x = 0 \<or> x = 1"
proof -
  assume "coin_maker_append sh c pks m = (Ok (Some x), m')"
  then obtain w :: u64 where "x = w mod 2"
    by (auto simp: coin_maker_append_def act_defs split: option.splits if_splits)
  then have "x = of_bool (odd w)"
    by (simp add: mod_2_eq_odd)
  then show "x = 0 \<or> x = 1" by (cases "odd w") auto
qed

lemma coin_feed_once:
  assumes wf: "committee_ok c" "stakes_fit c"
    and "coin_account c m" and "\<forall>sh \<in> set shs. 0 < stake c (rs_author sh)"
    and "coin_feed c pks shs m = (coins, m')"
  shows "length coins \<le> 1 \<and> set coins \<subseteq> {0, 1} \<and>
    (unat (random_coin_threshold c) \<le> unat (cm_weight m) \<longrightarrow> coins = []) \<and>
    (unat (cm_weight m) < unat (random_coin_threshold c) \<longrightarrow> (\<forall>sh \<in> set shs. stake c (rs_author sh) = 1) \<longrightarrow>
       (\<forall>sigs. combine_signatures pks sigs \<noteq> None) \<longrightarrow>
       unat (random_coin_threshold c) \<le> weight_of c (cm_used m \<union> rs_author ` set shs) \<longrightarrow> coins \<noteq> [])"
  using assms(3-5)
proof (induction shs arbitrary: m coins)
  case Nil
  then show ?case by (simp add: coin_account_def)
next
  case (Cons sh shs)
  obtain r m1 where app: "coin_maker_append sh c pks m = (r, m1)"
    by (cases "coin_maker_append sh c pks m")
  obtain cs where rest: "coin_feed c pks shs m1 = (cs, m')"
    using Cons.prems(3) app by (auto split: prod.splits)
  have coins: "coins = (case r of Ok (Some x) \<Rightarrow> x # cs | _ \<Rightarrow> cs)"
    using Cons.prems(3) app rest by auto
  have pos: "0 < stake c (rs_author sh)" and tails: "\<forall>x \<in> set shs. 0 < stake c (rs_author x)"
    using Cons.prems(2) by simp_all
  show ?case
  proof (cases "rs_author sh \<in> cm_used m")
    case True
    then have "m1 = m" "coins = cs" "cm_used m \<union> rs_author ` set (sh # shs) = cm_used m \<union> rs_author ` set shs"
      using coin_append_used [OF True, of c pks] app coins by auto
    then show ?thesis
      using Cons.IH [OF Cons.prems(1) tails, of cs] rest by simp
  next
    case False
    note step = coin_append_new [OF wf Cons.prems(1) pos app False]
    note IH = Cons.IH [OF step(1) tails rest]
    have un: "cm_used m1 \<union> rs_author ` set shs = cm_used m \<union> rs_author ` set (sh # shs)"
      using step(2) by auto
    have p: "0 < unat (stake c (rs_author sh))"
      using pos by (simp add: word_less_nat_alt)
    show ?thesis
    proof (cases "cm_weight m1 = random_coin_threshold c")
      case True
      then have "cs = []" "unat (cm_weight m) < unat (random_coin_threshold c)"
        using IH step(3) p by simp_all
      then show ?thesis
        using coins coin_range [of sh c pks m] app step(5) [OF True]
        by (auto split: outcome.splits option.splits)
    next
      case ne: False
      then have eq: "coins = cs"
        using step(4) coins by simp
      have "unat (cm_weight m1) \<noteq> unat (random_coin_threshold c)"
        using ne by (simp add: word_unat_eq_iff)
      then show ?thesis
        using IH step(3) p unfolding eq un by (auto simp: less_Suc_eq_le Suc_le_eq)
    qed
  qed
qed

text \<open>
  An ABARandomCoinMaker fed verified shares tosses at most one coin, whose value is 0 or
  1; and with one stake per authority and combining shares, it does toss once the authors seen
  hold f+1.
\<close>

lemma coin_tossed_once:
  assumes "committee_ok c" and "stakes_fit c"
    and "\<forall>sh \<in> set shs. 0 < stake c (rs_author sh)"
    and "coin_feed c pks shs coin_maker_new = (coins, m)"
  shows "length coins \<le> 1 \<and> set coins \<subseteq> {0, 1} \<and>
    ((\<forall>sh \<in> set shs. stake c (rs_author sh) = 1) \<longrightarrow> (\<forall>sigs. combine_signatures pks sigs \<noteq> None) \<longrightarrow>
       unat (random_coin_threshold c) \<le> weight_of c (rs_author ` set shs) \<longrightarrow> coins \<noteq> [])"
proof -
  have "coin_account c coin_maker_new"
    by (simp add: coin_account_def coin_maker_new_def weight_of_def)
  from coin_feed_once [OF assms(1,2) this assms(3,4)] unat_random_coin_threshold [OF assms(2)]
  show ?thesis by (simp add: coin_maker_new_def)
qed

definition example_share :: "256 word \<Rightarrow> randomness_share" where
  "example_share i = \<lparr>rs_epoch = 0, rs_round = 1, rs_author = PublicKey i, rs_signature_share = SignatureShare []\<rparr>"

lemma coin_tossed_once_witness:
  "\<exists>x \<in> {0, 1}. fst (coin_feed example_committee example_key_set (map example_share [1, 1, 2, 3, 4]) coin_maker_new) = [x]"
proof -
  obtain coins m where fd: "coin_feed example_committee example_key_set (map example_share [1, 1, 2, 3, 4]) coin_maker_new = (coins, m)"
    by (metis prod.collapse)
  have "weight_of example_committee (rs_author ` set (map example_share [1, 1, 2, 3, 4])) = 4"
    by (simp add: example_weight example_share_def)
  moreover have "unat (random_coin_threshold example_committee) = 2"
    by (simp add: unat_random_coin_threshold)
  ultimately have "length coins \<le> 1 \<and> set coins \<subseteq> {0, 1} \<and> coins \<noteq> []"
    using coin_tossed_once [OF example_ok(1,2) _ fd]
    by (simp add: example_share_def example_stake example_key_set_def)
  then obtain x where "coins = [x]" "x \<in> {0, 1}"
    by (cases coins) auto
  with fd show ?thesis by auto
qed

end
