(* ===== verification/Chain_Files.thy ===== *)
theory Chain_Files
  imports Progress Examples Certificates Voting
begin

text \<open>
  The digests a node has on file for the chain of another authority. Whatever a node receives,
  it files only digests that a verified certificate names; so two honest nodes that file
  digests for the same chain and height file the same one, provided the certificates are the
  chain's own. That last condition is needed: the code does not compare the proposer of a
  certificate with the author of the block that carries it.
\<close>

section \<open>A property of one chain\<close>

text \<open>The chain of \<open>p\<close> has the property \<open>P\<close>, on file and in the hands of a handler.\<close>

definition file_ok :: "public_key \<Rightarrow> (chain \<Rightarrow> bool) \<Rightarrow> public_key \<Rightarrow> committee \<Rightarrow> 'db core \<Rightarrow> bool" where
  "file_ok p P me C s \<longleftrightarrow> name s = me \<and> core_committee s = C
     \<and> (\<forall>c. map_of (pubkey_to_chain s) p = Some c \<longrightarrow> P c)"

definition held_ok :: "public_key \<Rightarrow> (chain \<Rightarrow> bool) \<Rightarrow> public_key \<Rightarrow> committee \<Rightarrow> public_key \<Rightarrow> 'db core \<times> chain \<Rightarrow> bool" where
  "held_ok p P me C k = (\<lambda>(s, c). file_ok p P me C s \<and> (k = p \<longrightarrow> P c))"

interpretation on_file: agreement_free "file_ok p P me C" for p P me C
  by unfold_locales (simp_all add: file_ok_def)

lemma pres_bind_gets: "(\<And>s. I s \<Longrightarrow> pres I (f (g s))) \<Longrightarrow> pres I (bind (gets g) f)"
  by (simp add: pres_def act_defs)

lemma pres_bind_lift [pres_rules]: "(\<And>x. r = Inr x \<Longrightarrow> pres I (f x)) \<Longrightarrow> pres I (bind (lift r) f)"
  by (cases r) (simp_all add: pres_def act_defs)

text \<open>
  What the chain half asks of the property: it belongs to the chain of another authority and
  looks at its name and the digests filed for it only.
\<close>

locale foreign_chain =
  fixes p me :: public_key and P :: "chain \<Rightarrow> bool" and C :: committee
  assumes named: "P c \<Longrightarrow> ch_name c = p \<and> p \<noteq> me"
    and counters: "P (c\<lparr>ch_last_voted_height := h\<rparr>) \<longleftrightarrow> P c" "P (c\<lparr>ch_last_committed_height := h\<rparr>) \<longleftrightarrow> P c"
      "P (c\<lparr>ch_height := h\<rparr>) \<longleftrightarrow> P c"
    and others: "P (c\<lparr>ch_high_qc := q\<rparr>) \<longleftrightarrow> P c" "P (c\<lparr>ch_aggregator := ag\<rparr>) \<longleftrightarrow> P c"
begin

abbreviation "ok \<equiv> file_ok p P me C"
abbreviation "held \<equiv> held_ok p P me C"

lemma on_core: "pres ok m \<Longrightarrow> pres (held k) (on_core m)"
  by (rule pres_on_core) (auto simp: held_ok_def pres_def)

lemma held_core: "pres ok m \<Longrightarrow> pres (\<lambda>s. held k (s, c)) m"
  by (auto simp: held_ok_def pres_def)

lemma modify_chain: "(\<And>c. k = p \<Longrightarrow> P c \<Longrightarrow> P (f c)) \<Longrightarrow> pres (held k) (modify_chain f)"
  by (rule pres_modify_chain) (auto simp: held_ok_def)

lemma aggregate: "pres (held k) (chain_aggregate f)"
  by (rule pres_chain_aggregate) (simp add: held_ok_def others)

lemma set_chain: "ok s \<Longrightarrow> (k = p \<Longrightarrow> P c) \<Longrightarrow> ok (set_chain k c s)"
  by (auto simp: file_ok_def set_chain_def)

text \<open>A commit on the chain of a reference, which goes back to its place in the file.\<close>

lemma through_file:
  fixes m :: "('db, bool \<times> 'b) chain_act"
  assumes "\<And>k. pres (held k) m" and "\<And>x. pres ok (g x)"
  shows "pres ok (bind (gets pubkey_to_chain) (\<lambda>chains. bind (unwrap (map_of chains k)) (\<lambda>target.
    bind (run_with target m) (\<lambda>((done, tc), target).
      if \<not> done then ret (False, tc) else bind (modify (set_chain k target)) (\<lambda>_. g tc)))))"
proof (unfold pres_def, intro allI impI)
  fix s :: "'db core"
  assume s: "ok s"
  show "ok (snd (bind (gets pubkey_to_chain) (\<lambda>chains. bind (unwrap (map_of chains k)) (\<lambda>target.
    bind (run_with target m) (\<lambda>((done, tc), target).
      if \<not> done then ret (False, tc) else bind (modify (set_chain k target)) (\<lambda>_. g tc)))) s))"
  proof (cases "map_of (pubkey_to_chain s) k")
    case None
    then show ?thesis using s by (simp add: act_defs)
  next
    case (Some c)
    obtain r s' c' where run: "m (s, c) = (r, (s', c'))"
      by (cases "m (s, c)") auto
    have "held k (s, c)"
      using s Some by (auto simp: held_ok_def file_ok_def)
    then have "held k (s', c')"
      using presD [OF assms(1), of k "(s, c)"] run by simp
    then have "ok s'" "ok (set_chain k c' s')"
      by (auto simp: held_ok_def intro: set_chain)
    then show ?thesis
      using Some run presD [OF assms(2)] by (auto simp: act_defs run_with_def split: outcome.split)
  qed
qed

lemma commit_refs:
  assumes "\<And>b tc k. pres (held k) (rec b tc)"
  shows "pres ok (commit_refs env rec refs tc)"
proof (induction refs arbitrary: tc)
  case Nil
  then show ?case by (simp add: pres_rules)
next
  case (Cons r refs)
  show ?case
    unfolding commit_refs.simps by (intro pres_rules through_file on_file.core_methods assms Cons.IH)
qed

lemma commit_prev_block: "pres (held k) (commit_prev_block env n b tc)"
proof (induction n arbitrary: b tc k)
  case 0
  then show ?case by (simp add: pres_rules)
next
  case (Suc n)
  show ?case
    unfolding commit_prev_block.simps
    by (intro pres_rules on_core on_file.core_methods modify_chain commit_refs Suc.IH) (simp add: counters)
qed

lemma commit: "pres (held k) (commit env b)"
  unfolding commit_def by (intro pres_rules on_core commit_prev_block on_file.deliver)

lemma process_qc:
  assumes "\<And>c. k = p \<Longrightarrow> P c \<Longrightarrow> P (c\<lparr>ch_height_to_digest := (ch_height_to_digest c)(qc_height q \<mapsto> qc_hash q)\<rparr>)"
  shows "pres (held k) (process_qc q)"
  unfolding process_qc_def advance_height_def update_high_qc_def Let_def
  by (intro pres_rules on_core modify_chain; simp add: counters others assms)

lemma make_vote: "pres (held k) (make_vote env b)"
  unfolding make_vote_def increase_last_voted_round_def Let_def
  by (intro pres_rules on_core modify_chain; simp add: counters)

lemma generate_proposal: "pres (held k) (generate_proposal env tag)"
  unfolding generate_proposal_def Let_def by (intro pres_rules on_core on_file.core_methods)

text \<open>Only the votes on the node's own blocks are handled at once, so \<open>hv\<close> stays away from \<open>p\<close>.\<close>

lemma process_block_vote:
  assumes "k \<noteq> p \<Longrightarrow> (\<And>v. pres (held k) (hv v))" and "k = p \<Longrightarrow> b_author b = p"
  shows "pres (held k) (process_block_vote env hv b)"
proof (cases "k = p")
  case True
  show ?thesis
  proof (unfold pres_def, intro allI impI)
    fix sc :: "'a core \<times> chain"
    assume ok: "held k sc"
    obtain s c where sc: "sc = (s, c)" by (cases sc)
    obtain r s' c' where mv: "make_vote env b (s, c) = (r, (s', c'))"
      by (cases "make_vote env b (s, c)") auto
    have ok': "held k (s', c')"
      using presD [OF make_vote ok, of env b] by (simp add: sc mv)
    moreover have "v_proposer v \<noteq> name s" if "r = Ok (Some v)" for v
      using make_vote_cases [OF mv] that assms(2) True named [of c] ok
      by (auto simp: sc held_ok_def file_ok_def)
    ultimately show "held k (snd (process_block_vote env hv b sc))"
      using ok presD [OF on_core [OF on_file.core_methods(2)] ok']
      by (auto simp: process_block_vote_def bind_def gets_def ret_def sc mv
          split: outcome.split option.split)
  qed
next
  case False
  with assms(1) show ?thesis
    unfolding process_block_vote_def by (intro pres_rules make_vote on_core on_file.core_methods) auto
qed

lemma process_block:
  assumes "k \<noteq> p \<Longrightarrow> (\<And>v. pres (held k) (hv v))" and "k = p \<Longrightarrow> b_author b = p"
  shows "pres (held k) (process_block env hv b)"
  unfolding process_block_def process_block_commit_def
  by (intro pres_rules on_core on_file.core_methods on_file.get_ancestors commit process_block_vote assms)

lemma handle_vote_rec: "k \<noteq> p \<Longrightarrow> pres (held k) (handle_vote_rec env n v)"
proof (induction n arbitrary: v)
  case 0
  then show ?case by (simp add: pres_rules)
next
  case (Suc n)
  have "pres (held k) (process_block env (handle_vote_rec env n) b)" for b
    by (rule process_block) (simp_all add: Suc)
  moreover have "pres (held k) (process_qc q)" for q
    by (rule process_qc) (simp add: Suc.prems)
  ultimately show ?case
    unfolding handle_vote_rec.simps broadcast_propose_def
    by (intro pres_rules aggregate generate_proposal on_core on_file.core_methods)
qed

lemma handle_vote: "k \<noteq> p \<Longrightarrow> pres (held k) (handle_vote env v)"
  unfolding handle_vote_def by (rule handle_vote_rec)

lemma with_chain:
  assumes "pres (held k) m"
  shows "pres ok (with_chain k m)"
proof (unfold pres_def, intro allI impI)
  fix s :: "'a core"
  assume s: "ok s"
  show "ok (snd (with_chain k m s))"
  proof (cases "map_of (pubkey_to_chain s) k")
    case None
    then show ?thesis using s by (simp add: with_chain_def)
  next
    case (Some c)
    obtain r s' c' where m: "m (s, c) = (r, (s', c'))"
      by (cases "m (s, c)") auto
    have "held k (s, c)"
      using s Some by (auto simp: held_ok_def file_ok_def)
    then have "held k (s', c')"
      using presD [OF assms, of "(s, c)"] m by simp
    then show ?thesis
      using Some m set_chain [of s' k c'] by (simp add: with_chain_def held_ok_def)
  qed
qed

end

section \<open>Whole runs\<close>

text \<open>
  With a property that a digest named by a verified certificate keeps, and that survives the
  reset of an epoch, the whole core keeps it, as long as nobody sends the node votes for \<open>p\<close>.
\<close>

locale filed_chain = foreign_chain p me P C for p me :: public_key and P :: "chain \<Rightarrow> bool" and C :: committee +
  fixes cr :: primitives and good :: "u64 \<Rightarrow> digest \<Rightarrow> bool"
  assumes update: "P c \<Longrightarrow> good h d \<Longrightarrow> P (c\<lparr>ch_height_to_digest := (ch_height_to_digest c)(h \<mapsto> d)\<rparr>)"
    and reset: "P c \<Longrightarrow> P (reset_chain h c)"
    and in_block: "block_verify cr C b = Inr () \<Longrightarrow> good (qc_height (b_qc b)) (qc_hash (b_qc b))"
    and in_timeout: "timeout_verify cr C t = Inr () \<Longrightarrow> good (qc_height (t_high_qc t)) (qc_hash (t_high_qc t))"
begin

lemma good_qc: "good (qc_height q) (qc_hash q) \<Longrightarrow> pres (held k) (process_qc q)"
  by (rule process_qc) (simp add: update)

lemma handle_timeout:
  assumes "prims env = cr"
  shows "pres (held k) (handle_timeout env t)"
  unfolding handle_timeout_def
proof (rule pres_bind_gets, clarify, unfold id_apply prod.case)
  fix s :: "'a core" and c
  assume "held k (s, c)"
  then have "core_committee s = C" by (simp add: held_ok_def file_ok_def)
  then show "pres (held k) (if t_epoch t < epoch s then ret () else
     bind (lift (timeout_verify (prims env) (core_committee s) t)) (\<lambda>_.
     bind (process_qc (t_high_qc t)) (\<lambda>_.
     bind (chain_aggregate (add_timeout t)) (\<lambda>r. case r of
       Some cert \<Rightarrow> on_core (modify (\<lambda>s. s\<lparr>tc_cache := (tc_cache s)(tc_epoch cert \<mapsto> cert)\<rparr>))
     | None \<Rightarrow> ret ()))))"
    by (intro on_core pres_rules good_qc in_timeout aggregate pres_modify) (simp_all add: assms file_ok_def)
qed

lemma handle_proposal:
  assumes "prims env = cr"
  shows "pres (held k) (handle_proposal env b)"
  unfolding handle_proposal_def
proof (rule pres_bind_gets, clarsimp)
  fix s :: "'a core" and c
  assume ok: "held k (s, c)"
  then have "core_committee s = C" "k = p \<Longrightarrow> ch_name c = p"
    using named by (auto simp: held_ok_def file_ok_def)
  then show "pres (held k) (bind (lift (ensure (b_author b = ch_name c)
       (WrongAuthor (block_digest (prims env) b) (b_author b) (b_height b)))) (\<lambda>_.
     bind (lift (block_verify (prims env) (core_committee s) b)) (\<lambda>_.
     bind (process_qc (b_qc b)) (\<lambda>_.
     bind (on_core (driver_verify env b)) (\<lambda>available.
     if \<not> available then ret () else process_block env (handle_vote env) b)))))"
    by (intro pres_rules good_qc in_block on_core on_file.core_methods process_block handle_vote)
      (simp_all add: assms)
qed

lemma next_epoch: "pres (held k) (next_epoch env h)"
proof -
  have rest: "pres (held k) (bind (gets id) (\<lambda>(s, c). whenever (ch_name c = name s)
      (bind (generate_proposal env True) (\<lambda>b. broadcast_propose env (handle_vote env) b))))"
  proof (rule pres_bind_gets, clarsimp)
    fix s :: "'a core" and c
    assume "held k (s, c)"
    then have "ch_name c = name s \<Longrightarrow> k \<noteq> p"
      using named by (auto simp: held_ok_def file_ok_def)
    then show "pres (held k) (whenever (ch_name c = name s)
        (bind (generate_proposal env True) (broadcast_propose env (handle_vote env))))"
      unfolding broadcast_propose_def
      by (intro pres_rules generate_proposal on_core on_file.core_methods process_block handle_vote) simp_all
  qed
  show ?thesis
    unfolding next_epoch_def
    by (intro rest on_core pres_rules on_file.core_methods commit modify_chain pres_modify)
      (simp_all add: reset file_ok_def reset_epoch_def)
qed

lemma update_aba_phase: "pres (held k) (update_aba_phase env)"
  unfolding update_aba_phase_def
  by (intro pres_rules on_core next_epoch on_file.process_aba_phase on_file.enter_phases)

lemma check_timeout:
  assumes "prims env = cr"
  shows "pres (held k) (check_timeout env)"
  unfolding check_timeout_def local_timeout_round_def increase_last_voted_round_def Let_def
  by (intro on_core pres_rules on_file.core_methods modify_chain handle_timeout assms pres_modify)
    (simp_all add: counters file_ok_def)

lemma messages:
  assumes "prims env = cr"
  shows "\<forall>v. m = VoteMsg v \<longrightarrow> v_proposer v \<noteq> p \<Longrightarrow> pres ok (handle_core_message env m)"
    and "pres ok (handle_smvba_message env m)"
proof -
  show "\<forall>v. m = VoteMsg v \<longrightarrow> v_proposer v \<noteq> p \<Longrightarrow> pres ok (handle_core_message env m)"
    by (cases m) (auto intro!: pres_rules with_chain handle_proposal assms process_block handle_vote on_file.handle_sync_request)
  show "pres ok (handle_smvba_message env m)"
    by (cases m) (auto intro!: pres_rules with_chain handle_timeout assms on_file.handle_aba_val
        on_file.handle_coin_share on_file.handlers)
qed

lemma core_step:
  assumes "prims env = cr" and "\<forall>v. e = CoreMsg (VoteMsg v) \<longrightarrow> v_proposer v \<noteq> p"
  shows "pres ok (core_step env e)"
proof -
  have round: "pres ok (core_round env h)" if "pres ok h" for h
    unfolding core_round_def after_message_def
    by (intro pres_rules that with_chain update_aba_phase check_timeout assms pres_modify) (simp add: file_ok_def)
  show ?thesis
    using assms(2) by (cases e) (auto intro!: round messages [OF assms(1)] pres_modify simp: file_ok_def)
qed

lemma core_run:
  assumes "prims env = cr" and "\<forall>v. CoreMsg (VoteMsg v) \<in> set es \<longrightarrow> v_proposer v \<noteq> p" and "p \<noteq> me"
  shows "pres ok (core_run env es)"
proof -
  have "pres ok (core_loop env es)"
    using assms(2) by (induction es) (auto intro!: pres_rules core_step assms(1))
  moreover have "pres ok (first_proposal env)"
    unfolding first_proposal_def
  proof (rule pres_bind_gets)
    fix s :: "'a core"
    assume "ok s"
    then have "name s \<noteq> p" using assms(3) by (simp add: file_ok_def)
    then show "pres ok (Core_State.with_chain (name s) (bind (generate_proposal env False)
        (\<lambda>b. ignore_err (broadcast_propose env (handle_vote env) b))))"
      unfolding broadcast_propose_def
      by (intro pres_rules with_chain generate_proposal on_core on_file.core_methods process_block handle_vote) simp_all
  qed
  ultimately show ?thesis
    unfolding core_run_def by (intro pres_rules)
qed

end

section \<open>Digests that verified certificates name\<close>

text \<open>A digest that a verified certificate names for a height, or the genesis certificate.\<close>

definition certified :: "primitives \<Rightarrow> committee \<Rightarrow> u64 \<Rightarrow> digest \<Rightarrow> bool" where
  "certified cr C h d \<longleftrightarrow> (\<exists>q. (qc_eq q qc_genesis \<or> qc_verify cr C q = Inr ()) \<and> qc_hash q = d \<and> qc_height q = h)"

definition certified_files :: "primitives \<Rightarrow> committee \<Rightarrow> public_key \<Rightarrow> chain \<Rightarrow> bool" where
  "certified_files cr C p c \<longleftrightarrow> ch_name c = p
     \<and> (\<forall>h d. ch_height_to_digest c h = Some d \<longrightarrow> certified cr C h d)"

lemma verified_certificates:
  "block_verify cr C b = Inr () \<Longrightarrow> certified cr C (qc_height (b_qc b)) (qc_hash (b_qc b))"
  "timeout_verify cr C t = Inr () \<Longrightarrow> certified cr C (qc_height (t_high_qc t)) (qc_hash (t_high_qc t))"
  by (auto simp: block_verify_def timeout_verify_def certified_def rbind_eq_Inr split: if_splits)

lemma certified_update:
  "certified_files cr C p c \<Longrightarrow> certified cr C (qc_height q) (qc_hash q) \<Longrightarrow>
   certified_files cr C p (c\<lparr>ch_height_to_digest := (ch_height_to_digest c)(qc_height q \<mapsto> qc_hash q)\<rparr>)"
  by (auto simp: certified_files_def split: if_splits)

lemma certified_reset: "certified_files cr C p c \<Longrightarrow> certified_files cr C p (reset_chain h c)"
  by (auto simp: certified_files_def reset_chain_def Let_def split: if_splits)

interpretation certified: filed_chain p me "\<lambda>c. p \<noteq> me \<and> certified_files cr C p c" C cr "certified cr C" for p me C cr
  by unfold_locales
    (auto simp: certified_reset certified_update verified_certificates, auto simp: certified_files_def)

text \<open>What a whole run files for a chain of another authority.\<close>

lemma certified_on_file:
  assumes "p \<noteq> nm" and "\<forall>v. CoreMsg (VoteMsg v) \<in> set es \<longrightarrow> v_proposer v \<noteq> p"
    and "map_of (pubkey_to_chain (snd (core_run env es (core_new nm c params svc pks st leaders)))) p = Some ch"
    and "ch_height_to_digest ch h = Some d"
  shows "\<exists>q. (qc_eq q qc_genesis \<or> qc_verify (prims env) c q = Inr ()) \<and> qc_hash q = d \<and> qc_height q = h"
proof -
  let ?P = "\<lambda>ch. p \<noteq> nm \<and> certified_files (prims env) c p ch"
  have "file_ok p ?P nm c (core_new nm c params svc pks st leaders)"
    using assms(1) by (auto simp: file_ok_def core_new_def certified_files_def chain_new_def
        dest!: map_of_SomeD)
  from presD [OF certified.core_run [OF refl assms(2,1)] this] show ?thesis
    using assms(3,4) by (auto simp: file_ok_def certified_files_def certified_def)
qed

section \<open>Certificates of other proposers\<close>

interpretation name_blind: chain_blind "\<lambda>s. name s = me" for me
  by unfold_locales simp_all

text \<open>The digests filed in the chain at hand, under the name of the node.\<close>

definition files_are :: "public_key \<Rightarrow> (u64 \<rightharpoonup> digest) \<Rightarrow> 'db core \<times> chain \<Rightarrow> bool" where
  "files_are me H = (\<lambda>(s, c). name s = me \<and> ch_height_to_digest c = H)"

lemma files_on_core: "pres (\<lambda>s. name s = me) m \<Longrightarrow> pres (files_are me H) (on_core m)"
  by (rule pres_on_core) (auto simp: files_are_def pres_def)

lemma files_modify_chain:
  "(\<And>c. ch_height_to_digest (f c) = ch_height_to_digest c) \<Longrightarrow> pres (files_are me H) (modify_chain f)"
  by (rule pres_modify_chain) (simp add: files_are_def)

lemma files_commit: "pres (files_are me H) (commit env b)"
proof -
  have "pres (files_are me H) (commit_prev_block env n b tc)" for n b tc
  proof (induction n arbitrary: b tc)
    case 0
    then show ?case by (simp add: pres_rules)
  next
    case (Suc n)
    show ?case
      unfolding commit_prev_block.simps
      by (intro files_on_core pres_rules name_blind.core_methods name_blind.commit_refs
          name_blind.commit_prev_block files_modify_chain Suc.IH) simp
  qed
  then show ?thesis
    unfolding commit_def by (intro files_on_core pres_rules name_blind.deliver)
qed

lemma files_process_block:
  assumes "b_author b \<noteq> me"
  shows "pres (files_are me H) (process_block env hv b)"
proof -
  have "pres (files_are me H) (process_block_vote env hv b)"
  proof (unfold pres_def, intro allI impI)
    fix sc :: "'a core \<times> chain"
    assume ok: "files_are me H sc"
    obtain s c where sc: "sc = (s, c)" by (cases sc)
    obtain r s' c' where mv: "make_vote env b (s, c) = (r, (s', c'))"
      by (cases "make_vote env b (s, c)") auto
    have ok': "files_are me H (s', c')"
      using make_vote_cases [OF mv] ok by (auto simp: sc files_are_def)
    moreover have "v_proposer v \<noteq> name s" if "r = Ok (Some v)" for v
      using make_vote_cases [OF mv] that assms ok by (auto simp: sc files_are_def)
    ultimately show "files_are me H (snd (process_block_vote env hv b sc))"
      using ok presD [OF files_on_core [OF name_blind.core_methods(2)] ok']
      by (auto simp: process_block_vote_def bind_def gets_def ret_def sc mv split: outcome.split option.split)
  qed
  then show ?thesis
    unfolding process_block_def process_block_commit_def
    by (intro files_on_core pres_rules name_blind.core_methods name_blind.get_ancestors files_commit)
qed

text \<open>
  C31. Block::verify accepts a block of another authority with stake and a valid signature
  whose certificate passes QC::verify but is for a block of a different proposer; and when a
  node handles it on its author's chain, with a leader to be found in its committee, it files
  the certified digest under the certificate's height in that chain, however the handling
  ends.
\<close>

theorem foreign_certificate_filed:
  assumes "b_author b \<noteq> name s" and "ch_name c = b_author b"
    and "0 < stake (core_committee s) (b_author b)"
    and "signature_verify (prims env) (b_signature b) (block_digest (prims env) b) (b_author b) = Inr ()"
    and "qc_verify (prims env) (core_committee s) (b_qc b) = Inr ()"
    and "qc_proposer (b_qc b) \<noteq> b_author b"
    and "get_leader (leader_elector s) (epoch s) \<noteq> None"
    and "handle_proposal env b (s, c) = (r, (s', c'))"
  shows "block_verify (prims env) (core_committee s) b = Inr ()
    \<and> ch_height_to_digest c' (qc_height (b_qc b)) = Some (qc_hash (b_qc b))"
proof -
  have verified: "block_verify (prims env) (core_committee s) b = Inr ()"
    using assms(3-5) by (simp add: block_verify_def from_crypto_def)
  let ?H = "(ch_height_to_digest c)(qc_height (b_qc b) \<mapsto> qc_hash (b_qc b))"
  obtain c1 where qc: "process_qc (b_qc b) (s, c) = (Ok (), (s, c1))" and "ch_height_to_digest c1 = ?H"
    using assms(7) by (cases "qc_height (b_qc b) < ch_height c")
      (auto simp: process_qc_def advance_height_def update_high_qc_def act_defs plumbing_defs Let_def)
  then have start: "files_are (name s) ?H (s, c1)"
    by (simp add: files_are_def)
  have keep: "pres (files_are (name s) ?H) (bind (on_core (driver_verify env b)) (\<lambda>available.
      if \<not> available then ret () else process_block env (handle_vote env) b))"
    by (intro files_on_core pres_rules name_blind.core_methods files_process_block assms(1))
  have "handle_proposal env b (s, c) = bind (on_core (driver_verify env b)) (\<lambda>available.
      if \<not> available then ret () else process_block env (handle_vote env) b) (s, c1)"
    using assms(2) verified qc by (simp add: handle_proposal_def bind_def gets_def lift_def ret_def)
  with presD [OF keep start] assms(8) verified show ?thesis
    by (simp add: files_are_def)
qed

lemma foreign_certificate_filed_witness:
  "\<exists>r s c b. handle_proposal (example_env [] 5) b (start 3, chain_new (PublicKey 2) example_committee) = (r, (s, c))
     \<and> b = (example_block 2 2 [])\<lparr>b_qc := example_qc (Digest 5) (map PublicKey [1, 2, 3])\<rparr>
     \<and> block_verify example_primitives example_committee b = Inr ()
     \<and> qc_proposer (b_qc b) = PublicKey 1 \<and> ch_height_to_digest c 1 = Some (Digest 5)"
proof -
  let ?q = "example_qc (Digest 5) (map PublicKey [1, 2, 3])"
  let ?b = "(example_block 2 2 [])\<lparr>b_qc := ?q\<rparr>"
  let ?c = "chain_new (PublicKey 2) example_committee"
  obtain r s c where run: "handle_proposal (example_env [] 5) ?b (start 3, ?c) = (r, (s, c))"
    by (cases "handle_proposal (example_env [] 5) ?b (start 3, ?c)") auto
  have q: "qc_verify example_primitives example_committee ?q = Inr ()"
    by (simp add: qc_verify_Inr is_quorum_def example_qc_def example_stake example_weight example_quorum
        verify_batch_Inr example_primitives_def)
  have sig: "signature_verify example_primitives g d k = Inr ()" for g d k
    by (simp add: signature_verify_def example_primitives_def)
  have proposer: "qc_proposer (example_qc d ks) = PublicKey 1" for d ks
    by (simp add: example_qc_def)
  have "block_verify (prims (example_env [] 5)) (core_committee (start 3)) ?b = Inr ()
      \<and> ch_height_to_digest c (qc_height (b_qc ?b)) = Some (qc_hash (b_qc ?b))"
    by (rule foreign_certificate_filed [OF _ _ _ _ _ _ _ run])
      (use q in \<open>simp_all add: example_block_def example_leader example_stake sig proposer\<close>)
  with run show ?thesis
    by (auto simp: example_qc_def)
qed

end
