(* ===== verification/Chain_Agreement.thy ===== *)
theory Chain_Agreement
  imports Chain_Files
begin

text \<open>
  What honest nodes agree on: two verified certificates for one proposer and height certify the
  same block, so what two nodes file for a chain and height is the same digest.
\<close>

section \<open>One certified block per height\<close>

lemma certified_block_unique:
  fixes env :: "public_key \<Rightarrow> 'db env"
  assumes "committee_ok c" and "stakes_fit c" and "total_stake c mod 3 = 1"
    and bound: "weight_of c (insert p faulty) \<le> (total_stake c - 1) div 3"
    and unforgeable: "\<And>q k s. q \<in> {q1, q2} \<Longrightarrow> verify_batch cr (qc_digest cr q) (qc_votes q) = Inr () \<Longrightarrow>
      (k, s) \<in> set (qc_votes q) \<Longrightarrow> k \<notin> insert p faulty \<Longrightarrow>
      \<exists>v \<in> set (votes_sent (snd (core_run (env k) (events k) (core_new k c (params k) (svc k) pks (st k) c)))).
        v_hash v = qc_hash q \<and> v_epoch v = qc_epoch q \<and> v_height v = qc_height q \<and> v_proposer v = qc_proposer q"
    and verified: "qc_verify cr c q1 = Inr ()" "qc_verify cr c q2 = Inr ()"
    and same: "qc_proposer q1 = p" "qc_proposer q2 = p" "qc_height q1 = qc_height q2"
  shows "qc_hash q1 = qc_hash q2 \<and> qc_epoch q1 = qc_epoch q2"
proof -
  have q: "is_quorum c (map fst (qc_votes q))" "verify_batch cr (qc_digest cr q) (qc_votes q) = Inr ()"
    if "q \<in> {q1, q2}" for q
    using verified that qc_verify_Inr [OF assms(1,2)] by auto
  let ?both = "fst ` set (qc_votes q1) \<inter> fst ` set (qc_votes q2)"
  have "(total_stake c - 1) div 3 < weight_of c ?both"
    using quorum_overlap [OF assms(1), of "unat (quorum_threshold c)" "fst ` set (qc_votes q1)" "fst ` set (qc_votes q2)"]
      q(1) [of q1] q(1) [of q2] quorum_weight [OF assms(2,3)] by (simp add: is_quorum_def)
  with bound have "\<not> ?both \<subseteq> insert p faulty"
    using weight_of_mono [of ?both "insert p faulty" c] by linarith
  then obtain k where "k \<in> ?both" "k \<notin> insert p faulty"
    by blast
  then obtain s1 s2 where k: "(k, s1) \<in> set (qc_votes q1)" "(k, s2) \<in> set (qc_votes q2)" "k \<notin> insert p faulty"
    by auto
  let ?votes = "votes_sent (snd (core_run (env k) (events k) (core_new k c (params k) (svc k) pks (st k) c)))"
  obtain v1 v2 where v: "v1 \<in> set ?votes" "v2 \<in> set ?votes"
    and v1: "v_hash v1 = qc_hash q1" "v_epoch v1 = qc_epoch q1" "v_height v1 = qc_height q1" "v_proposer v1 = p"
    and v2: "v_hash v2 = qc_hash q2" "v_epoch v2 = qc_epoch q2" "v_height v2 = qc_height q2" "v_proposer v2 = p"
    using unforgeable [OF _ q(2) k(1) k(3)] unforgeable [OF _ q(2) k(2) k(3)] same by force
  have "v1 = v2"
    by (rule voted_once [OF v]) (simp_all add: v1 v2 same)
  with v1 v2 show ?thesis by simp
qed

section \<open>Files agree\<close>

text \<open>The digest a node has on file for the chain of an authority and a height.\<close>

definition filed_digest :: "'db core \<Rightarrow> public_key \<Rightarrow> u64 \<Rightarrow> digest option" where
  "filed_digest s p h = Option.bind (map_of (pubkey_to_chain s) p) (\<lambda>ch. ch_height_to_digest ch h)"

text \<open>The state of node \<open>k\<close> after its events.\<close>

definition node_run :: "(public_key \<Rightarrow> 'db env) \<Rightarrow> (public_key \<Rightarrow> event list) \<Rightarrow> committee \<Rightarrow>
    (public_key \<Rightarrow> parameters) \<Rightarrow> (public_key \<Rightarrow> signature_service) \<Rightarrow> public_key_set \<Rightarrow>
    (public_key \<Rightarrow> 'db) \<Rightarrow> public_key \<Rightarrow> 'db core" where
  "node_run env events c params svc pks st k =
     snd (core_run (env k) (events k) (core_new k c (params k) (svc k) pks (st k) c))"

text \<open>
  C3. Two honest nodes file the same digest for the chain of another authority and a height
  above 0, whatever they receive, in a committee with total stake 3f+1 of which the faulty
  ones and that authority hold at most f, when signatures cannot be forged, when no vote for
  that authority's blocks is sent to these nodes, and when the verified certificates with
  these digests and that height are for that authority's blocks, which the code does not
  check.
\<close>

theorem files_agree:
  fixes env :: "public_key \<Rightarrow> 'db env"
  assumes "committee_ok c" and "stakes_fit c" and "total_stake c mod 3 = 1"
    and bound: "weight_of c (insert p faulty) \<le> (total_stake c - 1) div 3"
    and primitives: "\<And>k. prims (env k) = cr"
    and unforgeable: "\<And>q k s. verify_batch cr (qc_digest cr q) (qc_votes q) = Inr () \<Longrightarrow>
      (k, s) \<in> set (qc_votes q) \<Longrightarrow> 0 < stake c k \<Longrightarrow> k \<notin> insert p faulty \<Longrightarrow>
      \<exists>v \<in> set (votes_sent (node_run env events c params svc pks st k)).
        v_hash v = qc_hash q \<and> v_epoch v = qc_epoch q \<and> v_height v = qc_height q \<and> v_proposer v = qc_proposer q"
    and proper: "\<And>q. qc_verify cr c q = Inr () \<Longrightarrow> qc_hash q \<in> {d1, d2} \<Longrightarrow> qc_height q = h \<Longrightarrow> qc_proposer q = p"
    and nodes: "i \<noteq> p" "j \<noteq> p"
    and no_votes: "\<And>k v. k \<in> {i, j} \<Longrightarrow> CoreMsg (VoteMsg v) \<in> set (events k) \<Longrightarrow> v_proposer v \<noteq> p"
    and filed: "filed_digest (node_run env events c params svc pks st i) p h = Some d1" "filed_digest (node_run env events c params svc pks st j) p h = Some d2" and "h \<noteq> 0"
  shows "d1 = d2"
proof -
  have certificate: "\<exists>q. qc_verify cr c q = Inr () \<and> qc_hash q = d \<and> qc_height q = h"
    if k: "k \<in> {i, j}" and d: "filed_digest (node_run env events c params svc pks st k) p h = Some d" for k d
  proof -
    obtain ch where "map_of (pubkey_to_chain (node_run env events c params svc pks st k)) p = Some ch" "ch_height_to_digest ch h = Some d"
      using d by (auto simp: filed_digest_def split: bind_splits)
    from certified_on_file [of p k "events k" "env k" c "params k" "svc k" pks "st k" c, folded node_run_def, OF _ _ this]
    obtain q where q: "qc_eq q qc_genesis \<or> qc_verify cr c q = Inr ()" "qc_hash q = d" "qc_height q = h"
      using nodes k no_votes [OF k] by (auto simp: primitives)
    moreover have "\<not> qc_eq q qc_genesis"
      using q(3) \<open>h \<noteq> 0\<close> by (auto simp: qc_eq_def qc_genesis_def)
    ultimately show ?thesis by blast
  qed
  obtain q1 q2 where q1: "qc_verify cr c q1 = Inr ()" "qc_hash q1 = d1" "qc_height q1 = h"
    and q2: "qc_verify cr c q2 = Inr ()" "qc_hash q2 = d2" "qc_height q2 = h"
    using certificate [OF _ filed(1)] certificate [OF _ filed(2)] by blast
  have voters: "0 < stake c k" if "qc_verify cr c q = Inr ()" "(k, s) \<in> set (qc_votes q)" for q k s
    using that assms(1,2) by (auto simp: qc_verify_Inr is_quorum_def)
  have "qc_hash q1 = qc_hash q2 \<and> qc_epoch q1 = qc_epoch q2"
  proof (rule certified_block_unique [OF assms(1,2,3) bound])
    fix q k s
    assume "q \<in> {q1, q2}" "verify_batch cr (qc_digest cr q) (qc_votes q) = Inr ()"
      and k: "(k, s) \<in> set (qc_votes q)" "k \<notin> insert p faulty"
    then show "\<exists>v \<in> set (votes_sent (snd (core_run (env k) (events k) (core_new k c (params k) (svc k) pks (st k) c)))).
        v_hash v = qc_hash q \<and> v_epoch v = qc_epoch q \<and> v_height v = qc_height q \<and> v_proposer v = qc_proposer q"
      using unforgeable [of q k s] voters [of q k s] q1(1) q2(1) unfolding node_run_def by auto
  qed (use q1 q2 proper in auto)
  with q1 q2 show ?thesis by simp
qed

text \<open>The facts that evaluate the first steps of a node of the small system.\<close>

lemmas run_defs = act_defs plumbing_defs core_run_def first_proposal_def generate_proposal_def
  proposal_references_def driver_get_def driver_verify_def block_new_def request_signature_def broadcast_propose_def
  process_block_def store_block_def transmit_hotstuff_def transmit_addresses_def process_block_prepare_def get_ancestors_def
  get_parent_block_def get_block_def process_block_vote_def make_vote_def vote_new_def increase_last_voted_round_def
  handle_vote_def handle_proposal_def process_qc_def advance_height_def update_high_qc_def process_block_commit_def
  core_round_def after_message_def update_aba_phase_def check_timeout_def Let_def


lemmas run_eval = run_defs block_digest_def block_parent_def block_genesis_def vote_digest_def example_leader
  add_vote_def qc_maker_append_def qc_maker_new_def aggregator_new_def entry_or_def example_stake example_quorum
  votes_sent_def votes_of_def map_filter_simps address_def example_authorities LAMBDA_VAL_def example_vote_def
  word_le_nat_alt word_less_nat_alt



text \<open>
  Primitives for which only the vote for block 0 of node 1 at height 1 can be certified, and
  three nodes that receive that block and the next one.
\<close>

definition binding_primitives :: primitives where
  "binding_primitives = example_primitives\<lparr>
     sha512 := (\<lambda>bs. if bs = vote_preimage (Digest 0) 0 1 (PublicKey 1) then push_bit 256 1 else 0),
     dalek_verify_batch := (\<lambda>ms ss ks. \<forall>m \<in> set ms. m = 1)\<rparr>"

definition binding_env :: "nat \<Rightarrow> (bytes \<times> bytes) list env" where
  "binding_env n = (example_env [] n)\<lparr>prims := binding_primitives\<rparr>"

definition second_block :: block where
  "second_block = (example_block 1 2 [])\<lparr>b_qc := example_qc (Digest 0) (map PublicKey [1, 2, 3])\<rparr>"

lemma binding_env_fields [simp]:
  "prims (binding_env n) = binding_primitives" "fuel (binding_env n) = n"
  "mempool_get (binding_env n) ms mx = []" "mempool_verify (binding_env n) ms b = Accept"
  "db_put (binding_env n) k v d = (k, v) # d" "db_get (binding_env n) k d = Inr (map_of d k)"
  "serialize_block (binding_env n) b = []" "deserialize_block (binding_env n) [] = Inl (BincodeError ''eof'')"
  by (simp_all add: binding_env_def example_env_def)

lemma finalize32_binding:
  "finalize32 binding_primitives bs = (if bs = vote_preimage (Digest 0) 0 1 (PublicKey 1) then Digest 1 else Digest 0)"
  by (simp add: finalize32_def binding_primitives_def)

lemma binding_run [simp]:
  "signature_new binding_primitives dg (SecretKey 7) = Some default_signature"
  "signature_verify binding_primitives sg dg k = Inr ()"
  by (simp_all add: binding_primitives_def example_primitives_def default_signature_def Let_def signature_verify_def)

lemma key_digest_bytes: "key_bytes k = digest_to_vec d \<longleftrightarrow> key_bits k = digest_bits d"
  by (cases k; cases d) (auto simp: key_bytes_def digest_to_vec_def intro: be_bytes_inj [of 32])

lemma block_digest_binding [simp]: "key_bits (b_author b) \<noteq> 0 \<Longrightarrow> block_digest binding_primitives b = Digest 0"
  by (auto simp: block_digest_def finalize32_binding block_preimage_def vote_preimage_def append_eq_append_conv
      key_digest_bytes)

lemma binding_certificates:
  assumes "verify_batch binding_primitives (qc_digest binding_primitives q) (qc_votes q) = Inr ()" and "qc_votes q \<noteq> []"
  shows "qc_hash q = Digest 0 \<and> qc_epoch q = 0 \<and> qc_height q = 1 \<and> qc_proposer q = PublicKey 1"
proof -
  have "digest_bits (qc_digest binding_primitives q) = 1"
    using assms by (cases "qc_votes q") (auto simp: verify_batch_Inr binding_primitives_def)
  then show ?thesis
    by (auto simp: qc_digest_def finalize32_binding vote_preimage_inj split: if_splits)
qed

lemma second_block_fields [simp]:
  "b_author second_block = PublicKey 1" "b_height second_block = 2" "b_epoch second_block = 0"
  "b_payload second_block = []" "b_references second_block = []"
  "b_qc second_block = example_qc (Digest 0) (map PublicKey [1, 2, 3])"
  by (simp_all add: second_block_def example_block_def)

lemma second_block_qc [simp]:
  "qc_verify binding_primitives example_committee (example_qc (Digest 0) [PublicKey 1, PublicKey 2, PublicKey 3]) = Inr ()"
  by (simp add: qc_verify_Inr is_quorum_def example_qc_def example_stake example_weight example_quorum
      verify_batch_Inr qc_digest_def finalize32_binding) (simp add: binding_primitives_def example_primitives_def)

lemmas step_eval = run_defs block_parent_def block_genesis_def example_leader
  add_vote_def qc_maker_append_def qc_maker_new_def aggregator_new_def entry_or_def example_stake example_quorum
  address_def example_authorities LAMBDA_VAL_def
  word_le_nat_alt word_less_nat_alt block_verify_def vote_verify_def from_crypto_def from_store_def from_bincode_def

text \<open>What the two steps need of the state of node \<open>i\<close>, and what they leave.\<close>

definition low_chains :: "(public_key \<times> chain) list \<Rightarrow> bool" where
  "low_chains al \<longleftrightarrow> (\<forall>(k, d) \<in> set al. ch_height d \<le> 2)"

definition young :: "256 word \<Rightarrow> chain \<Rightarrow> (bytes \<times> bytes) list core \<Rightarrow> bool" where
  "young i c s \<longleftrightarrow> name s = PublicKey i \<and> core_committee s = example_committee \<and> leader_elector s = example_committee
     \<and> epoch s = 0 \<and> \<not> is_view_change s \<and> tc_cache s 0 = None \<and> core_signature_service s = example_service
     \<and> map_of (pubkey_to_chain s) (PublicKey 1) = Some c \<and> ch_name c = PublicKey 1 \<and> ch_epoch c = 0
     \<and> low_chains (pubkey_to_chain s)
     \<and> map_of (store s) (digest_to_vec (Digest 0)) = Some []"

lemma young_first:
  assumes "i \<in> {2, 3, 4}"
  shows "\<exists>s. first_proposal (binding_env (Suc n)) (start i) = (Ok (), s)
    \<and> young i (chain_new (PublicKey 1) example_committee) s"
proof -
  have "fst (first_proposal (binding_env (Suc n)) (start i)) = Ok ()
    \<and> young i (chain_new (PublicKey 1) example_committee) (snd (first_proposal (binding_env (Suc n)) (start i)))"
    if "i = 2 \<or> i = 3 \<or> i = 4"
    using that by (elim disjE) (simp_all add: step_eval young_def low_chains_def del: signature_new.simps)
  with assms show ?thesis by (metis prod.collapse insertE empty_iff)
qed

lemma low_chains_update [simp]:
  assumes "low_chains al" and "ch_height c \<le> 2"
  shows "low_chains (AList.update p c al)"
  using assms set_AList_update [of p c al] unfolding low_chains_def by fastforce

lemma no_timeout [simp]:
  assumes "low_chains al" and "2 \<le> m"
  shows "(\<exists>x \<in> set al. case x of (k, d) \<Rightarrow> m < unat (ch_height d)) \<longleftrightarrow> False"
  using assms by (fastforce simp: low_chains_def word_le_nat_alt)

text \<open>The chain of node 1 after its first block.\<close>

definition voted_chain :: chain where
  "voted_chain = (chain_new (PublicKey 1) example_committee)\<lparr>ch_height_to_digest := [0 \<mapsto> Digest 0], ch_last_voted_height := 1\<rparr>"

lemma votes_sent_iff: "v \<in> set (votes_sent s) \<longleftrightarrow> (\<exists>a. (VoteMsg v, a) \<in> set (network_filter s))"
  by (force simp: votes_sent_def votes_of_def mem_map_filter split: consensus_message.splits)

lemma young_vote:
  assumes "young i (chain_new (PublicKey 1) example_committee) s" and "i \<in> {2, 3, 4}"
  shows "\<exists>s'. core_step (binding_env (Suc n)) (CoreMsg (Propose (example_block 1 1 []))) s = (Ok (), s')
    \<and> young i voted_chain s' \<and> example_vote i (Digest 0) \<in> set (votes_sent s')"
proof -
  have "i \<noteq> 1" using assms(2) by auto
  with assms show ?thesis
    by (simp add: step_eval young_def voted_chain_def example_block_def votes_sent_iff example_vote_def
        ex_disj_distrib del: signature_new.simps)
qed

lemma example_qc_fields [simp]:
  "qc_hash (example_qc d ks) = d" "qc_height (example_qc d ks) = 1" "qc_epoch (example_qc d ks) = 0"
  "qc_proposer (example_qc d ks) = PublicKey 1"
  by (simp_all add: example_qc_def)

lemma second_not_genesis [simp]: "\<not> qc_eq (example_qc d ks) qc_genesis"
  by (simp add: qc_eq_def qc_genesis_def)

lemma young_file:
  assumes "young i voted_chain s" and "i \<in> {2, 3, 4}"
  shows "\<exists>s'. core_step (binding_env (Suc n)) (CoreMsg (Propose second_block)) s = (Ok (), s')
    \<and> set (votes_sent s) \<subseteq> set (votes_sent s') \<and> filed_digest s' (PublicKey 1) 1 = Some (Digest 0)"
proof -
  have "i \<noteq> 1" using assms(2) by auto
  with assms show ?thesis
    by (simp add: step_eval young_def voted_chain_def votes_sent_iff subset_iff filed_digest_def
        ex_disj_distrib del: signature_new.simps)
qed

lemma binding_runs:
  assumes "i \<in> {2, 3, 4}"
  shows "example_vote i (Digest 0) \<in> set (votes_sent (snd (core_run (binding_env (Suc n))
      [CoreMsg (Propose (example_block 1 1 [])), CoreMsg (Propose second_block)] (start i))))"
    and "filed_digest (snd (core_run (binding_env (Suc n))
      [CoreMsg (Propose (example_block 1 1 [])), CoreMsg (Propose second_block)] (start i))) (PublicKey 1) 1 = Some (Digest 0)"
proof -
  obtain s where s: "first_proposal (binding_env (Suc n)) (start i) = (Ok (), s)"
    and "young i (chain_new (PublicKey 1) example_committee) s"
    using young_first [OF assms] by blast
  then obtain s' where s': "core_step (binding_env (Suc n)) (CoreMsg (Propose (example_block 1 1 []))) s = (Ok (), s')"
    and "young i voted_chain s'" and vote: "example_vote i (Digest 0) \<in> set (votes_sent s')"
    using young_vote [OF _ assms] by blast
  then obtain s'' where s'': "core_step (binding_env (Suc n)) (CoreMsg (Propose second_block)) s' = (Ok (), s'')"
    and "set (votes_sent s') \<subseteq> set (votes_sent s'')" "filed_digest s'' (PublicKey 1) 1 = Some (Digest 0)"
    using young_file [OF _ assms] by blast
  moreover have "core_run (binding_env (Suc n)) [CoreMsg (Propose (example_block 1 1 [])), CoreMsg (Propose second_block)] (start i) = (Ok (), s'')"
    by (simp add: core_run_def bind_def ret_def s s' s'' del: core_step.simps)
  ultimately show "example_vote i (Digest 0) \<in> set (votes_sent (snd (core_run (binding_env (Suc n))
      [CoreMsg (Propose (example_block 1 1 [])), CoreMsg (Propose second_block)] (start i))))"
    and "filed_digest (snd (core_run (binding_env (Suc n))
      [CoreMsg (Propose (example_block 1 1 [])), CoreMsg (Propose second_block)] (start i))) (PublicKey 1) 1 = Some (Digest 0)"
    using vote by auto
qed

lemma files_agree_witness:
  "\<exists>d1 d2. filed_digest (node_run (\<lambda>k. binding_env 5) (\<lambda>k. [CoreMsg (Propose (example_block 1 1 [])), CoreMsg (Propose second_block)])
      example_committee (\<lambda>k. default_parameters) (\<lambda>k. example_service) example_key_set (\<lambda>k. []) (PublicKey 2)) (PublicKey 1) 1 = Some d1
    \<and> filed_digest (node_run (\<lambda>k. binding_env 5) (\<lambda>k. [CoreMsg (Propose (example_block 1 1 [])), CoreMsg (Propose second_block)])
      example_committee (\<lambda>k. default_parameters) (\<lambda>k. example_service) example_key_set (\<lambda>k. []) (PublicKey 3)) (PublicKey 1) 1 = Some d2
    \<and> d1 = d2"
proof -
  let ?events = "[CoreMsg (Propose (example_block 1 1 [])), CoreMsg (Propose second_block)]"
  let ?run = "node_run (\<lambda>k. binding_env 5) (\<lambda>k. ?events) example_committee
    (\<lambda>k. default_parameters) (\<lambda>k. example_service) example_key_set (\<lambda>k. [])"
  have run: "?run (PublicKey i) = snd (core_run (binding_env (Suc 4)) ?events (start i))" for i
    by (simp add: node_run_def start_def)
  have filed: "filed_digest (?run (PublicKey i)) (PublicKey 1) 1 = Some (Digest 0)" if "i \<in> {2, 3, 4}" for i
    unfolding run by (rule binding_runs [OF that])
  have certified: "qc_hash q = Digest 0 \<and> qc_epoch q = 0 \<and> qc_height q = 1 \<and> qc_proposer q = PublicKey 1"
    if "verify_batch binding_primitives (qc_digest binding_primitives q) (qc_votes q) = Inr ()" "qc_votes q \<noteq> []" for q
    using that by (rule binding_certificates)
  have "Digest 0 = Digest 0"
  proof (rule files_agree [of example_committee "PublicKey 1" "{}" "\<lambda>k. binding_env 5" binding_primitives "\<lambda>k. ?events"
        "\<lambda>k. default_parameters" "\<lambda>k. example_service" example_key_set "\<lambda>k. []" _ _ 1 "PublicKey 2" "PublicKey 3"])
    fix q k s
    assume q: "verify_batch binding_primitives (qc_digest binding_primitives q) (qc_votes q) = Inr ()" "(k, s) \<in> set (qc_votes q)"
      and k: "0 < stake example_committee k" "k \<notin> insert (PublicKey 1) {}"
    obtain i where i: "k = PublicKey i" "i \<in> {2, 3, 4}"
      using k by (cases k) (auto simp: example_stake split: if_splits)
    have "example_vote i (Digest 0) \<in> set (votes_sent (?run k))"
      unfolding i(1) run by (rule binding_runs [OF i(2)])
    then show "\<exists>v \<in> set (votes_sent (?run k)).
        v_hash v = qc_hash q \<and> v_epoch v = qc_epoch q \<and> v_height v = qc_height q \<and> v_proposer v = qc_proposer q"
      by (rule rev_bexI) (use certified [OF q(1)] q(2) in \<open>cases "qc_votes q"; auto simp: example_vote_def\<close>)
  next
    fix q
    assume q: "qc_verify binding_primitives example_committee q = Inr ()"
    then have "qc_votes q \<noteq> []"
      by (auto simp: qc_verify_Inr is_quorum_def example_quorum weight_of_def)
    with q show "qc_proposer q = PublicKey 1"
      using certified [of q] by (simp add: qc_verify_Inr)
  next
    show "filed_digest (?run (PublicKey 2)) (PublicKey 1) 1 = Some (Digest 0)"
      and "filed_digest (?run (PublicKey 3)) (PublicKey 1) 1 = Some (Digest 0)"
      by (simp_all add: filed)
  qed (auto simp: example_weight)
  with filed [of 2] filed [of 3] show ?thesis by simp
qed
end
