(* ===== verification/Commit.thy ===== *)
theory Commit
  imports Chain_Frame
begin

text \<open>
  What a commit delivers. The abstract specification \<open>linearize\<close> lists the blocks of a leader's
  chain from the last committed height on, each after the blocks its references reach on the
  other chains; \<open>commit\<close> is shown to deliver exactly that list, in that order, and the list to
  hold the heights of every chain in increasing order.
\<close>

section \<open>The specification\<close>

text \<open>The block a digest stands for, as \<open>get_block\<close> finds it.\<close>

definition stored_block :: "'db env \<Rightarrow> 'db \<Rightarrow> digest \<Rightarrow> block option" where
  "stored_block env st d =
     (if d = qc_hash qc_genesis then Some block_genesis
      else case db_get env (digest_to_vec d) st of
        Inr (Some bytes) \<Rightarrow> (case deserialize_block env bytes of Inr b \<Rightarrow> Some b | Inl e \<Rightarrow> None)
      | _ \<Rightarrow> None)"

text \<open>The \<open>n\<close> blocks above height \<open>lo\<close> of a chain; \<open>None\<close> when one is missing.\<close>

fun segment :: "(digest \<Rightarrow> block option) \<Rightarrow> (u64 \<rightharpoonup> digest) \<Rightarrow> u64 \<Rightarrow> nat \<Rightarrow> block list option" where
  "segment blk m lo 0 = Some []"
| "segment blk m lo (Suc n) = (case m (lo + 1) of None \<Rightarrow> None | Some d \<Rightarrow>
     (case blk d of None \<Rightarrow> None | Some b \<Rightarrow> map_option ((#) b) (segment blk m (lo + 1) n)))"

definition missing_heights :: "chain \<Rightarrow> u64 \<Rightarrow> nat" where
  "missing_heights ch h = unat h - unat (ch_last_committed_height ch)"

definition committed_to :: "u64 \<Rightarrow> chain \<Rightarrow> chain" where
  "committed_to h ch = ch\<lparr>ch_last_committed_height := max h (ch_last_committed_height ch)\<rparr>"

text \<open>
  The blocks reached by the references of a leader block, chain by chain, and the chains as
  they are afterwards. A reference that reaches a block of the leader itself has no
  specification, unless that block was committed before.
\<close>

fun gather :: "(digest \<Rightarrow> block option) \<Rightarrow> public_key \<Rightarrow> (public_key \<times> chain) list \<Rightarrow>
    (public_key \<times> digest) list \<Rightarrow> (block list \<times> (public_key \<times> chain) list) option" where
  "gather blk leader file [] = Some ([], file)"
| "gather blk leader file (r # refs) = (case blk (snd r) of None \<Rightarrow> None | Some b \<Rightarrow>
     (case map_of file (b_author b) of None \<Rightarrow> None | Some ch \<Rightarrow>
     (case segment blk (ch_height_to_digest ch) (ch_last_committed_height ch)
        (missing_heights ch (b_height b)) of None \<Rightarrow> None | Some bs \<Rightarrow>
     if \<exists>x \<in> set bs. b_author x = leader then None else
     (case gather blk leader (AList.update (b_author b) (committed_to (b_height b) ch) file) refs of
        None \<Rightarrow> None | Some (rest, file') \<Rightarrow> Some (bs @ rest, file')))))"

text \<open>The references in the order of their authors' keys, which the code sorts in place.\<close>

definition sort_references :: "public_key \<Rightarrow> block \<Rightarrow> block" where
  "sort_references leader b = (if b_author b = leader
     then b\<lparr>b_references := sort_key fst (b_references b)\<rparr> else b)"

fun linearize :: "(digest \<Rightarrow> block option) \<Rightarrow> public_key \<Rightarrow> (public_key \<times> chain) list \<Rightarrow>
    (u64 \<rightharpoonup> digest) \<Rightarrow> u64 \<Rightarrow> nat \<Rightarrow> (block list \<times> (public_key \<times> chain) list) option" where
  "linearize blk leader file m lo 0 = Some ([], file)"
| "linearize blk leader file m lo (Suc n) = (case m (lo + 1) of None \<Rightarrow> None | Some d \<Rightarrow>
     (case blk d of None \<Rightarrow> None | Some b \<Rightarrow>
     (case (if b_author b = leader then gather blk leader file (sort_key fst (b_references b))
            else Some ([], file)) of None \<Rightarrow> None | Some (bs, file1) \<Rightarrow>
     (case linearize blk leader file1 m (lo + 1) n of None \<Rightarrow> None | Some (rest, file2) \<Rightarrow>
        Some (bs @ sort_references leader b # rest, file2)))))"

section \<open>The code does what the specification says\<close>

lemma get_block_found:
  "stored_block env (store s) d = Some b \<Longrightarrow> get_block env a d blk s = (Ok (Some b), s)"
  by (auto simp: stored_block_def get_block_def act_defs from_store_def from_bincode_def
      split: if_splits sum.splits option.splits)

lemma leader_of_found: "get_leader (leader_elector s) ep = Some l \<Longrightarrow> leader_of ep s = (Ok l, s)"
  by (simp add: leader_of_def act_defs)

lemma unat_Suc_le:
  fixes lo h :: u64
  assumes "unat h = unat lo + Suc n"
  shows "\<not> h \<le> lo" and "unat h = unat (lo + 1) + n"
proof -
  show "\<not> h \<le> lo"
    using assms by (simp add: word_le_nat_alt)
  have "unat h < 2 ^ LENGTH(64)"
    by (rule unsigned_less)
  then have "unat lo + 1 < 2 ^ 64"
    using assms by simp
  then show "unat h = unat (lo + 1) + n"
    using assms by (simp add: unat_word_ariths)
qed

lemma segment_length: "segment blk m lo n = Some bs \<Longrightarrow> length bs = n"
  by (induction n arbitrary: lo bs) (auto split: option.splits)

lemma committed_to_step:
  assumes "\<not> h \<le> ch_last_committed_height c" and "unat h = unat (ch_last_committed_height c + 1) + k"
  shows "committed_to h (c\<lparr>ch_last_committed_height := ch_last_committed_height c + 1\<rparr>) = committed_to h c"
proof -
  have "ch_last_committed_height c + 1 \<le> h"
    using assms(2) by (simp add: word_le_nat_alt)
  then show ?thesis
    using assms(1) by (simp add: committed_to_def max_absorb1)
qed

text \<open>One round of the loop on a block that is there and needs no references.\<close>

lemma commit_round_plain:
  assumes "\<not> b_height b \<le> ch_last_committed_height c"
    and "ch_height_to_digest c (ch_last_committed_height c + 1) = Some d"
    and "stored_block env (store s) d = Some x"
    and "get_leader (leader_elector s) (epoch s) = Some leader" and "b_author x \<noteq> leader"
  shows "commit_prev_block env (Suc n) b tc (s, c) =
    commit_prev_block env n b (x # tc)
      (s, c\<lparr>ch_last_committed_height := ch_last_committed_height c + 1\<rparr>)"
  using assms(1,2,5) get_block_found [OF assms(3)] leader_of_found [OF assms(4)]
  by (simp add: act_defs on_core_def modify_chain_def)


lemma commit_plain:
  assumes "segment (stored_block env (store s)) (ch_height_to_digest c) (ch_last_committed_height c)
      (missing_heights c (b_height b)) = Some bs"
    and "\<forall>x \<in> set bs. b_author x \<noteq> leader"
    and "get_leader (leader_elector s) (epoch s) = Some leader"
    and "missing_heights c (b_height b) < n"
  shows "commit_prev_block env n b tc (s, c) = (Ok (True, rev bs @ tc), (s, committed_to (b_height b) c))"
  using assms
proof (induction "missing_heights c (b_height b)" arbitrary: c bs tc n)
  case 0
  then have "b_height b \<le> ch_last_committed_height c"
    by (simp add: missing_heights_def word_le_nat_alt)
  moreover obtain n' where "n = Suc n'"
    using 0 by (cases n) auto
  moreover have "committed_to (b_height b) c = c"
    using calculation(1) by (simp add: committed_to_def max_def)
  ultimately show ?case
    using 0 by (simp add: act_defs)
next
  case (Suc k)
  let ?c = "c\<lparr>ch_last_committed_height := ch_last_committed_height c + 1\<rparr>"
  have h: "unat (b_height b) = unat (ch_last_committed_height c) + Suc k"
    using Suc.hyps(2) by (simp add: missing_heights_def)
  note step = unat_Suc_le [OF h]
  have "segment (stored_block env (store s)) (ch_height_to_digest c) (ch_last_committed_height c) (Suc k) = Some bs"
    using Suc.prems(1) unfolding Suc.hyps(2) [symmetric] .
  then obtain d x bs' where
    d: "ch_height_to_digest c (ch_last_committed_height c + 1) = Some d"
    and x: "stored_block env (store s) d = Some x" and bs: "bs = x # bs'"
    and rest: "segment (stored_block env (store s)) (ch_height_to_digest c)
      (ch_last_committed_height c + 1) k = Some bs'"
    by (auto split: option.splits)
  obtain n' where n: "n = Suc n'" "k < n'"
    using Suc.prems(4) Suc.hyps(2) by (cases n) auto
  have k: "k = missing_heights ?c (b_height b)"
    using step(2) by (simp add: missing_heights_def)
  have "committed_to (b_height b) ?c = committed_to (b_height b) c"
    using committed_to_step [OF step] .
  moreover have "commit_prev_block env n' b (x # tc) (s, ?c)
      = (Ok (True, rev bs' @ x # tc), (s, committed_to (b_height b) ?c))"
    using Suc.prems(2,3) rest n(2) k bs by (intro Suc.hyps(1)) simp_all
  moreover have "commit_prev_block env n b tc (s, c) = commit_prev_block env n' b (x # tc) (s, ?c)"
    unfolding n(1) using Suc.prems(2) bs by (intro commit_round_plain [OF step(1) d x Suc.prems(3)]) simp
  ultimately show ?case
    using bs by simp
qed

text \<open>The references: every chain reached is committed up to the block, in the order of the list.\<close>

lemma commit_refs_gather:
  assumes "gather (stored_block env (store s)) leader (pubkey_to_chain s) refs = Some (bs, file)"
    and "get_leader (leader_elector s) (epoch s) = Some leader" and "length bs < n"
  shows "commit_refs env (commit_prev_block env n) refs tc s
    = (Ok (True, rev bs @ tc), s\<lparr>pubkey_to_chain := file\<rparr>)"
  using assms
proof (induction refs arbitrary: s bs tc)
  case Nil
  then show ?case by (simp add: act_defs)
next
  case (Cons r refs)
  obtain b ch seg rest where
    b: "stored_block env (store s) (snd r) = Some b"
    and ch: "map_of (pubkey_to_chain s) (b_author b) = Some ch"
    and seg: "segment (stored_block env (store s)) (ch_height_to_digest ch) (ch_last_committed_height ch)
        (missing_heights ch (b_height b)) = Some seg"
    and plain: "\<forall>x \<in> set seg. b_author x \<noteq> leader"
    and more: "gather (stored_block env (store s)) leader
        (AList.update (b_author b) (committed_to (b_height b) ch) (pubkey_to_chain s)) refs = Some (rest, file)"
    and bs: "bs = seg @ rest"
    using Cons.prems(1) by (auto split: option.splits if_splits)
  let ?s = "set_chain (b_author b) (committed_to (b_height b) ch) s"
  have len: "length seg = missing_heights ch (b_height b)"
    using seg by (rule segment_length)
  have chain: "commit_prev_block env n b tc (s, ch) = (Ok (True, rev seg @ tc), (s, committed_to (b_height b) ch))"
    using commit_plain [OF seg plain Cons.prems(2)] Cons.prems(3) bs len by simp
  have "commit_refs env (commit_prev_block env n) refs (rev seg @ tc) ?s
      = (Ok (True, rev rest @ rev seg @ tc), ?s\<lparr>pubkey_to_chain := file\<rparr>)"
    using more Cons.prems(2,3) bs by (intro Cons.IH) (simp_all add: set_chain_def)
  then show ?case
    using get_block_found [OF b] ch chain bs by (simp add: act_defs run_with_def set_chain_def)
qed


text \<open>One round of the loop, with the references if the block is the leader's.\<close>

lemma commit_round:
  assumes "\<not> b_height b \<le> ch_last_committed_height c"
    and "ch_height_to_digest c (ch_last_committed_height c + 1) = Some d"
    and "stored_block env (store s) d = Some x"
    and "get_leader (leader_elector s) (epoch s) = Some leader"
    and "(if b_author x = leader
        then gather (stored_block env (store s)) leader (pubkey_to_chain s) (sort_key fst (b_references x))
        else Some ([], pubkey_to_chain s)) = Some (bs, file)"
    and "length bs < n"
  shows "commit_prev_block env (Suc n) b tc (s, c) =
    commit_prev_block env n b (sort_references leader x # rev bs @ tc)
      (s\<lparr>pubkey_to_chain := file\<rparr>, c\<lparr>ch_last_committed_height := ch_last_committed_height c + 1\<rparr>)"
proof (cases "b_author x = leader")
  case True
  then have "commit_refs env (commit_prev_block env n) (sort_key fst (b_references x)) tc s
      = (Ok (True, rev bs @ tc), s\<lparr>pubkey_to_chain := file\<rparr>)"
    using assms(4-6) by (intro commit_refs_gather) simp_all
  then show ?thesis
    using assms(1,2) True get_block_found [OF assms(3)] leader_of_found [OF assms(4)]
    by (simp add: act_defs on_core_def modify_chain_def sort_references_def)
next
  case False
  moreover have "x\<lparr>b_references := b_references x\<rparr> = x"
    by simp
  ultimately show ?thesis
    using assms(5) commit_round_plain [OF assms(1-4) False]
    by (auto simp: sort_references_def simp del: commit_prev_block.simps)
qed

lemma linearize_length:
  "linearize blk leader chs m lo n = Some (out, chs') \<Longrightarrow> n \<le> length out"
proof (induction n arbitrary: chs lo out)
  case 0
  then show ?case by simp
next
  case (Suc n)
  then show ?case by (fastforce split: option.splits prod.splits if_splits)
qed

text \<open>
  The loop on a chain, with the references of the leader's blocks: the blocks of the
  specification are pushed in front of the queue, so the queue holds them last first.
\<close>

lemma commit_prev_linearize:
  assumes "linearize (stored_block env (store s)) leader (pubkey_to_chain s) (ch_height_to_digest c)
      (ch_last_committed_height c) (missing_heights c (b_height b)) = Some (out, file)"
    and "get_leader (leader_elector s) (epoch s) = Some leader"
    and "missing_heights c (b_height b) + length out < n"
  shows "commit_prev_block env n b tc (s, c)
    = (Ok (True, rev out @ tc), (s\<lparr>pubkey_to_chain := file\<rparr>, committed_to (b_height b) c))"
  using assms
proof (induction "missing_heights c (b_height b)" arbitrary: s c out tc n)
  case 0
  then have "b_height b \<le> ch_last_committed_height c"
    by (simp add: missing_heights_def word_le_nat_alt)
  moreover obtain n' where "n = Suc n'"
    using 0 by (cases n) auto
  moreover have "committed_to (b_height b) c = c"
    using calculation(1) by (simp add: committed_to_def max_def)
  ultimately show ?case
    using 0 by (simp add: act_defs)
next
  case (Suc k)
  let ?c = "c\<lparr>ch_last_committed_height := ch_last_committed_height c + 1\<rparr>"
  have h: "unat (b_height b) = unat (ch_last_committed_height c) + Suc k"
    using Suc.hyps(2) by (simp add: missing_heights_def)
  note step = unat_Suc_le [OF h]
  have "linearize (stored_block env (store s)) leader (pubkey_to_chain s) (ch_height_to_digest c)
      (ch_last_committed_height c) (Suc k) = Some (out, file)"
    using Suc.prems(1) unfolding Suc.hyps(2) [symmetric] .
  then obtain d x bs file1 rest where
    d: "ch_height_to_digest c (ch_last_committed_height c + 1) = Some d"
    and x: "stored_block env (store s) d = Some x"
    and refs: "(if b_author x = leader
        then gather (stored_block env (store s)) leader (pubkey_to_chain s) (sort_key fst (b_references x))
        else Some ([], pubkey_to_chain s)) = Some (bs, file1)"
    and rest: "linearize (stored_block env (store s)) leader file1 (ch_height_to_digest c)
      (ch_last_committed_height c + 1) k = Some (rest, file)"
    and out: "out = bs @ sort_references leader x # rest"
    by (auto split: option.splits prod.splits)
  obtain n' where n: "n = Suc n'" "k + length out \<le> n'"
    using Suc.prems(3) Suc.hyps(2) by (cases n) auto
  let ?s = "s\<lparr>pubkey_to_chain := file1\<rparr>"
  have k: "k = missing_heights ?c (b_height b)"
    using step(2) by (simp add: missing_heights_def)
  have "commit_prev_block env n' b (sort_references leader x # rev bs @ tc) (?s, ?c)
      = (Ok (True, rev rest @ sort_references leader x # rev bs @ tc),
         (?s\<lparr>pubkey_to_chain := file\<rparr>, committed_to (b_height b) ?c))"
    using Suc.prems(2) rest n(2) k out by (intro Suc.hyps(1)) simp_all
  moreover have "commit_prev_block env n b tc (s, c)
      = commit_prev_block env n' b (sort_references leader x # rev bs @ tc) (?s, ?c)"
    unfolding n(1)
    using refs n(2) out
    by (intro commit_round [OF step(1) d x Suc.prems(2)]) simp_all
  ultimately show ?case
    using out committed_to_step [OF step] by simp
qed


lemma deliver_appends:
  "deliver bs s = (Ok (), s\<lparr>commit_channel := commit_channel s @ bs,
     mempool_channel := mempool_channel s @
       map (\<lambda>b. MCleanup (b_payload b) (b_height b)) (filter (\<lambda>b. b_payload b \<noteq> []) bs)\<rparr>)"
  by (induction bs arbitrary: s) (simp_all add: act_defs driver_cleanup_def)

section \<open>The order of what is delivered\<close>

text \<open>
  A chain on file leads from a height to a block of its own at that height. The heights of an
  authority among delivered blocks, and how far its chain is committed.
\<close>

definition leads_to :: "(digest \<Rightarrow> block option) \<Rightarrow> (u64 \<rightharpoonup> digest) \<Rightarrow> public_key \<Rightarrow> bool" where
  "leads_to blk m k \<longleftrightarrow> (\<forall>h d b. m h = Some d \<longrightarrow> blk d = Some b \<longrightarrow> b_author b = k \<and> b_height b = h)"

definition coherent :: "(digest \<Rightarrow> block option) \<Rightarrow> (public_key \<times> chain) list \<Rightarrow> bool" where
  "coherent blk chs \<longleftrightarrow> (\<forall>k ch. map_of chs k = Some ch \<longrightarrow> leads_to blk (ch_height_to_digest ch) k)"

definition heights :: "public_key \<Rightarrow> block list \<Rightarrow> nat list" where
  "heights k bs = map (unat \<circ> b_height) (filter (\<lambda>b. b_author b = k) bs)"

definition committed_height :: "(public_key \<times> chain) list \<Rightarrow> public_key \<Rightarrow> nat" where
  "committed_height chs k = (case map_of chs k of None \<Rightarrow> 0 | Some ch \<Rightarrow> unat (ch_last_committed_height ch))"

lemma heights_simps [simp]:
  "heights k [] = []" "heights k (bs @ bs') = heights k bs @ heights k bs'"
  "heights k (b # bs) = (if b_author b = k then unat (b_height b) # heights k bs else heights k bs)"
  by (simp_all add: heights_def)

lemma segment_heights:
  assumes "segment blk m lo n = Some bs" and "leads_to blk m k" and "unat lo + n < 2 ^ 64"
  shows "heights k' bs = (if k' = k then [unat lo + 1..<unat lo + n + 1] else []) \<and>
    (\<forall>b \<in> set bs. b_author b = k)"
  using assms
proof (induction n arbitrary: lo bs)
  case 0
  then show ?case by simp
next
  case (Suc n)
  then obtain d b bs' where m: "m (lo + 1) = Some d" "blk d = Some b"
    and rest: "segment blk m (lo + 1) n = Some bs'" and bs: "bs = b # bs'"
    by (auto split: option.splits)
  have lo: "unat (lo + 1) = unat lo + 1"
    using Suc.prems(3) by (simp add: unat_word_ariths)
  have "b_author b = k" "b_height b = lo + 1"
    using Suc.prems(2) m by (auto simp: leads_to_def)
  then show ?case
    using Suc.IH [OF rest Suc.prems(2)] Suc.prems(3) lo bs
    by (auto simp: upt_conv_Cons)
qed

lemma coherent_update:
  "coherent blk chs \<Longrightarrow> map_of chs k = Some ch \<Longrightarrow> coherent blk (AList.update k (committed_to h ch) chs)"
  by (auto simp: coherent_def committed_to_def)

lemma upt_join: "i \<le> j \<Longrightarrow> j \<le> k \<Longrightarrow> [i..<j] @ [j..<k] = [i..<k]"
  using upt_add_eq_append [of i j "k - j"] by simp

lemma gather_heights:
  assumes "gather blk leader chs refs = Some (bs, chs')" and "coherent blk chs"
  shows "coherent blk chs' \<and> heights leader bs = [] \<and>
    (k \<noteq> leader \<longrightarrow> committed_height chs k \<le> committed_height chs' k \<and>
       heights k bs = [committed_height chs k + 1..<committed_height chs' k + 1])"
  using assms
proof (induction blk leader chs refs arbitrary: bs chs' rule: gather.induct)
  case (1 blk leader chs)
  then show ?case by simp
next
  case (2 blk leader chs r refs)
  then obtain b ch seg rest where
    b: "blk (snd r) = Some b" and ch: "map_of chs (b_author b) = Some ch"
    and seg: "segment blk (ch_height_to_digest ch) (ch_last_committed_height ch)
        (missing_heights ch (b_height b)) = Some seg"
    and plain: "\<forall>x \<in> set seg. b_author x \<noteq> leader"
    and more: "gather blk leader (AList.update (b_author b) (committed_to (b_height b) ch) chs) refs = Some (rest, chs')"
    and bs: "bs = seg @ rest"
    by (auto split: option.splits if_splits)
  let ?chs = "AList.update (b_author b) (committed_to (b_height b) ch) chs"
  have le: "leads_to blk (ch_height_to_digest ch) (b_author b)"
    using "2.prems"(2) ch by (simp add: coherent_def)
  have "unat (b_height b) < 2 ^ LENGTH(64)" "unat (ch_last_committed_height ch) < 2 ^ LENGTH(64)"
    by (rule unsigned_less)+
  then have "unat (ch_last_committed_height ch) + missing_heights ch (b_height b) < 2 ^ 64"
    by (simp add: missing_heights_def)
  note sh = segment_heights [OF seg le this]
  note IH = "2.IH" [OF b ch seg _ more coherent_update [OF "2.prems"(2) ch]]
  have new: "committed_height ?chs k' = (if k' = b_author b
      then unat (ch_last_committed_height ch) + missing_heights ch (b_height b) else committed_height chs k')" for k'
    by (simp add: committed_height_def committed_to_def missing_heights_def max_def word_le_nat_alt)
  have old: "committed_height chs (b_author b) = unat (ch_last_committed_height ch)"
    using ch by (simp add: committed_height_def)
  have "heights leader seg = []"
    using plain by (simp add: heights_def filter_empty_conv)
  then show ?case
    using IH plain sh [of k] new [of k] old bs
    by (auto simp: upt_join simp del: upt_Suc)
qed


lemma sort_references_same [simp]:
  "b_author (sort_references leader b) = b_author b" "b_height (sort_references leader b) = b_height b"
  by (simp_all add: sort_references_def)

lemma linearize_heights:
  assumes "linearize blk leader chs m lo n = Some (out, chs')"
    and "coherent blk chs" and "leads_to blk m leader" and "unat lo + n < 2 ^ 64"
  shows "coherent blk chs' \<and> heights leader out = [unat lo + 1..<unat lo + n + 1] \<and>
    (k \<noteq> leader \<longrightarrow> committed_height chs k \<le> committed_height chs' k \<and>
       heights k out = [committed_height chs k + 1..<committed_height chs' k + 1])"
  using assms
proof (induction n arbitrary: chs lo out)
  case 0
  then show ?case by simp
next
  case (Suc n)
  then obtain d b bs chs1 rest where m: "m (lo + 1) = Some d" "blk d = Some b"
    and refs: "(if b_author b = leader then gather blk leader chs (sort_key fst (b_references b))
        else Some ([], chs)) = Some (bs, chs1)"
    and more: "linearize blk leader chs1 m (lo + 1) n = Some (rest, chs')"
    and out: "out = bs @ sort_references leader b # rest"
    by (auto split: option.splits prod.splits)
  have lo: "unat (lo + 1) = unat lo + 1"
    using Suc.prems(4) by (simp add: unat_word_ariths)
  have b: "b_author b = leader" "b_height b = lo + 1"
    using Suc.prems(3) m by (auto simp: leads_to_def)
  have g: "coherent blk chs1 \<and> heights leader bs = [] \<and>
    (k \<noteq> leader \<longrightarrow> committed_height chs k \<le> committed_height chs1 k \<and>
       heights k bs = [committed_height chs k + 1..<committed_height chs1 k + 1])"
    using refs b(1) Suc.prems(2) by (intro gather_heights) simp_all
  from Suc.IH [OF more] g Suc.prems(3,4) lo b out show ?case
    by (auto simp: upt_join upt_conv_Cons simp del: upt_Suc)
qed

text \<open>
  A commit delivers the specified sequence, in its order and once, tells the mempool of every
  block with a payload, and files the chains it went through as committed so far.
\<close>

lemma commit_linearizes:
  assumes "linearize (stored_block env (store s)) leader (pubkey_to_chain s) (ch_height_to_digest c)
      (ch_last_committed_height c) (missing_heights c (b_height b)) = Some (out, chs)"
    and "get_leader (leader_elector s) (epoch s) = Some leader"
    and "missing_heights c (b_height b) + length out < fuel env"
  shows "commit env b (s, c) = (Ok (), (s\<lparr>pubkey_to_chain := chs, commit_channel := commit_channel s @ out,
      mempool_channel := mempool_channel s @
        map (\<lambda>b. MCleanup (b_payload b) (b_height b)) (filter (\<lambda>b. b_payload b \<noteq> []) out)\<rparr>,
      committed_to (b_height b) c))"
  using commit_prev_linearize [OF assms]
  by (simp add: commit_def act_defs on_core_def deliver_appends)

end
