(* ===== verification/Delivery.thy ===== *)
theory Delivery
  imports Commit Examples
begin

text \<open>
  What the commits of a node deliver: the sequence theory \<^verbatim>\<open>Commit\<close> specifies, once and in
  order; and the two ways in which references break this, a gap in a referenced chain and a
  reference of a leader to its own later block.
\<close>

text \<open>
  C6. When the blocks of the leader's chain up to the committed block and the blocks their
  references reach are on file and stored, none of these references leads to a block of the
  leader that is not committed yet, the recursion bound is enough, and each chain on file
  leads to blocks of its own authority at their heights, the blocks a commit adds to the
  commit channel have, for the leader and for every other authority, exactly the heights from
  the last committed one to the new one, each once and in increasing order.
\<close>

lemma commit_once_in_order:
  assumes "linearize (stored_block env (store s)) leader (pubkey_to_chain s) (ch_height_to_digest c)
      (ch_last_committed_height c) (missing_heights c (b_height b)) = Some (out, chs)"
    and "get_leader (leader_elector s) (epoch s) = Some leader"
    and "missing_heights c (b_height b) + length out < fuel env"
    and "coherent (stored_block env (store s)) (pubkey_to_chain s)"
    and "leads_to (stored_block env (store s)) (ch_height_to_digest c) leader"
    and "commit env b (s, c) = (r, (s', c'))"
  shows "\<exists>new. commit_channel s' = commit_channel s @ new \<and>
    heights leader new = [unat (ch_last_committed_height c) + 1..<unat (ch_last_committed_height c') + 1] \<and>
    (\<forall>k. k \<noteq> leader \<longrightarrow>
       heights k new = [committed_height (pubkey_to_chain s) k + 1..<committed_height (pubkey_to_chain s') k + 1])"
proof -
  have "commit_channel s' = commit_channel s @ out" "pubkey_to_chain s' = chs" "c' = committed_to (b_height b) c"
    using commit_prev_linearize [OF assms(1-3)] assms(6)
    by (auto simp: commit_def act_defs on_core_def deliver_appends)
  moreover have "unat (b_height b) < 2 ^ LENGTH(64)" "unat (ch_last_committed_height c) < 2 ^ LENGTH(64)"
    by (rule unsigned_less)+
  then have room: "unat (ch_last_committed_height c) + missing_heights c (b_height b) < 2 ^ 64"
    by (simp add: missing_heights_def)
  moreover have "unat (ch_last_committed_height (committed_to (b_height b) c))
      = unat (ch_last_committed_height c) + missing_heights c (b_height b)"
    by (simp add: committed_to_def missing_heights_def max_def word_le_nat_alt)
  ultimately show ?thesis
    using linearize_heights [OF assms(1,4,5) room] by auto
qed

text \<open>A leader block with a reference to the first block of node 2.\<close>

definition example_file :: "(public_key \<times> chain) list" where
  "example_file = AList.update (PublicKey 2)
     ((chain_new (PublicKey 2) example_committee)\<lparr>ch_height_to_digest := [1 \<mapsto> Digest 12]\<rparr>)
     (pubkey_to_chain (example_core []))"

definition example_chain :: chain where
  "example_chain = (chain_new (PublicKey 1) example_committee)\<lparr>ch_height_to_digest := [1 \<mapsto> Digest 11]\<rparr>"

abbreviation "leader_block \<equiv> example_block 1 1 [(2, 12)]"
abbreviation "other_block \<equiv> example_block 2 1 []"

definition commit_state :: "(bytes \<times> bytes) list core" where
  "commit_state = (example_core [(11, 0), (12, 1)])\<lparr>pubkey_to_chain := example_file\<rparr>"

lemma example_stored:
  "stored_block (example_env [leader_block, other_block] 10) (store commit_state) (Digest 11) = Some leader_block"
  "stored_block (example_env [leader_block, other_block] 10) (store commit_state) (Digest 12) = Some other_block"
  by (simp_all add: stored_block_def qc_genesis_def default_digest_def example_env_def commit_state_def
      example_core_def core_new_def)

lemma example_block_fields [simp]:
  "b_author (example_block a h refs) = PublicKey a" "b_height (example_block a h refs) = h"
  "b_references (example_block a h refs) = map (\<lambda>(k, d). (PublicKey k, Digest d)) refs"
  "b_payload (example_block a h refs) = []"
  by (simp_all add: example_block_def)

lemma example_chain_fields [simp]:
  "ch_height_to_digest example_chain = [1 \<mapsto> Digest 11]" "ch_last_committed_height example_chain = 0"
  "pubkey_to_chain commit_state = example_file" "epoch commit_state = 0"
  "leader_elector commit_state = example_committee" "commit_channel commit_state = []"
  by (simp_all add: example_chain_def chain_new_def commit_state_def example_core_def core_new_def)

lemma example_file_2:
  "map_of example_file (PublicKey 2) =
     Some ((chain_new (PublicKey 2) example_committee)\<lparr>ch_height_to_digest := [1 \<mapsto> Digest 12]\<rparr>)"
  by (simp add: example_file_def)

lemma example_sort: "sort_references (PublicKey 1) leader_block = leader_block"
  by (simp add: sort_references_def example_block_def)

lemma example_linear:
  "linearize (stored_block (example_env [leader_block, other_block] 10) (store commit_state)) (PublicKey 1)
     (pubkey_to_chain commit_state) (ch_height_to_digest example_chain) (ch_last_committed_height example_chain)
     (missing_heights example_chain (b_height leader_block))
   = Some ([other_block, leader_block], AList.update (PublicKey 2)
       (committed_to 1 ((chain_new (PublicKey 2) example_committee)\<lparr>ch_height_to_digest := [1 \<mapsto> Digest 12]\<rparr>)) example_file)"
  using example_stored example_sort
  by (simp add: missing_heights_def example_file_2 chain_new_def)

text \<open>
  C5. When the blocks of the leader's chain up to the committed block and the blocks their
  references reach are on file and stored, and none of these references leads to a block of
  the leader that is not committed yet (otherwise the specification linearize is not defined),
  Core::commit ends with Ok and sends to the commit channel exactly the list linearize gives,
  in its order, tells the mempool of each delivered block with a payload, files the referenced
  chains as committed up to their blocks, and raises the last committed height; the recursion
  bound needed is the number of heights plus the number of blocks delivered.
\<close>

lemma commit_delivers:
  assumes "linearize (stored_block env (store s)) leader (pubkey_to_chain s) (ch_height_to_digest c)
      (ch_last_committed_height c) (missing_heights c (b_height b)) = Some (out, chs)"
    and "get_leader (leader_elector s) (epoch s) = Some leader"
    and "missing_heights c (b_height b) + length out < fuel env"
  shows "commit env b (s, c) = (Ok (), (s\<lparr>pubkey_to_chain := chs, commit_channel := commit_channel s @ out,
      mempool_channel := mempool_channel s @
        map (\<lambda>b. MCleanup (b_payload b) (b_height b)) (filter (\<lambda>b. b_payload b \<noteq> []) out)\<rparr>,
      committed_to (b_height b) c))"
  using commit_prev_linearize [OF assms]
  by (simp add: commit_def act_defs on_core_def deliver_appends)

lemma commit_delivers_witness:
  "commit_channel (fst (snd (commit (example_env [leader_block, other_block] 10) leader_block
     (commit_state, example_chain)))) = [other_block, leader_block]"
  by (subst commit_delivers [OF example_linear])
    (simp_all add: example_leader missing_heights_def example_env_def)

lemma commit_once_in_order_witness:
  "\<exists>r s' c'. commit (example_env [leader_block, other_block] 10) leader_block (commit_state, example_chain) = (r, (s', c')) \<and>
   (\<exists>new. commit_channel s' = new \<and> heights (PublicKey 1) new = [1..<unat (ch_last_committed_height c') + 1])"
proof -
  obtain r s' c' where run: "commit (example_env [leader_block, other_block] 10) leader_block
      (commit_state, example_chain) = (r, (s', c'))"
    by (metis prod.collapse)
  have "coherent (stored_block (example_env [leader_block, other_block] 10) (store commit_state)) (pubkey_to_chain commit_state)"
    using example_stored
    by (auto simp: coherent_def leads_to_def example_file_def example_core_def core_new_def chain_new_def split: if_splits)
  moreover have "leads_to (stored_block (example_env [leader_block, other_block] 10) (store commit_state))
      (ch_height_to_digest example_chain) (PublicKey 1)"
    using example_stored by (auto simp: leads_to_def split: if_splits)
  ultimately show ?thesis
    using commit_once_in_order [OF example_linear _ _ _ _ run] run
    by (auto simp: example_leader missing_heights_def example_env_def)
qed


section \<open>Gaps and cycles\<close>

text \<open>A chain with a hole is pushed up to the hole, and the flag is false.\<close>

lemma commit_gap:
  assumes "segment (stored_block env (store s)) (ch_height_to_digest c) (ch_last_committed_height c) j = Some bs"
    and "\<forall>x \<in> set bs. b_author x \<noteq> leader"
    and "get_leader (leader_elector s) (epoch s) = Some leader"
    and "j < missing_heights c (b_height b)"
    and "ch_height_to_digest c (ch_last_committed_height c + of_nat j + 1) = None"
    and "j < n"
  shows "\<exists>c'. commit_prev_block env n b tc (s, c) = (Ok (False, rev bs @ tc), (s, c'))"
  using assms
proof (induction j arbitrary: c bs tc n)
  case 0
  then have "\<not> b_height b \<le> ch_last_committed_height c"
    by (simp add: missing_heights_def word_le_nat_alt)
  moreover obtain n' where "n = Suc n'"
    using 0 by (cases n) auto
  ultimately show ?case
    using 0 by (simp add: act_defs)
next
  case (Suc j)
  let ?c = "c\<lparr>ch_last_committed_height := ch_last_committed_height c + 1\<rparr>"
  obtain k where h: "unat (b_height b) = unat (ch_last_committed_height c) + Suc k"
    using Suc.prems(4) by (metis missing_heights_def less_imp_add_positive Suc_diff_1 diff_is_0_eq'
        gr_zeroI le_add_diff_inverse nat_le_linear not_less_zero)
  note step = unat_Suc_le [OF h]
  obtain d x bs' where
    d: "ch_height_to_digest c (ch_last_committed_height c + 1) = Some d"
    and x: "stored_block env (store s) d = Some x" and bs: "bs = x # bs'"
    and rest: "segment (stored_block env (store s)) (ch_height_to_digest c)
      (ch_last_committed_height c + 1) j = Some bs'"
    using Suc.prems(1) by (auto split: option.splits)
  obtain n' where n: "n = Suc n'" "j < n'"
    using Suc.prems(6) by (cases n) auto
  have "\<exists>c'. commit_prev_block env n' b (x # tc) (s, ?c) = (Ok (False, rev bs' @ x # tc), (s, c'))"
  proof (rule Suc.IH [OF _ _ Suc.prems(3) _ _ n(2)])
    show "j < missing_heights ?c (b_height b)"
      using Suc.prems(4) step(2) h by (simp add: missing_heights_def)
    show "ch_height_to_digest ?c (ch_last_committed_height ?c + of_nat j + 1) = None"
      using Suc.prems(5) by (simp add: add.assoc add.left_commute)
  qed (use rest Suc.prems(2) bs in simp_all)
  moreover have "commit_prev_block env n b tc (s, c) = commit_prev_block env n' b (x # tc) (s, ?c)"
    unfolding n(1) using Suc.prems(2) bs by (intro commit_round_plain [OF step(1) d x Suc.prems(3)]) simp
  ultimately show ?case
    using bs by simp
qed

text \<open>
  A leader block whose first reference reaches a chain with a hole: the part below the hole is
  delivered, and nothing of it is filed.
\<close>

lemma commit_before_gap:
  assumes "\<not> b_height b \<le> ch_last_committed_height c"
    and "ch_height_to_digest c (ch_last_committed_height c + 1) = Some d"
    and "stored_block env (store s) d = Some x" and "b_author x = leader"
    and "get_leader (leader_elector s) (epoch s) = Some leader"
    and "sort_key fst (b_references x) = r # refs"
    and "stored_block env (store s) (snd r) = Some y"
    and "map_of (pubkey_to_chain s) (b_author y) = Some ch"
    and "segment (stored_block env (store s)) (ch_height_to_digest ch) (ch_last_committed_height ch) j = Some bs"
    and "\<forall>z \<in> set bs. b_author z \<noteq> leader"
    and "j < missing_heights ch (b_height y)"
    and "ch_height_to_digest ch (ch_last_committed_height ch + of_nat j + 1) = None"
    and "Suc j < fuel env"
  shows "\<exists>sent. commit env b (s, c) = (Ok (), (s\<lparr>commit_channel := commit_channel s @ bs,
      mempool_channel := mempool_channel s @ sent\<rparr>, c))"
proof -
  obtain n where n: "fuel env = Suc n" "j < n"
    using assms(13) by (cases "fuel env") auto
  obtain c' where "commit_prev_block env n y [] (s, ch) = (Ok (False, rev bs), (s, c'))"
    using commit_gap [OF assms(9,10,5,11,12) n(2), of "[]"] by auto
  then have "commit_refs env (commit_prev_block env n) (r # refs) [] s = (Ok (False, rev bs), s)"
    using get_block_found [OF assms(7)] assms(8) by (simp add: act_defs run_with_def)
  then have "commit_prev_block env (Suc n) b [] (s, c) = (Ok (False, rev bs), (s, c))"
    using assms(1,2,4,6) get_block_found [OF assms(3)] leader_of_found [OF assms(5)]
    by (simp add: act_defs on_core_def modify_chain_def)
  then have "commit env b (s, c) = (Ok (), (s\<lparr>commit_channel := commit_channel s @ bs,
      mempool_channel := mempool_channel s @
        map (\<lambda>b. MCleanup (b_payload b) (b_height b)) (filter (\<lambda>b. b_payload b \<noteq> []) bs)\<rparr>, c))"
    by (simp add: commit_def n act_defs on_core_def deliver_appends del: commit_prev_block.simps)
  then show ?thesis
    by blast
qed

text \<open>
  When the first reference of a leader block reaches a chain with a missing height, a
  commit delivers the blocks below the gap and files nothing, so a second commit delivers the
  same blocks again.
\<close>

lemma commit_repeats_before_gap:
  assumes "\<not> b_height b \<le> ch_last_committed_height c"
    and "ch_height_to_digest c (ch_last_committed_height c + 1) = Some d"
    and "stored_block env (store s) d = Some x" and "b_author x = leader"
    and "get_leader (leader_elector s) (epoch s) = Some leader"
    and "sort_key fst (b_references x) = r # refs"
    and "stored_block env (store s) (snd r) = Some y"
    and "map_of (pubkey_to_chain s) (b_author y) = Some ch"
    and "segment (stored_block env (store s)) (ch_height_to_digest ch) (ch_last_committed_height ch) j = Some bs"
    and "\<forall>z \<in> set bs. b_author z \<noteq> leader"
    and "j < missing_heights ch (b_height y)"
    and "ch_height_to_digest ch (ch_last_committed_height ch + of_nat j + 1) = None"
    and "Suc j < fuel env"
  shows "commit_channel (fst (snd (bind (commit env b) (\<lambda>_. commit env b) (s, c)))) = commit_channel s @ bs @ bs"
proof -
  obtain sent where first: "commit env b (s, c) = (Ok (), (s\<lparr>commit_channel := commit_channel s @ bs,
      mempool_channel := mempool_channel s @ sent\<rparr>, c))" (is "_ = (_, (?s, c))")
    using commit_before_gap [OF assms] by blast
  have "\<exists>sent. commit env b (?s, c) = (Ok (), (?s\<lparr>commit_channel := commit_channel ?s @ bs,
      mempool_channel := mempool_channel ?s @ sent\<rparr>, c))"
    by (rule commit_before_gap) (use assms in simp_all)
  then show ?thesis
    using first by (auto simp: bind_def)
qed

text \<open>
  A leader block that references another block of the leader which is not committed yet: the
  chain on file is not changed before the recursive call, so the call meets the same block
  again, however deep the recursion goes.
\<close>

lemma commit_cycle:
  assumes "\<not> b_height y \<le> ch_last_committed_height c"
    and "ch_height_to_digest c (ch_last_committed_height c + 1) = Some d"
    and "stored_block env (store s) d = Some x" and "b_author x = leader"
    and "get_leader (leader_elector s) (epoch s) = Some leader"
    and "sort_key fst (b_references x) = r # refs"
    and "stored_block env (store s) (snd r) = Some y" and "b_author y = leader"
    and "map_of (pubkey_to_chain s) leader = Some c"
  shows "fst (commit_prev_block env n y tc (s, c)) = Diverge"
proof (induction n)
  case 0
  then show ?case by (simp add: act_defs)
next
  case (Suc n)
  obtain s' where "commit_refs env (commit_prev_block env n) (r # refs) tc s = (Diverge, s')"
    using get_block_found [OF assms(7)] assms(8,9) Suc
    by (cases "commit_prev_block env n y tc (s, c)") (auto simp: act_defs run_with_def split: prod.splits)
  then show ?case
    using assms(1,2,4,6) get_block_found [OF assms(3)] leader_of_found [OF assms(5)]
    by (simp add: act_defs on_core_def modify_chain_def)
qed


lemma commit_repeats_witness:
  "commit_channel (fst (snd (bind (commit (example_env [leader_block, example_block 2 2 [], other_block] 10) leader_block)
     (\<lambda>_. commit (example_env [leader_block, example_block 2 2 [], other_block] 10) leader_block)
     ((example_core [(11, 0), (12, 1), (13, 2)])\<lparr>pubkey_to_chain := AList.update (PublicKey 2)
        ((chain_new (PublicKey 2) example_committee)\<lparr>ch_height_to_digest := [1 \<mapsto> Digest 13]\<rparr>)
        (pubkey_to_chain (example_core []))\<rparr>, example_chain)))) = [other_block, other_block]"
proof -
  let ?env = "example_env [leader_block, example_block 2 2 [], other_block] 10"
  let ?ch = "(chain_new (PublicKey 2) example_committee)\<lparr>ch_height_to_digest := [1 \<mapsto> Digest 13]\<rparr>"
  let ?s = "(example_core [(11, 0), (12, 1), (13, 2)])\<lparr>pubkey_to_chain := AList.update (PublicKey 2) ?ch
        (pubkey_to_chain (example_core []))\<rparr>"
  have stored: "stored_block ?env (store ?s) (Digest 11) = Some leader_block"
    "stored_block ?env (store ?s) (Digest 12) = Some (example_block 2 2 [])"
    "stored_block ?env (store ?s) (Digest 13) = Some other_block"
    by (simp_all add: stored_block_def qc_genesis_def default_digest_def example_env_def
      example_core_def core_new_def)
  have seg: "segment (stored_block ?env (store ?s)) (ch_height_to_digest ?ch) (ch_last_committed_height ?ch) 1
      = Some [other_block]"
    using stored(3) by (simp add: chain_new_def)
  show ?thesis
    using commit_repeats_before_gap [OF _ _ stored(1) _ _ _ _ _ seg, of leader_block example_chain "PublicKey 1"
        "(PublicKey 2, Digest 12)" "[]" "example_block 2 2 []"] stored(2)
    by (simp add: example_leader missing_heights_def chain_new_def example_core_def core_new_def example_env_def)
qed

text \<open>
  C27. A leader block whose first reference is to a later, uncommitted block of the same
  leader makes the commit of that later block recurse forever: no recursion bound is enough.
\<close>

lemma commit_cycle_diverges:
  assumes "\<not> b_height y \<le> ch_last_committed_height c"
    and "ch_height_to_digest c (ch_last_committed_height c + 1) = Some d"
    and "stored_block env (store s) d = Some x" and "b_author x = leader"
    and "get_leader (leader_elector s) (epoch s) = Some leader"
    and "sort_key fst (b_references x) = r # refs"
    and "stored_block env (store s) (snd r) = Some y" and "b_author y = leader"
    and "map_of (pubkey_to_chain s) leader = Some c"
  shows "fst (commit env y (s, c)) = Diverge"
  using commit_cycle [OF assms, of "fuel env" "[]"]
  by (cases "commit_prev_block env (fuel env) y [] (s, c)") (auto simp: commit_def bind_def)

lemma commit_cycle_witness:
  "fst (commit (example_env [example_block 1 1 [(1, 12)], example_block 1 2 []] 1000) (example_block 1 2 [])
     ((example_core [(11, 0), (12, 1)])\<lparr>pubkey_to_chain := [(PublicKey 1, example_chain)]\<rparr>, example_chain)) = Diverge"
proof -
  let ?env = "example_env [example_block 1 1 [(1, 12)], example_block 1 2 []] 1000"
  let ?s = "(example_core [(11, 0), (12, 1)])\<lparr>pubkey_to_chain := [(PublicKey 1, example_chain)]\<rparr>"
  have stored: "stored_block ?env (store ?s) (Digest 11) = Some (example_block 1 1 [(1, 12)])"
    "stored_block ?env (store ?s) (Digest 12) = Some (example_block 1 2 [])"
    by (simp_all add: stored_block_def qc_genesis_def default_digest_def example_env_def
      example_core_def core_new_def)
  show ?thesis
    by (rule commit_cycle_diverges [OF _ _ stored(1), of _ _ "PublicKey 1" "(PublicKey 1, Digest 12)" "[]"])
      (use stored(2) in \<open>simp_all add: example_leader example_core_def core_new_def\<close>)
qed

end
