(* ===== verification/Replication.thy ===== *)
theory Replication
  imports Delivery
begin

text \<open>
  What different nodes deliver. A commit is refined a second time, to an order of blocks that
  depends on no node: on the digests certified for each chain and height and on the blocks
  behind the digests only. So it makes no difference which node commits, nor whether it gets to
  a block of the leader in one commit or in two. The other part is an epoch that ends while
  the leader's chain has a gap.
\<close>

section \<open>The order of blocks\<close>

text \<open>
  \<open>blk\<close> gives the block of a digest, \<open>cert\<close> the digest of an authority's chain at a height, and
  \<open>hs\<close> the height up to which each chain is committed. The references of a leader block to
  the leader's own chain do not count.
\<close>

type_synonym heights = "public_key \<rightharpoonup> u64"

fun order_refs :: "(digest \<Rightarrow> block option) \<Rightarrow> (public_key \<Rightarrow> u64 \<rightharpoonup> digest) \<Rightarrow> public_key \<Rightarrow> heights \<Rightarrow>
    (public_key \<times> digest) list \<Rightarrow> (block list \<times> heights) option" where
  "order_refs blk cert leader hs [] = Some ([], hs)"
| "order_refs blk cert leader hs (r # refs) = (case blk (snd r) of None \<Rightarrow> None | Some b \<Rightarrow>
     if b_author b = leader then order_refs blk cert leader hs refs else
     (case hs (b_author b) of None \<Rightarrow> None | Some lo \<Rightarrow>
     (case segment blk (cert (b_author b)) lo (unat (b_height b) - unat lo) of None \<Rightarrow> None | Some bs \<Rightarrow>
     (case order_refs blk cert leader (hs(b_author b \<mapsto> max (b_height b) lo)) refs of None \<Rightarrow> None
      | Some (rest, hs') \<Rightarrow> Some (bs @ rest, hs')))))"

fun order_chain :: "(digest \<Rightarrow> block option) \<Rightarrow> (public_key \<Rightarrow> u64 \<rightharpoonup> digest) \<Rightarrow> public_key \<Rightarrow> heights \<Rightarrow>
    u64 \<Rightarrow> nat \<Rightarrow> (block list \<times> heights) option" where
  "order_chain blk cert leader hs lo 0 = Some ([], hs)"
| "order_chain blk cert leader hs lo (Suc n) = (case cert leader (lo + 1) of None \<Rightarrow> None | Some d \<Rightarrow>
     (case blk d of None \<Rightarrow> None | Some b \<Rightarrow>
     (case order_refs blk cert leader hs (sort_key fst (b_references b)) of None \<Rightarrow> None | Some (bs, hs1) \<Rightarrow>
     (case order_chain blk cert leader hs1 (lo + 1) n of None \<Rightarrow> None | Some (rest, hs2) \<Rightarrow>
        Some (bs @ sort_references leader b # rest, hs2)))))"


section \<open>Longer commits extend shorter ones\<close>

lemma order_refs_leader:
  "order_refs blk cert leader hs refs = Some (bs, hs') \<Longrightarrow> hs' leader = hs leader"
  by (induction blk cert leader hs refs arbitrary: bs hs' rule: order_refs.induct)
    (auto split: option.splits if_splits)


lemma order_chain_leader:
  "order_chain blk cert leader hs lo n = Some (bs, hs') \<Longrightarrow> hs' leader = hs leader"
  by (induction n arbitrary: hs lo bs) (fastforce split: option.splits dest: order_refs_leader)+




section \<open>A commit follows the order\<close>










section \<open>The nodes\<close>




section \<open>One commit or two, here or there\<close>



text \<open>
  Node 1 leads. One node commits its first block and then its second, another node commits the
  second block at once.
\<close>

abbreviation "second_block \<equiv> example_block 1 2 []"

definition replica_env :: "(bytes \<times> bytes) list env" where
  "replica_env = example_env [leader_block, other_block, second_block] 10"

definition leader_chain :: chain where
  "leader_chain = (chain_new (PublicKey 1) example_committee)\<lparr>ch_height_to_digest := [1 \<mapsto> Digest 11, 2 \<mapsto> Digest 13]\<rparr>"

definition other_chain :: chain where
  "other_chain = (chain_new (PublicKey 2) example_committee)\<lparr>ch_height_to_digest := [1 \<mapsto> Digest 12]\<rparr>"

definition replica_state :: "chain \<Rightarrow> chain \<Rightarrow> block list \<Rightarrow> (bytes \<times> bytes) list core" where
  "replica_state c1 c2 out = (example_core [(11, 0), (12, 1), (13, 2)])\<lparr>
     pubkey_to_chain := AList.update (PublicKey 1) c1 (AList.update (PublicKey 2) c2 (pubkey_to_chain (example_core []))),
     commit_channel := out\<rparr>"


definition replica_store :: "(bytes \<times> bytes) list" where
  "replica_store = store (example_core [(11, 0), (12, 1), (13, 2)])"

abbreviation "replica_blocks \<equiv> stored_block replica_env replica_store"

lemma replica_chains [simp]:
  "ch_height_to_digest leader_chain = [1 \<mapsto> Digest 11, 2 \<mapsto> Digest 13]" "ch_last_committed_height leader_chain = 0"
  "ch_height_to_digest other_chain = [1 \<mapsto> Digest 12]" "ch_last_committed_height other_chain = 0"
  "ch_height_to_digest (committed_to h c) = ch_height_to_digest c"
  "ch_last_committed_height (committed_to h c) = max h (ch_last_committed_height c)"
  by (simp_all add: leader_chain_def other_chain_def chain_new_def committed_to_def)

lemma replica_state_fields [simp]:
  "commit_channel (replica_state c1 c2 out) = out" "epoch (replica_state c1 c2 out) = 0"
  "leader_elector (replica_state c1 c2 out) = example_committee"
  "store (replica_state c1 c2 out) = replica_store"
  "map_of (pubkey_to_chain (replica_state c1 c2 out)) (PublicKey 1) = Some c1"
  "map_of (pubkey_to_chain (replica_state c1 c2 out)) (PublicKey 2) = Some c2"
  "fuel replica_env = 10"
  by (simp_all add: replica_state_def update_conv' example_core_def core_new_def replica_env_def example_env_def replica_store_def)

lemma replica_stored [simp]:
  "replica_blocks (Digest 11) = Some leader_block" "replica_blocks (Digest 12) = Some other_block"
  "replica_blocks (Digest 13) = Some second_block"
  by (simp_all add: stored_block_def qc_genesis_def default_digest_def replica_env_def example_env_def replica_store_def
      example_core_def core_new_def)

lemma replica_sort [simp]:
  "sort_references (PublicKey 1) leader_block = leader_block" "sort_references (PublicKey 1) second_block = second_block"
  by (simp_all add: sort_references_def example_block_def)







section \<open>An epoch that ends with a gap\<close>

text \<open>
  C28. When the agreement has ended with the height of a stored block but the leader's chain
  has no digest right above its last committed height, the end of the epoch delivers nothing,
  and yet advances the epoch, marks the chain as committed beyond that height and forgets all
  digests up to it. On every node but the leader that is all; the leader goes on from there to
  propose a block.
\<close>

theorem epoch_end_loses_blocks:
  assumes "ch_height_to_digest c h = Some d" and "stored_block env (store s) d = Some b"
    and "ch_last_committed_height c < b_height b"
    and "ch_height_to_digest c (ch_last_committed_height c + 1) = None" and "fuel env \<noteq> 0"
  shows "\<exists>s' c'. commit_channel s' = commit_channel s \<and> epoch s' = epoch s + 1
    \<and> ch_last_committed_height c' = h + NEXT_EPOCH_HEIGHT - 1 \<and> (\<forall>k \<le> h. ch_height_to_digest c' k = None)
    \<and> next_epoch env h (s, c) =
       (if ch_name c = name s
        then bind (generate_proposal env True) (broadcast_propose env (handle_vote env)) (s', c')
        else (Ok (), (s', c')))"
proof -
  obtain n where "fuel env = Suc n"
    using assms(5) by (cases "fuel env") auto
  with assms(3,4) have commit: "commit env b (s, c) = (Ok (), (s, c))"
    by (simp add: commit_def act_defs on_core_def)
  have found: "get_block env (name s) d None s = (Ok (Some b), s)"
    using get_block_found [OF assms(2)] .
  let ?s = "reset_epoch (s\<lparr>epoch := epoch s + 1\<rparr>)" and ?c = "reset_chain h c"
  have name: "ch_name ?c = ch_name c" "name ?s = name s"
    by (simp_all add: reset_chain_def reset_epoch_def Let_def)
  have "next_epoch env h (s, c) = (if ch_name c = name s
      then bind (generate_proposal env True) (broadcast_propose env (handle_vote env)) (?s, ?c) else (Ok (), (?s, ?c)))"
    using assms(1) found commit name
    by (simp add: next_epoch_def act_defs on_core_def modify_chain_def)
  then show ?thesis
    by (intro exI [of _ ?s] exI [of _ ?c]) (auto simp: reset_chain_def reset_epoch_def Let_def)
qed

lemma epoch_end_loses_blocks_witness:
  "\<exists>s' c'. next_epoch replica_env 2 ((replica_state leader_chain other_chain [])\<lparr>name := PublicKey 3\<rparr>,
        leader_chain\<lparr>ch_height_to_digest := [2 \<mapsto> Digest 13]\<rparr>)
       = (Ok (), (s', c')) \<and> commit_channel s' = [] \<and> epoch s' = 1 \<and> ch_last_committed_height c' = 11"
proof -
  let ?s = "(replica_state leader_chain other_chain [])\<lparr>name := PublicKey 3\<rparr>"
  let ?c = "leader_chain\<lparr>ch_height_to_digest := [2 \<mapsto> Digest 13]\<rparr>"
  have "ch_height_to_digest ?c 2 = Some (Digest 13)" "ch_name ?c \<noteq> name ?s"
    by (simp_all add: leader_chain_def chain_new_def)
  moreover have "stored_block replica_env (store ?s) (Digest 13) = Some second_block"
    using replica_stored(3) by simp
  ultimately show ?thesis
    using epoch_end_loses_blocks [of ?c 2 "Digest 13" replica_env ?s second_block]
    by (auto simp: NEXT_EPOCH_HEIGHT_def)
qed

end
