(* ===== verification/Store_Client.thy ===== *)
theory Store_Client
  imports Store
begin

text \<open>
  The handle \<open>Store\<close> of \<^verbatim>\<open>store/src/lib.rs\<close>: the calls of the tasks that share it, the
  channel into which they send, and the task that takes one command after the other. A read
  sees every write whose call came before it, by whatever task.
\<close>

section \<open>Calls\<close>

text \<open>
  The channel is shared by all clones of the handle; that a full channel delays its sender is
  not modelled. The \<open>oneshot\<close> channels are numbered, and
  what was sent on them is \<open>ss_replies\<close>. A call is what happens until the command is sent;
  \<open>await_reply\<close> looks for the reply, and returns \<open>None\<close> as long as there is none.
\<close>

record 'db store_system =
  ss_task :: "'db store_task"
  ss_running :: bool
  ss_channel :: "store_command list"
  ss_next :: nat
  ss_replies :: "store_reply list"

type_synonym ('db, 'a) store_act = "('db store_system, store_error, 'a) act"

definition store_open :: "'db \<Rightarrow> 'db store_system" where
  "store_open d = \<lparr>ss_task = store_new d, ss_running = True, ss_channel = [], ss_next = 0, ss_replies = []\<rparr>"

definition store_send :: "store_command \<Rightarrow> ('db, unit) store_act" where
  "store_send c = bind (gets ss_running) (\<lambda>running.
     if running then modify (\<lambda>s. s\<lparr>ss_channel := ss_channel s @ [c]\<rparr>) else panic ChannelClosed)"

definition oneshot :: "('db, nat) store_act" where
  "oneshot = bind (gets ss_next) (\<lambda>i. bind (modify (\<lambda>s. s\<lparr>ss_next := ss_next s + 1\<rparr>)) (\<lambda>_. ret i))"

definition store_write :: "bytes \<Rightarrow> bytes \<Rightarrow> ('db, unit) store_act" where
  "store_write k v = store_send (Write k v)"

definition store_read :: "bytes \<Rightarrow> ('db, nat) store_act" where
  "store_read k = bind oneshot (\<lambda>i. bind (store_send (Read k i)) (\<lambda>_. ret i))"

definition store_notify_read :: "bytes \<Rightarrow> ('db, nat) store_act" where
  "store_notify_read k = bind oneshot (\<lambda>i. bind (store_send (NotifyRead k i)) (\<lambda>_. ret i))"

definition read_replies :: "nat \<Rightarrow> store_reply list \<Rightarrow> (store_error + bytes option) list" where
  "read_replies i rs = List.map_filter (\<lambda>r. case r of ReadReply j x \<Rightarrow> (if j = i then Some x else None) | _ \<Rightarrow> None) rs"

text \<open>\<open>receiver.await.expect(...)\<close>: a reply that can never come panics.\<close>

definition await_reply :: "(store_reply list \<Rightarrow> 'a list) \<Rightarrow> ('db, 'a option) store_act" where
  "await_reply replies = bind (gets id) (\<lambda>s. case replies (ss_replies s) of
     x # _ \<Rightarrow> ret (Some x)
   | [] \<Rightarrow> if ss_running s then ret None else panic ExpectFailed)"

definition await_read :: "nat \<Rightarrow> ('db, (store_error + bytes option) option) store_act" where
  "await_read i = await_reply (read_replies i)"

definition await_notify_read :: "nat \<Rightarrow> ('db, (store_error + bytes) option) store_act" where
  "await_notify_read i = await_reply (notify_replies i)"

section \<open>The task and its clients together\<close>

definition task_round :: "(bytes \<Rightarrow> bytes \<Rightarrow> 'db \<Rightarrow> 'db) \<Rightarrow> (bytes \<Rightarrow> 'db \<Rightarrow> store_error + bytes option) \<Rightarrow>
    ('db, unit) store_act" where
  "task_round put get = modify (\<lambda>s. case ss_channel s of [] \<Rightarrow> s
     | c # cs \<Rightarrow> (case store_step put get c (ss_task s) of (out, t) \<Rightarrow>
         s\<lparr>ss_channel := cs, ss_task := t, ss_replies := ss_replies s @ out\<rparr>))"

datatype store_event = WriteCall bytes bytes | ReadCall bytes | NotifyCall bytes | TaskRound

fun system_step :: "(bytes \<Rightarrow> bytes \<Rightarrow> 'db \<Rightarrow> 'db) \<Rightarrow> (bytes \<Rightarrow> 'db \<Rightarrow> store_error + bytes option) \<Rightarrow>
    store_event \<Rightarrow> ('db, unit) store_act" where
  "system_step put get (WriteCall k v) = store_write k v"
| "system_step put get (ReadCall k) = bind (store_read k) (\<lambda>_. ret ())"
| "system_step put get (NotifyCall k) = bind (store_notify_read k) (\<lambda>_. ret ())"
| "system_step put get TaskRound = task_round put get"

fun system_run :: "(bytes \<Rightarrow> bytes \<Rightarrow> 'db \<Rightarrow> 'db) \<Rightarrow> (bytes \<Rightarrow> 'db \<Rightarrow> store_error + bytes option) \<Rightarrow>
    store_event list \<Rightarrow> ('db, unit) store_act" where
  "system_run put get [] = ret ()"
| "system_run put get (e # es) = bind (system_step put get e) (\<lambda>_. system_run put get es)"

section \<open>What is sent and what is answered\<close>

fun sent :: "nat \<Rightarrow> store_event list \<Rightarrow> store_command list" where
  "sent i [] = []"
| "sent i (WriteCall k v # es) = Write k v # sent i es"
| "sent i (ReadCall k # es) = Read k i # sent (Suc i) es"
| "sent i (NotifyCall k # es) = NotifyRead k i # sent (Suc i) es"
| "sent i (TaskRound # es) = sent i es"

definition asks :: "store_event \<Rightarrow> bool" where
  "asks e \<longleftrightarrow> (case e of ReadCall k \<Rightarrow> True | NotifyCall k \<Rightarrow> True | _ \<Rightarrow> False)"

definition call_count :: "store_event list \<Rightarrow> nat" where
  "call_count es = length (filter asks es)"

definition values_written :: "bytes \<Rightarrow> store_event list \<Rightarrow> bytes list" where
  "values_written k es = List.map_filter (\<lambda>e. case e of WriteCall k' v \<Rightarrow> (if k' = k then Some v else None) | _ \<Rightarrow> None) es"

lemma call_simps [simp]:
  "call_count [] = 0" "call_count (e # es) = (if asks e then Suc (call_count es) else call_count es)"
  "asks (ReadCall k)" "asks (NotifyCall k)" "\<not> asks (WriteCall k v)" "\<not> asks TaskRound"
  by (simp_all add: call_count_def asks_def)

lemma sent_append: "sent i (es @ es') = sent i es @ sent (i + call_count es) es'"
  by (induction i es rule: sent.induct) simp_all

lemma written_sent: "written k (sent i es) = values_written k es"
  by (induction i es rule: sent.induct) (simp_all add: values_written_def map_filter_simps)

definition reply_channel :: "store_command \<Rightarrow> nat option" where
  "reply_channel c = (case c of Write k v \<Rightarrow> None | Read k i \<Rightarrow> Some i | NotifyRead k i \<Rightarrow> Some i)"

lemma sent_numbers: "c \<in> set (sent i es) \<Longrightarrow> reply_channel c = Some j \<Longrightarrow> i \<le> j \<and> j < i + call_count es"
  by (induction i es rule: sent.induct) (auto simp: reply_channel_def)

lemma system_run_sent:
  assumes "ss_running s"
  shows "\<exists>cs rest. ss_channel s @ sent (ss_next s) es = cs @ rest
    \<and> system_run put get es s = (Ok (), s\<lparr>ss_task := snd (store_run put get cs (ss_task s)), ss_channel := rest,
        ss_next := ss_next s + call_count es, ss_replies := ss_replies s @ fst (store_run put get cs (ss_task s))\<rparr>)"
  using assms
proof (induction es arbitrary: s)
  case Nil
  then show ?case by (intro exI [of _ "[]"] exI [of _ "ss_channel s"]) (simp add: act_defs)
next
  case (Cons e es)
  have call: ?case if step: "system_step put get e s = (Ok (), s\<lparr>ss_channel := ss_channel s @ [c], ss_next := n\<rparr>)"
    and c: "sent (ss_next s) (e # es) = c # sent n es" and n: "n + call_count es = ss_next s + call_count (e # es)" for c n
  proof -
    let ?s = "s\<lparr>ss_channel := ss_channel s @ [c], ss_next := n\<rparr>"
    from Cons.IH [of ?s] Cons.prems obtain cs rest where "ss_channel ?s @ sent n es = cs @ rest"
      "system_run put get es ?s = (Ok (), ?s\<lparr>ss_task := snd (store_run put get cs (ss_task s)), ss_channel := rest,
        ss_next := n + call_count es, ss_replies := ss_replies s @ fst (store_run put get cs (ss_task s))\<rparr>)"
      by auto
    with step c n show ?thesis
      by (intro exI [of _ cs] exI [of _ rest]) (simp add: bind_def del: call_simps)
  qed
  show ?case
  proof (cases e)
    case (WriteCall k v)
    with Cons.prems show ?thesis
      by (intro call [where c = "Write k v" and n = "ss_next s"]) (simp_all add: store_write_def store_send_def act_defs)
  next
    case (ReadCall k)
    with Cons.prems show ?thesis
      by (intro call [where c = "Read k (ss_next s)" and n = "Suc (ss_next s)"]) (simp_all add: store_read_def oneshot_def store_send_def act_defs)
  next
    case (NotifyCall k)
    with Cons.prems show ?thesis
      by (intro call [where c = "NotifyRead k (ss_next s)" and n = "Suc (ss_next s)"])
        (simp_all add: store_notify_read_def oneshot_def store_send_def act_defs)
  next
    case TaskRound
    show ?thesis
    proof (cases "ss_channel s")
      case Nil
      with Cons.IH [of s] Cons.prems TaskRound show ?thesis
        by (simp add: task_round_def act_defs)
    next
      case channel: (Cons c cs)
      obtain out t where step: "store_step put get c (ss_task s) = (out, t)"
        by (cases "store_step put get c (ss_task s)")
      let ?s = "s\<lparr>ss_channel := cs, ss_task := t, ss_replies := ss_replies s @ out\<rparr>"
      from Cons.IH [of ?s] Cons.prems obtain ds rest where "ss_channel ?s @ sent (ss_next s) es = ds @ rest"
        "system_run put get es ?s = (Ok (), ?s\<lparr>ss_task := snd (store_run put get ds t), ss_channel := rest,
          ss_next := ss_next s + call_count es, ss_replies := ss_replies s @ out @ fst (store_run put get ds t)\<rparr>)"
        by auto
      with channel step TaskRound show ?thesis
        by (intro exI [of _ "c # ds"] exI [of _ rest]) (simp add: task_round_def act_defs split: prod.split)
    qed
  qed
qed

section \<open>A read sees the writes called before it\<close>

lemma read_replies_simps [simp]:
  "read_replies i [] = []" "read_replies i (rs @ rs') = read_replies i rs @ read_replies i rs'"
  "read_replies i (ReadReply j x # rs) = (if j = i then x # read_replies i rs else read_replies i rs)"
  "read_replies i (NotifyReply j1 y # rs) = read_replies i rs"
  by (simp_all add: read_replies_def map_filter_def)

lemma read_replies_notified [simp]: "read_replies i (map (\<lambda>j. NotifyReply j x) js) = []"
  by (induction js) auto

lemma read_replies_step:
  "read_replies i (fst (store_step put get c s)) = (case c of Read k j \<Rightarrow> if j = i then [get k (db s)] else [] | _ \<Rightarrow> [])"
  by (cases c) (auto simp: Let_def split: option.splits sum.splits)

lemma unread_run:
  "\<forall>c \<in> set cs. reply_channel c \<noteq> Some i \<Longrightarrow> read_replies i (fst (store_run put get cs s)) = []"
  by (induction cs arbitrary: s)
    (auto simp: store_run_Cons read_replies_step reply_channel_def simp del: store_run.simps(2) store_step.simps split: store_command.splits)

lemma append_cut:
  "as @ x # bs = cs @ rest \<Longrightarrow> (\<exists>cs'. as = cs @ cs' \<and> rest \<noteq> []) \<or> (\<exists>ds. cs = as @ x # ds \<and> bs = ds @ rest)"
  by (auto simp: append_eq_append_conv2 Cons_eq_append_conv)

text \<open>
  C24. Over a database whose writes do not fail, whatever it holds at the start, and however
  the tasks that share the store interleave: a read never panics, and its answer, which is
  there once the store's channel is drained, is the last value that any write called before
  the read gave to the key, or if there was no such write what the database held; writes
  called later do not count.
\<close>

theorem read_your_writes:
  assumes "kv_store put get"
    and "system_run put get (before @ ReadCall k # after) (store_open d) = (Ok (), s)"
  shows "\<exists>reply. await_read (call_count before) s = (Ok reply, s)
    \<and> (reply = None \<and> ss_channel s \<noteq> []
       \<or> reply = Some (if values_written k before = [] then get k d else Inr (Some (last (values_written k before)))))"
proof -
  let ?s0 = "store_open d" and ?i = "call_count before"
  let ?run = "\<lambda>cs. store_run put get cs (store_new d)"
  have "ss_running ?s0" by (simp add: store_open_def)
  from system_run_sent [OF this, of "before @ ReadCall k # after" put get] assms(2)
  obtain cs rest where cs: "sent 0 before @ Read k ?i # sent (Suc ?i) after = cs @ rest"
    "ss_channel s = rest" "ss_running s" "ss_replies s = fst (?run cs)"
    by (auto simp: store_open_def sent_append)
  have others: "\<forall>c \<in> set (sent 0 before) \<union> set (sent (Suc ?i) after). reply_channel c \<noteq> Some ?i"
    by (auto dest: sent_numbers)
  from append_cut [OF cs(1)] show ?thesis
  proof (elim disjE exE conjE)
    fix cs' assume "sent 0 before = cs @ cs'" "rest \<noteq> []"
    with others cs have "read_replies ?i (ss_replies s) = []"
      by (simp add: unread_run)
    with cs \<open>rest \<noteq> []\<close> show ?thesis
      by (simp add: await_read_def await_reply_def act_defs)
  next
    fix ds assume ds: "cs = sent 0 before @ Read k ?i # ds" "sent (Suc ?i) after = ds @ rest"
    let ?t = "snd (?run (sent 0 before))"
    have "\<forall>c \<in> set ds. reply_channel c \<noteq> Some ?i" "\<forall>c \<in> set (sent 0 before). reply_channel c \<noteq> Some ?i"
      using others ds(2) by auto
    then have "read_replies ?i (ss_replies s) = [get k (db ?t)]"
      using cs(4) by (simp add: ds(1) store_run_append store_run_Cons unread_run read_replies_step del: store_run.simps(2))
    moreover have "get k (db ?t) = (if values_written k before = [] then get k d else Inr (Some (last (values_written k before))))"
      using kv_store.get_run [OF assms(1), of k "sent 0 before" "store_new d"] by (simp add: written_sent store_new_def)
    ultimately show ?thesis
      by (simp add: await_read_def await_reply_def act_defs)
  qed
qed

lemma read_your_writes_witness:
  "\<exists>reply s. system_run default_put default_get
       ([NotifyCall [2], WriteCall [1] [10], TaskRound, WriteCall [1] [11]] @ ReadCall [1] # [WriteCall [1] [12], TaskRound, TaskRound, TaskRound])
       (store_open [[1] \<mapsto> [9]]) = (Ok (), s)
     \<and> await_read 1 s = (Ok reply, s) \<and> ss_channel s = [Write [1] [12]] \<and> reply = Some (Inr (Some [11]))"
proof -
  let ?before = "[NotifyCall [2], WriteCall [1] [10], TaskRound, WriteCall [1] [11]]"
  let ?after = "[WriteCall [1] [12], TaskRound, TaskRound, TaskRound]"
  obtain s where s: "system_run default_put default_get (?before @ ReadCall [1] # ?after) (store_open [[1] \<mapsto> [9]]) = (Ok (), s)"
      "ss_channel s = [Write [1] [12]]" "read_replies 1 (ss_replies s) = [Inr (Some [11])]"
    by (simp add: store_write_def store_read_def store_notify_read_def store_send_def oneshot_def task_round_def act_defs
        store_open_def store_new_def default_put_def default_get_def)
  from read_your_writes [OF ddb.kv_store_axioms s(1)] s show ?thesis
    by (auto simp: values_written_def map_filter_simps await_read_def await_reply_def act_defs)
qed

end
