(* ===== verification/Encoding.thy ===== *)
theory Encoding
  imports Messages Example_Setup
begin

text \<open>
  Byte forms: digests and keys survive their encodings, signatures their two halves, and what
  is hashed for a vote, a timeout or an agreement value determines it.
\<close>

section \<open>Words and byte strings\<close>

lemma word_of_bytes_snoc: "word_of_bytes (bs @ [b]) = push_bit 8 (word_of_bytes bs) + ucast b"
  by (simp add: word_of_bytes_def)

lemma no_high_bit: "8 \<le> n \<Longrightarrow> \<not> bit (b :: u8) n"
  using bit_imp_le_length [of b n] by auto

lemma push_or:
  fixes v :: "'a::len word"
  shows "push_bit 8 v + ucast (b :: u8) = or (push_bit 8 v) (ucast b)"
  by (rule disjunctive_add_eq_or) (auto intro!: bit_word_eqI simp: bit_simps no_high_bit)

lemma le_bytes_Suc:
  fixes v :: "'a::len word"
  assumes "8 * Suc n \<le> LENGTH('a)"
  shows "le_bytes (Suc n) (push_bit 8 v + ucast b) = b # le_bytes n v"
proof (rule nth_equalityI)
  fix i assume i: "i < length (le_bytes (Suc n) (push_bit 8 v + ucast b))"
  show "le_bytes (Suc n) (push_bit 8 v + ucast b) ! i = (b # le_bytes n v) ! i"
  proof (rule bit_word_eqI)
    fix k :: nat
    assume "k < LENGTH(8)"
    then show "bit (le_bytes (Suc n) (push_bit 8 v + ucast b) ! i) k \<longleftrightarrow> bit ((b # le_bytes n v) ! i) k"
      using i assms by (cases i) (auto simp: le_bytes_def push_or bit_simps nth_Cons
          no_high_bit simp del: upt_Suc)
  qed
qed simp

lemma be_bytes_word_of_bytes:
  "8 * length bs \<le> LENGTH('a::len) \<Longrightarrow> be_bytes (length bs) (word_of_bytes bs :: 'a word) = bs"
proof (induction bs rule: rev_induct)
  case Nil
  then show ?case by (simp add: be_bytes_def le_bytes_def)
next
  case (snoc b bs)
  then show ?case
    using le_bytes_Suc [of "length bs", where ?'a = 'a] by (simp add: word_of_bytes_snoc be_bytes_def)
qed

lemma word_of_be_bytes:
  fixes w :: "'a::len word"
  assumes "LENGTH('a) = 8 * n"
  shows "word_of_bytes (be_bytes n w) = w"
  using be_bytes_word_of_bytes [of "be_bytes n w", where ?'a = 'a] assms
  by (intro be_bytes_inj [of n]) simp_all

text \<open>
  Digest::try_from accepts exactly the byte strings that Digest::to_vec produces, and
  gives back the digest they came from.
\<close>

lemma digest_try_from_iff: "digest_try_from bs = Some d \<longleftrightarrow> bs = digest_to_vec d"
proof
  assume "digest_try_from bs = Some d"
  then have "length bs = 32" "d = Digest (word_of_bytes bs)"
    by (auto simp: digest_try_from_def split: if_splits)
  then show "bs = digest_to_vec d"
    using be_bytes_word_of_bytes [of bs, where ?'a = 256] by (simp add: digest_to_vec_def)
next
  assume "bs = digest_to_vec d"
  then show "digest_try_from bs = Some d"
    using word_of_be_bytes [where ?'a = 256 and n = 32] by (simp add: digest_try_from_def digest_to_vec_def)
qed

text \<open>
  A public key written with to_base64 is read back by from_base64, for any base64 codec
  that decodes what it encoded.
\<close>

lemma base64_round_trip:
  assumes "\<And>bs. decode (encode bs) = Some bs"
  shows "from_base64 decode (to_base64 encode k) = Ok k"
  using word_of_be_bytes [where ?'a = 256 and n = 32, of "key_bits k"]
  by (simp add: from_base64_def to_base64_def assms key_bytes_def)

lemma base64_round_trip_witness:
  "from_base64 (\<lambda>s. Some (map (\<lambda>c. of_nat (of_char c)) s)) (to_base64 (map (\<lambda>b. char_of (unat b))) (PublicKey 77))
     = Ok (PublicKey 77)"
proof (rule base64_round_trip)
  have "word_of_nat (unat x mod 256) = x" for x :: u8
    using unsigned_less [of x, where ?'a = nat] by simp
  then show "Some (map (\<lambda>c. of_nat (of_char c)) (map (\<lambda>b. char_of (unat b)) bs)) = Some bs" for bs :: bytes
    by (simp add: comp_def)
qed

lemma secret_base64_round_trip:
  assumes "\<And>bs. decode (encode bs) = Some bs"
  shows "secret_from_base64 decode (secret_to_base64 encode sk) = Ok sk"
  using word_of_be_bytes [where ?'a = 512 and n = 64]
  by (cases sk) (simp add: secret_from_base64_def assms)

text \<open>
  A signature made by Signature::new, cut into two halves and joined again, verifies
  under any key for which ed25519 accepts the signature of that secret key.
\<close>

lemma signature_new_verifies:
  assumes "signature_new cr d sk = Some sig"
    and "\<And>key. sk = SecretKey key \<Longrightarrow> keypair_from_bytes cr key \<Longrightarrow>
      sig_from_bytes cr (dalek_sign cr key (digest_bits d)) \<and> pk_from_bytes cr (key_bits k) \<and>
      verify_strict cr (key_bits k) (digest_bits d) (dalek_sign cr key (digest_bits d))"
  shows "signature_verify cr sig d k = Inr ()"
proof (cases sk)
  case (SecretKey key)
  with assms show ?thesis
    by (auto simp: signature_verify_def Let_def flatten_split split: if_splits)
qed

lemma signature_new_verifies_witness:
  "signature_verify example_primitives (the (signature_new example_primitives (Digest 3) (SecretKey 7))) (Digest 3) (PublicKey 1) = Inr ()"
  by (rule signature_new_verifies [of _ _ "SecretKey 7"]) (simp_all add: example_primitives_def Let_def)

section \<open>What is hashed\<close>

text \<open>
  The bytes hashed for a vote and for a certificate are equal exactly if block digest,
  epoch, height and proposer are; those of two timeouts exactly if epoch and height of the
  high certificate are; those of an agreement value and a proof exactly if epoch, round, value
  and phase are.
\<close>

lemma preimages_bind:
  "(vote_preimage (v_hash v) (v_epoch v) (v_height v) (v_proposer v) =
      vote_preimage (qc_hash q) (qc_epoch q) (qc_height q) (qc_proposer q) \<longleftrightarrow>
      v_hash v = qc_hash q \<and> v_epoch v = qc_epoch q \<and> v_height v = qc_height q \<and> v_proposer v = qc_proposer q) \<and>
   (timeout_preimage (t_epoch t) (qc_height (t_high_qc t)) = timeout_preimage (t_epoch t') (qc_height (t_high_qc t')) \<longleftrightarrow>
      t_epoch t = t_epoch t' \<and> qc_height (t_high_qc t) = qc_height (t_high_qc t')) \<and>
   (aba_preimage (av_epoch a) (av_round a) (av_val a) (av_phase a) =
      aba_preimage (ap_epoch p) (ap_round p) (ap_val p) (ap_phase p) \<longleftrightarrow>
      av_epoch a = ap_epoch p \<and> av_round a = ap_round p \<and> av_val a = ap_val p \<and> av_phase a = ap_phase p)"
  by (simp add: vote_preimage_inj timeout_preimage_inj aba_preimage_inj)

text \<open>
  C40. Moving the last two payload digests of a block into a leading reference changes neither
  its digest nor the outcome of Block::verify, whatever the hash function: the digest does not
  say where the payload ends.
\<close>

lemma block_digest_ambiguous:
  "block_digest cr (b\<lparr>b_payload := ds @ [Digest w, d], b_references := refs\<rparr>)
     = block_digest cr (b\<lparr>b_payload := ds, b_references := (PublicKey w, d) # refs\<rparr>) \<and>
   block_verify cr c (b\<lparr>b_payload := ds @ [Digest w, d], b_references := refs\<rparr>)
     = block_verify cr c (b\<lparr>b_payload := ds, b_references := (PublicKey w, d) # refs\<rparr>)"
proof -
  have "block_digest cr (b\<lparr>b_payload := ds @ [Digest w, d], b_references := refs\<rparr>)
     = block_digest cr (b\<lparr>b_payload := ds, b_references := (PublicKey w, d) # refs\<rparr>)"
    by (simp add: block_digest_def block_preimage_def key_bytes_def digest_to_vec_def)
  then show ?thesis
    by (simp add: block_verify_def)
qed

end
