(* ===== verification/Mempool_Types.thy ===== *)
theory Mempool_Types
  imports Messages
begin

text \<open>
  \<^verbatim>\<open>mempool/src/config.rs\<close>, \<^verbatim>\<open>mempool/src/error.rs\<close> and
  \<^verbatim>\<open>mempool/src/messages.rs\<close>: the parameters and the committee of the mempool, its
  errors, and the payloads that carry transactions. Names that the consensus crate uses
  too carry a prefix. Byte counts and numbers of elements are \<open>nat\<close>: the data they count
  is in memory, so a \<open>usize\<close> sum of them does not wrap.
\<close>

section \<open>Parameters and committee\<close>

record mempool_parameters =
  queue_capacity :: nat
  mp_sync_retry_delay :: u64
  mp_max_payload_size :: nat
  mp_min_block_delay :: u64

definition default_mempool_parameters :: mempool_parameters where
  "default_mempool_parameters = \<lparr>queue_capacity = 10000, mp_sync_retry_delay = 10000,
     mp_max_payload_size = 100000, mp_min_block_delay = 100\<rparr>"

record mempool_authority =
  ma_name :: public_key
  ma_front_address :: socket_addr
  ma_mempool_address :: socket_addr

record mempool_committee =
  mc_authorities :: "(public_key \<times> mempool_authority) list"
  mc_epoch :: "128 word"

definition mempool_committee_new ::
    "(public_key \<times> socket_addr \<times> socket_addr) list \<Rightarrow> 128 word \<Rightarrow> mempool_committee" where
  "mempool_committee_new info ep =
     \<lparr>mc_authorities = fold (\<lambda>(nm, front, adr). AList.update nm
        \<lparr>ma_name = nm, ma_front_address = front, ma_mempool_address = adr\<rparr>) info [],
      mc_epoch = ep\<rparr>"

section \<open>Errors\<close>

datatype mempool_error =
    MStoreError store_error
  | MUnknownAuthority public_key
  | MInvalidSignature crypto_error
  | MSerializationError bincode_error
  | PayloadTooBig
  | MempoolFull
  | MNotInCommittee public_key

type_synonym 'a mempool_result = "mempool_error + 'a"

text \<open>The conversions that \<open>?\<close> applies (\<open>#[from]\<close>).\<close>

definition map_error :: "('e \<Rightarrow> 'f) \<Rightarrow> 'e + 'a \<Rightarrow> 'f + 'a" where
  "map_error f r = (case r of Inl e \<Rightarrow> Inl (f e) | Inr x \<Rightarrow> Inr x)"

lemma map_error_simps [simp]:
  "map_error f (Inr x) = Inr x" "map_error f (Inl e) = Inl (f e)"
  "map_error f r = Inr x \<longleftrightarrow> r = Inr x"
  "Inr x = map_error f r \<longleftrightarrow> r = Inr x"
  by (auto simp: map_error_def split: sum.splits)

section \<open>Lookups in the committee\<close>

definition committee_exists :: "mempool_committee \<Rightarrow> public_key \<Rightarrow> bool" where
  "committee_exists c k \<longleftrightarrow> map_of (mc_authorities c) k \<noteq> None"

definition front_address :: "mempool_committee \<Rightarrow> public_key \<Rightarrow> socket_addr mempool_result" where
  "front_address c k = (case map_of (mc_authorities c) k of
     None \<Rightarrow> Inl (MNotInCommittee k) | Some a \<Rightarrow> Inr (ma_front_address a))"

definition mempool_address :: "mempool_committee \<Rightarrow> public_key \<Rightarrow> socket_addr mempool_result" where
  "mempool_address c k = (case map_of (mc_authorities c) k of
     None \<Rightarrow> Inl (MNotInCommittee k) | Some a \<Rightarrow> Inr (ma_mempool_address a))"

definition mempool_broadcast_addresses :: "mempool_committee \<Rightarrow> public_key \<Rightarrow> socket_addr list" where
  "mempool_broadcast_addresses c myself =
     map ma_mempool_address (filter (\<lambda>a. ma_name a \<noteq> myself) (map snd (mc_authorities c)))"

section \<open>Payloads\<close>

type_synonym transaction = bytes

record payload =
  p_transactions :: "transaction list"
  p_author :: public_key
  p_signature :: signature

definition payload_size :: "payload \<Rightarrow> nat" where
  "payload_size p = sum_list (map length (p_transactions p))"

text \<open>What \<open>Payload::digest\<close> feeds to the hasher, and the digest.\<close>

definition payload_preimage :: "payload \<Rightarrow> bytes" where
  "payload_preimage p = key_bytes (p_author p) @ concat (p_transactions p)"

definition payload_digest :: "primitives \<Rightarrow> payload \<Rightarrow> digest" where
  "payload_digest cr p = finalize32 cr (payload_preimage p)"

definition payload_new :: "primitives \<Rightarrow> signature_service \<Rightarrow> transaction list \<Rightarrow> public_key \<Rightarrow>
    ('s, 'e, payload) act" where
  "payload_new cr svc txs author =
     (let p = \<lparr>p_transactions = txs, p_author = author, p_signature = default_signature\<rparr> in
      bind (request_signature cr svc (payload_digest cr p)) (\<lambda>s. ret (p\<lparr>p_signature := s\<rparr>)))"

section \<open>The messages of the mempool\<close>

text \<open>\<open>MempoolMessage\<close> of \<^verbatim>\<open>mempool/src/core.rs\<close>.\<close>

datatype mempool_message =
    OwnPayload payload
  | PayloadMsg payload
  | PayloadRequest "digest list" public_key

section \<open>Lemmas\<close>

lemma payload_new_state [simp]: "snd (payload_new cr svc txs author s) = s"
  by (auto simp: payload_new_def request_signature_def Let_def act_defs split: option.split)

lemma committee_exists_address:
  "committee_exists c k \<longleftrightarrow> (\<exists>a. mempool_address c k = Inr a)"
  "committee_exists c k \<longleftrightarrow> (\<exists>a. front_address c k = Inr a)"
  by (auto simp: committee_exists_def mempool_address_def front_address_def split: option.split)

text \<open>
  The transactions are hashed without their lengths, so two payloads of one author have
  the same preimage exactly if their transactions concatenate to the same bytes.
\<close>

lemma payload_preimage_eq_iff:
  "payload_preimage p = payload_preimage q \<longleftrightarrow>
     p_author p = p_author q \<and> concat (p_transactions p) = concat (p_transactions q)"
  by (auto simp: payload_preimage_def)

lemma payload_size_concat: "payload_size p = length (concat (p_transactions p))"
  by (simp add: payload_size_def length_concat)

end
