(* ===== verification/Payload_Maker.thy ===== *)
theory Payload_Maker
  imports Mempool_Types Example_Setup
begin

text \<open>
  \<^verbatim>\<open>mempool/src/payload.rs\<close>: the \<open>Runner\<close>, which gathers client transactions into
  payloads, and \<open>PayloadMaker::make\<close>, through which the core asks it for what it has.
\<close>

section \<open>The runner\<close>

text \<open>\<open>runner_out\<close> is the channel to the core, as the list of payloads sent on it.\<close>

record runner =
  transactions :: "transaction list"
  runner_size :: nat
  max_size :: nat
  runner_delay :: u64
  runner_name :: public_key
  runner_service :: signature_service
  runner_out :: "mempool_message list"

definition runner_new :: "public_key \<Rightarrow> signature_service \<Rightarrow> nat \<Rightarrow> u64 \<Rightarrow> runner" where
  "runner_new nm svc mx delay = \<lparr>transactions = [], runner_size = 0, max_size = mx,
     runner_delay = delay, runner_name = nm, runner_service = svc, runner_out = []\<rparr>"

definition runner_make :: "primitives \<Rightarrow> (runner, mempool_error, payload) act" where
  "runner_make cr = bind (gets transactions) (\<lambda>txs.
     bind (modify (\<lambda>r. r\<lparr>transactions := [], runner_size := 0\<rparr>)) (\<lambda>_.
     bind (gets id) (\<lambda>r. payload_new cr (runner_service r) txs (runner_name r))))"

definition runner_add :: "primitives \<Rightarrow> transaction \<Rightarrow> (runner, mempool_error, payload option) act" where
  "runner_add cr tx = (let len = length tx in
     bind (gets (\<lambda>r. max_size r < runner_size r + len)) (\<lambda>full.
     bind (if full then bind (runner_make cr) (\<lambda>p. ret (Some p)) else ret None) (\<lambda>res.
     bind (modify (\<lambda>r. r\<lparr>transactions := transactions r @ [tx], runner_size := runner_size r + len\<rparr>)) (\<lambda>_.
     ret res))))"

text \<open>
  One round of \<open>run\<close>: a transaction of a client, whose full payload goes to the core, or
  a request of the core, which is answered. The pause after a payload only delays the next
  round.
\<close>

datatype runner_event = ClientTx transaction | MakeRequest

fun runner_step :: "primitives \<Rightarrow> runner_event \<Rightarrow> (runner, mempool_error, payload option) act" where
  "runner_step cr (ClientTx tx) = bind (runner_add cr tx) (\<lambda>res. case res of
     None \<Rightarrow> ret None
   | Some p \<Rightarrow> bind (modify (\<lambda>r. r\<lparr>runner_out := runner_out r @ [OwnPayload p]\<rparr>)) (\<lambda>_. ret None))"
| "runner_step cr MakeRequest = bind (runner_make cr) (\<lambda>p. ret (Some p))"

text \<open>The loop: the answers to the requests, in order.\<close>

fun runner_run :: "primitives \<Rightarrow> runner_event list \<Rightarrow> (runner, mempool_error, payload list) act" where
  "runner_run cr [] = ret []"
| "runner_run cr (e # es) = bind (runner_step cr e) (\<lambda>res. bind (runner_run cr es) (\<lambda>ps.
     ret ((case res of None \<Rightarrow> [] | Some p \<Rightarrow> [p]) @ ps)))"

text \<open>\<open>PayloadMaker::make\<close>: a request, and \<open>None\<close> for a payload without bytes.\<close>

definition payload_maker_make :: "primitives \<Rightarrow> (runner, mempool_error, payload option) act" where
  "payload_maker_make cr = bind (runner_step cr MakeRequest) (\<lambda>res. case res of
     None \<Rightarrow> panic ExpectFailed
   | Some p \<Rightarrow> ret (if payload_size p = 0 then None else Some p))"

section \<open>Reference: cutting the stream of transactions\<close>

text \<open>
  What the runner should do, said without a running size and without effects: transactions
  are gathered in order; a batch is cut on request (\<open>True\<close>), or when the next transaction
  would take it over the limit (\<open>False\<close>).
\<close>

fun batches :: "nat \<Rightarrow> transaction list \<Rightarrow> runner_event list \<Rightarrow>
    (bool \<times> transaction list) list \<times> transaction list" where
  "batches mx buf [] = ([], buf)"
| "batches mx buf (MakeRequest # es) = (case batches mx [] es of (bs, rest) \<Rightarrow> ((True, buf) # bs, rest))"
| "batches mx buf (ClientTx tx # es) =
     (if mx < length (concat (buf @ [tx]))
      then (case batches mx [tx] es of (bs, rest) \<Rightarrow> ((False, buf) # bs, rest))
      else batches mx (buf @ [tx]) es)"

definition client_txs :: "runner_event list \<Rightarrow> transaction list" where
  "client_txs es = List.map_filter (\<lambda>e. case e of ClientTx tx \<Rightarrow> Some tx | MakeRequest \<Rightarrow> None) es"

definition of_kind :: "bool \<Rightarrow> (bool \<times> transaction list) list \<Rightarrow> transaction list list" where
  "of_kind k bs = map snd (filter (\<lambda>b. fst b = k) bs)"

text \<open>The payload that carries a batch, for a service whose key loads.\<close>

definition signed_payload :: "primitives \<Rightarrow> signature_service \<Rightarrow> public_key \<Rightarrow> transaction list \<Rightarrow> payload"
  where
  "signed_payload cr svc nm txs =
     (let p = \<lparr>p_transactions = txs, p_author = nm, p_signature = default_signature\<rparr>
      in p\<lparr>p_signature := the (signature_new cr (payload_digest cr p) (secret svc))\<rparr>)"

definition key_loads :: "primitives \<Rightarrow> signature_service \<Rightarrow> bool" where
  "key_loads cr svc = (case secret svc of SecretKey sk \<Rightarrow> keypair_from_bytes cr sk)"

lemma client_txs_simps [simp]:
  "client_txs [] = []" "client_txs (ClientTx tx # es) = tx # client_txs es"
  "client_txs (MakeRequest # es) = client_txs es"
  by (simp_all add: client_txs_def)

lemma of_kind_simps [simp]:
  "of_kind k [] = []"
  "of_kind k ((k1, b) # bs) = (if k1 = k then b # of_kind k bs else of_kind k bs)"
  by (simp_all add: of_kind_def)

lemma signed_payload_fields [simp]:
  "p_transactions (signed_payload cr svc nm txs) = txs" "p_author (signed_payload cr svc nm txs) = nm"
  "payload_size (signed_payload cr svc nm txs) = length (concat txs)"
  by (simp_all add: signed_payload_def Let_def payload_size_concat)

lemma payload_new_loads:
  "key_loads cr svc \<Longrightarrow> payload_new cr svc txs nm = ret (signed_payload cr svc nm txs)"
  by (cases "secret svc")
    (simp add: fun_eq_iff key_loads_def payload_new_def request_signature_def signed_payload_def
      Let_def act_defs)

text \<open>No transaction is lost, repeated or moved.\<close>

lemma batches_conserve:
  "batches mx buf es = (bs, rest) \<Longrightarrow> concat (map snd bs) @ rest = buf @ client_txs es"
  by (induction mx buf es arbitrary: bs rest rule: batches.induct)
    (auto split: prod.splits if_splits)

text \<open>A batch and the rest stay within the limit, unless they are a single transaction.\<close>

definition fits :: "nat \<Rightarrow> transaction list \<Rightarrow> bool" where
  "fits mx txs \<longleftrightarrow> length (concat txs) \<le> mx \<or> length txs = 1"

lemma fits_simps [simp]: "fits mx []" "fits mx [tx]"
  by (simp_all add: fits_def)

lemma batches_fit:
  "batches mx buf es = (bs, rest) \<Longrightarrow> fits mx buf \<Longrightarrow> (\<forall>b \<in> set bs. fits mx (snd b)) \<and> fits mx rest"
proof (induction mx buf es arbitrary: bs rest rule: batches.induct)
  case (3 mx buf tx es)
  then show ?case
    by (auto simp: fits_def split: prod.splits if_splits)
qed (auto split: prod.splits)

section \<open>The runner against the reference\<close>

definition runner_ok :: "runner \<Rightarrow> bool" where
  "runner_ok r \<longleftrightarrow> runner_size r = length (concat (transactions r))"

lemma runner_make_eq:
  "key_loads cr (runner_service r) \<Longrightarrow> runner_make cr r =
     (Ok (signed_payload cr (runner_service r) (runner_name r) (transactions r)),
      r\<lparr>transactions := [], runner_size := 0\<rparr>)"
  by (simp add: runner_make_def payload_new_loads act_defs)

lemma runner_add_eq:
  "key_loads cr (runner_service r) \<Longrightarrow> runner_add cr tx r =
     (if max_size r < runner_size r + length tx
      then (Ok (Some (signed_payload cr (runner_service r) (runner_name r) (transactions r))),
            r\<lparr>transactions := [tx], runner_size := length tx\<rparr>)
      else (Ok None, r\<lparr>transactions := transactions r @ [tx], runner_size := runner_size r + length tx\<rparr>))"
  by (auto simp: runner_add_def runner_make_eq Let_def act_defs)

lemma runner_run_batches:
  assumes "key_loads cr (runner_service r)" and "runner_ok r"
    and "batches (max_size r) (transactions r) es = (bs, rest)"
  shows "runner_run cr es r =
     (Ok (map (signed_payload cr (runner_service r) (runner_name r)) (of_kind True bs)),
      r\<lparr>transactions := rest, runner_size := length (concat rest),
        runner_out := runner_out r @
          map (\<lambda>b. OwnPayload (signed_payload cr (runner_service r) (runner_name r) b)) (of_kind False bs)\<rparr>)"
  using assms
proof (induction es arbitrary: r bs rest)
  case Nil
  then show ?case by (simp add: act_defs runner_ok_def)
next
  case (Cons e es)
  show ?case
  proof (cases e)
    case (ClientTx tx)
    show ?thesis
    proof (cases "max_size r < runner_size r + length tx")
      case True
      let ?p = "signed_payload cr (runner_service r) (runner_name r) (transactions r)"
      let ?r = "r\<lparr>transactions := [tx], runner_size := length tx, runner_out := runner_out r @ [OwnPayload ?p]\<rparr>"
      obtain bs' where bs: "bs = (False, transactions r) # bs'" "batches (max_size r) [tx] es = (bs', rest)"
        using Cons.prems True by (auto simp: ClientTx runner_ok_def split: prod.splits)
      show ?thesis
        using Cons.IH [of ?r bs' rest] Cons.prems(1) bs True
        by (simp add: ClientTx runner_ok_def runner_add_eq act_defs)
    next
      case False
      let ?r = "r\<lparr>transactions := transactions r @ [tx], runner_size := runner_size r + length tx\<rparr>"
      have "batches (max_size r) (transactions r @ [tx]) es = (bs, rest)"
        using Cons.prems False by (simp add: ClientTx runner_ok_def)
      then show ?thesis
        using Cons.IH [of ?r bs rest] Cons.prems(1,2) False
        by (simp add: ClientTx runner_ok_def runner_add_eq act_defs)
    qed
  next
    case MakeRequest
    let ?r = "r\<lparr>transactions := [], runner_size := 0\<rparr>"
    obtain bs' where bs: "bs = (True, transactions r) # bs'" "batches (max_size r) [] es = (bs', rest)"
      using Cons.prems by (auto simp: MakeRequest split: prod.splits)
    show ?thesis
      using Cons.IH [of ?r bs' rest] Cons.prems(1) bs
      by (simp add: MakeRequest runner_ok_def runner_make_eq act_defs)
  qed
qed

text \<open>
  C19. The payload maker is equivalent to the reference batches, which cuts the stream of
  transactions without a running size: its answers to requests and the full payloads it sends
  to the core carry exactly the batches of the reference, signed by the node; no transaction
  is lost, repeated or reordered; and a payload stays within max_size unless it is a single
  transaction.
\<close>

theorem payload_maker_batches:
  assumes "key_loads cr svc"
  shows "\<exists>answers r. runner_run cr es (runner_new nm svc mx delay) = (Ok answers, r)
     \<and> (case batches mx [] es of (bs, rest) \<Rightarrow>
          answers = map (signed_payload cr svc nm) (of_kind True bs)
          \<and> runner_out r = map (\<lambda>b. OwnPayload (signed_payload cr svc nm b)) (of_kind False bs)
          \<and> transactions r = rest
          \<and> concat (map snd bs) @ rest = client_txs es
          \<and> (\<forall>b \<in> set bs. length (concat (snd b)) \<le> mx \<or> length (snd b) = 1))"
proof -
  obtain bs rest where bs: "batches mx [] es = (bs, rest)"
    by (cases "batches mx [] es")
  note run = runner_run_batches [of cr "runner_new nm svc mx delay" es bs rest]
  show ?thesis
    using run assms bs batches_conserve [OF bs] batches_fit [OF bs]
    by (simp add: runner_new_def runner_ok_def fits_def)
qed

lemma example_key_loads [simp]: "key_loads example_primitives example_service"
  by (simp add: key_loads_def example_service_def signature_service_new_def example_primitives_def)

lemma payload_maker_batches_witness:
  "\<exists>answers r. runner_run example_primitives [ClientTx [1], ClientTx [2, 3], MakeRequest]
       (runner_new (PublicKey 1) example_service 2 0) = (Ok answers, r)
     \<and> map p_transactions answers = [[[2, 3]]]
     \<and> runner_out r = [OwnPayload (signed_payload example_primitives example_service (PublicKey 1) [[1]])]"
  using payload_maker_batches [OF example_key_loads, of "[ClientTx [1], ClientTx [2, 3], MakeRequest]" "PublicKey 1" 2 0]
  by auto

end
