(* ===== verification/Mempool_Sync.thy ===== *)
theory Mempool_Sync
  imports Mempool_Types Store
begin

text \<open>
  \<^verbatim>\<open>mempool/src/synchronizer.rs\<close>: the background task that holds back a block until
  the payloads it names are in the store, and asks other nodes for them. A round of its
  \<open>select!\<close> is an event. The future made by \<open>waiter\<close> is a \<open>sync_waiter\<close>, known by a
  number that also stands for its cancellation channel; what it still waits to read is
  \<open>w_missing\<close>. Time is in milliseconds.
\<close>

section \<open>Data\<close>

datatype synchronizer_message =
    Sync "digest list" block
  | Clean u64

record sync_waiter =
  w_id :: nat
  w_missing :: "digest list"
  w_block :: block
  w_cancelled :: bool

record mempool_sync =
  s_name :: public_key
  s_committee :: mempool_committee
  s_retry_delay :: u64
  s_waiting :: "sync_waiter list"
  s_pending :: "(digest \<times> u64 \<times> nat) list"
  s_requests :: "(digest \<times> u64 \<times> 128 word) list"
  s_next :: nat
  s_loopback :: "block list"
  s_network :: "(mempool_message \<times> socket_addr list) list"

definition mempool_sync_new :: "public_key \<Rightarrow> mempool_committee \<Rightarrow> u64 \<Rightarrow> mempool_sync" where
  "mempool_sync_new nm c delay = \<lparr>s_name = nm, s_committee = c, s_retry_delay = delay,
     s_waiting = [], s_pending = [], s_requests = [], s_next = 0, s_loopback = [], s_network = []\<rparr>"

section \<open>Operations\<close>

definition mempool_transmit_addresses :: "mempool_committee \<Rightarrow> public_key \<Rightarrow> public_key option \<Rightarrow>
    socket_addr list mempool_result" where
  "mempool_transmit_addresses c from to = (case to of
     Some k \<Rightarrow> rbind (mempool_address c k) (\<lambda>a. Inr [a])
   | None \<Rightarrow> Inr (mempool_broadcast_addresses c from))"

text \<open>\<open>transmit(...).await.expect(...)\<close> of the task: an unknown recipient panics.\<close>

definition sync_transmit :: "mempool_message \<Rightarrow> public_key option \<Rightarrow> (mempool_sync, mempool_error, unit) act" where
  "sync_transmit msg to = bind (gets id) (\<lambda>s.
     case mempool_transmit_addresses (s_committee s) (s_name s) to of
       Inl e \<Rightarrow> panic ExpectFailed
     | Inr addrs \<Rightarrow> modify (\<lambda>s. s\<lparr>s_network := s_network s @ [(msg, addrs)]\<rparr>))"

definition handle_sync :: "primitives \<Rightarrow> 128 word \<Rightarrow> digest list \<Rightarrow> block \<Rightarrow> (mempool_sync, mempool_error, unit) act"
  where
  "handle_sync cr now missing b = bind (gets id) (\<lambda>s.
     if map_of (s_pending s) (block_digest cr b) \<noteq> None then ret ()
     else bind (modify (\<lambda>s. s\<lparr>
         s_pending := AList.update (block_digest cr b) (b_height b, s_next s) (s_pending s),
         s_waiting := s_waiting s @ [\<lparr>w_id = s_next s, w_missing = missing, w_block = b, w_cancelled = False\<rparr>],
         s_next := s_next s + 1\<rparr>)) (\<lambda>_.
       let ask = filter (\<lambda>x. map_of (s_requests s) x = None) missing in
       whenever (ask \<noteq> []) (bind (modify (\<lambda>s. s\<lparr>s_requests :=
           fold (\<lambda>x. AList.update x (b_height b, now)) ask (s_requests s)\<rparr>)) (\<lambda>_.
         sync_transmit (PayloadRequest ask (s_name s)) (Some (b_author b))))))"

definition handle_clean :: "u64 \<Rightarrow> (mempool_sync, mempool_error, unit) act" where
  "handle_clean rnd = modify (\<lambda>s.
     let cancelled = map (\<lambda>(d, r, h). h) (filter (\<lambda>(d, r, h). r \<le> rnd) (s_pending s)) in
     s\<lparr>s_waiting := map (\<lambda>w. if w_id w \<in> set cancelled then w\<lparr>w_cancelled := True\<rparr> else w) (s_waiting s),
       s_pending := filter (\<lambda>(d, r, h). rnd < r) (s_pending s),
       s_requests := filter (\<lambda>(d, r, t). rnd < r) (s_requests s)\<rparr>)"

text \<open>
  The three ways in which a future comes out of \<open>waiting.next()\<close>. \<open>pending.remove\<close> drops the
  sender that is filed for the block. When it is that of another waiter, one for the same
  block that was put on hold after a cleanup, this waiter's \<open>handler.recv()\<close> returns: it
  counts as cancelled.
\<close>

definition cancel_waiter :: "nat \<Rightarrow> sync_waiter \<Rightarrow> sync_waiter" where
  "cancel_waiter h w = (if w_id w = h then w\<lparr>w_cancelled := True\<rparr> else w)"

definition handle_delivered :: "primitives \<Rightarrow> block \<Rightarrow> (mempool_sync, mempool_error, unit) act" where
  "handle_delivered cr b = modify (\<lambda>s. s\<lparr>
     s_waiting := (case map_of (s_pending s) (block_digest cr b) of
         None \<Rightarrow> s_waiting s
       | Some (r, h) \<Rightarrow> map (cancel_waiter h) (s_waiting s)),
     s_pending := AList.delete (block_digest cr b) (s_pending s),
     s_requests := fold AList.delete (b_payload b) (s_requests s),
     s_loopback := s_loopback s @ [b]\<rparr>)"

definition take_waiter :: "nat \<Rightarrow> (sync_waiter \<Rightarrow> bool) \<Rightarrow> mempool_sync \<Rightarrow> (sync_waiter \<times> mempool_sync) option"
  where
  "take_waiter i ready s = (case find (\<lambda>w. w_id w = i \<and> ready w) (s_waiting s) of
     None \<Rightarrow> None
   | Some w \<Rightarrow> Some (w, s\<lparr>s_waiting := filter (\<lambda>v. w_id v \<noteq> i) (s_waiting s)\<rparr>))"

definition handle_timer :: "128 word \<Rightarrow> (mempool_sync, mempool_error, unit) act" where
  "handle_timer now = bind (gets id) (\<lambda>s.
     let retransmit = map fst (filter (\<lambda>(d, r, t). t + ucast (s_retry_delay s) < now) (s_requests s)) in
     whenever (retransmit \<noteq> []) (sync_transmit (PayloadRequest retransmit (s_name s)) None))"

section \<open>The loop\<close>

text \<open>
  \<open>Stored d\<close>: the store has answered the \<open>notify_read\<close> of \<open>d\<close>. \<open>Completed\<close>,
  \<open>Cancelled\<close> and \<open>Failed\<close> are the branches of a waiter that can be taken when it has read
  everything, when it was cancelled, and when the store returned an error; an event whose
  waiter is not ready does nothing. A block that was put on hold keeps the numbers of the
  waiters unique, so \<open>find\<close> picks the one waiter of that number.
\<close>

datatype sync_event =
    Inner synchronizer_message "128 word"
  | Stored digest
  | Completed nat
  | Cancelled nat
  | Failed nat
  | Timer "128 word"

fun sync_step :: "primitives \<Rightarrow> sync_event \<Rightarrow> (mempool_sync, mempool_error, unit) act" where
  "sync_step cr (Inner (Sync missing b) now) = handle_sync cr now missing b"
| "sync_step cr (Inner (Clean rnd) now) = handle_clean rnd"
| "sync_step cr (Stored d) = modify (\<lambda>s. s\<lparr>s_waiting :=
     map (\<lambda>w. w\<lparr>w_missing := removeAll d (w_missing w)\<rparr>) (s_waiting s)\<rparr>)"
| "sync_step cr (Completed i) = (\<lambda>s. case take_waiter i (\<lambda>w. w_missing w = []) s of
     None \<Rightarrow> (Ok (), s) | Some (w, s1) \<Rightarrow> handle_delivered cr (w_block w) s1)"
| "sync_step cr (Cancelled i) = (\<lambda>s. case take_waiter i w_cancelled s of
     None \<Rightarrow> (Ok (), s) | Some (w, s1) \<Rightarrow> (Ok (), s1))"
| "sync_step cr (Failed i) = (\<lambda>s. case take_waiter i (\<lambda>w. w_missing w \<noteq> []) s of
     None \<Rightarrow> (Ok (), s) | Some (w, s1) \<Rightarrow> (Ok (), s1))"
| "sync_step cr (Timer now) = handle_timer now"

fun sync_run :: "primitives \<Rightarrow> sync_event list \<Rightarrow> (mempool_sync, mempool_error, unit) act" where
  "sync_run cr [] = ret ()"
| "sync_run cr (e # es) = bind (sync_step cr e) (\<lambda>_. sync_run cr es)"

section \<open>What a delivery leaves\<close>

lemma cancel_waiter_simps [simp]:
  "w_id (cancel_waiter h w) = w_id w" "w_missing (cancel_waiter h w) = w_missing w"
  "w_block (cancel_waiter h w) = w_block w" "w_cancelled (cancel_waiter h w) \<longleftrightarrow> w_cancelled w \<or> w_id w = h"
  by (simp_all add: cancel_waiter_def)

lemma handle_delivered_cases:
  assumes "handle_delivered cr b s = (r, s')"
  obtains f where "s' = s\<lparr>s_waiting := map f (s_waiting s), s_pending := AList.delete (block_digest cr b) (s_pending s),
      s_requests := fold AList.delete (b_payload b) (s_requests s), s_loopback := s_loopback s @ [b]\<rparr>"
    and "\<And>w. w_id (f w) = w_id w" and "\<And>w. w_missing (f w) = w_missing w" and "\<And>w. w_block (f w) = w_block w"
    and "\<And>w. w_cancelled (f w) \<Longrightarrow> w_cancelled w \<or> (\<exists>r. (block_digest cr b, r, w_id w) \<in> set (s_pending s))"
proof (cases "map_of (s_pending s) (block_digest cr b)")
  case None
  with assms that [of id] show thesis
    by (simp add: handle_delivered_def modify_def)
next
  case (Some p)
  obtain q h where p: "p = (q, h)" by (cases p)
  with Some have "(block_digest cr b, q, h) \<in> set (s_pending s)"
    by (simp add: map_of_SomeD)
  with assms Some p that [of "cancel_waiter h"] show thesis
    by (auto simp: handle_delivered_def modify_def)
qed

end
