(* ===== verification/Mempool_Waiting.thy ===== *)
theory Mempool_Waiting
  imports Mempool_Sync Example_Setup
begin

text \<open>
  The blocks the synchronizer of the mempool holds back: they are handed back only when
  every payload they wait for has been stored, at most once per request, and always unless a
  cleanup or an error of the store comes first; and the task does not panic as long as the authors of the blocks
  are in the committee.
\<close>

section \<open>Steps\<close>

lemma sync_run_append:
  "sync_run cr (es @ es') = bind (sync_run cr es) (\<lambda>_. sync_run cr es')"
  by (induction es) (auto simp: fun_eq_iff act_defs split: prod.split outcome.split)

lemma find_waiter:
  assumes "find (\<lambda>w. w_id w = i \<and> ready w) ws = Some w"
  shows "w \<in> set ws" "w_id w = i" "ready w"
  using assms by (auto simp: find_Some_iff)

lemma take_waiter_Some:
  "take_waiter i ready s = Some (w, s1) \<longleftrightarrow>
     find (\<lambda>w. w_id w = i \<and> ready w) (s_waiting s) = Some w \<and>
     s1 = s\<lparr>s_waiting := filter (\<lambda>v. w_id v \<noteq> i) (s_waiting s)\<rparr>"
  by (auto simp: take_waiter_def split: option.splits)

text \<open>What a step does to the waiters, case by case.\<close>

lemma completed_step:
  assumes "sync_step cr (Completed i) s = (r, s')"
  obtains (idle) "s' = s"
  | (delivered) w f where "w \<in> set (s_waiting s)" and "w_id w = i" and "w_missing w = []"
    and "s_waiting s' = map f (filter (\<lambda>v. w_id v \<noteq> i) (s_waiting s))" and "s_next s' = s_next s"
    and "s_pending s' = AList.delete (block_digest cr (w_block w)) (s_pending s)"
    and "s_loopback s' = s_loopback s @ [w_block w]"
    and "\<And>v. w_id (f v) = w_id v" and "\<And>v. w_missing (f v) = w_missing v" and "\<And>v. w_block (f v) = w_block v"
    and "\<And>v. w_cancelled (f v) \<Longrightarrow> w_cancelled v \<or> (\<exists>q. (block_digest cr (w_block w), q, w_id v) \<in> set (s_pending s))"
proof (cases "take_waiter i (\<lambda>w. w_missing w = []) s")
  case None
  with assms idle show thesis by simp
next
  case (Some a)
  obtain w s1 where a: "a = (w, s1)" by (cases a)
  have w: "w \<in> set (s_waiting s)" "w_id w = i" "w_missing w = []"
    and s1: "s1 = s\<lparr>s_waiting := filter (\<lambda>v. w_id v \<noteq> i) (s_waiting s)\<rparr>"
    using Some a by (auto simp: take_waiter_Some dest: find_waiter)
  have "handle_delivered cr (w_block w) s1 = (r, s')"
    using assms Some a by simp
  then show thesis
  proof (rule handle_delivered_cases)
    fix f
    assume f: "s' = s1\<lparr>s_waiting := map f (s_waiting s1), s_pending := AList.delete (block_digest cr (w_block w)) (s_pending s1),
        s_requests := fold AList.delete (b_payload (w_block w)) (s_requests s1), s_loopback := s_loopback s1 @ [w_block w]\<rparr>"
      "\<And>v. w_id (f v) = w_id v" "\<And>v. w_missing (f v) = w_missing v" "\<And>v. w_block (f v) = w_block v"
      "\<And>v. w_cancelled (f v) \<Longrightarrow> w_cancelled v \<or> (\<exists>q. (block_digest cr (w_block w), q, w_id v) \<in> set (s_pending s1))"
    show thesis
      by (rule delivered [OF w, of f]) (use f in \<open>simp_all add: s1\<close>)
  qed
qed

definition new_waiter :: "mempool_sync \<Rightarrow> digest list \<Rightarrow> block \<Rightarrow> sync_waiter" where
  "new_waiter s missing b = \<lparr>w_id = s_next s, w_missing = missing, w_block = b, w_cancelled = False\<rparr>"

lemma sync_transmit_frame:
  "sync_transmit msg to s = (r, s') \<Longrightarrow> s_waiting s' = s_waiting s \<and> s_loopback s' = s_loopback s \<and>
     s_next s' = s_next s \<and> s_pending s' = s_pending s \<and> s_committee s' = s_committee s \<and>
     s_name s' = s_name s \<and> s_requests s' = s_requests s"
  by (auto simp: sync_transmit_def act_defs split: sum.splits)

lemma handle_sync_pending:
  "map_of (s_pending s) (block_digest cr b) = Some x \<Longrightarrow> handle_sync cr now missing b s = (Ok (), s)"
  by (simp add: handle_sync_def act_defs)

lemma handle_sync_new:
  assumes "map_of (s_pending s) (block_digest cr b) = None" and "handle_sync cr now missing b s = (r, s')"
  shows "s_loopback s' = s_loopback s" and "s_waiting s' = s_waiting s @ [new_waiter s missing b]"
    and "s_next s' = s_next s + 1"
    and "s_pending s' = AList.update (block_digest cr b) (b_height b, s_next s) (s_pending s)"
    and "s_committee s' = s_committee s"
  using assms
  by (auto simp: handle_sync_def new_waiter_def Let_def bind_def gets_def modify_def whenever_def ret_def
      split: if_splits dest!: sync_transmit_frame)

lemma handle_timer_frame:
  "handle_timer now s = (r, s') \<Longrightarrow> s_waiting s' = s_waiting s \<and> s_loopback s' = s_loopback s \<and>
     s_next s' = s_next s \<and> s_pending s' = s_pending s \<and> s_committee s' = s_committee s"
  by (auto simp: handle_timer_def Let_def bind_def gets_def whenever_def ret_def
      split: if_splits dest!: sync_transmit_frame)

definition stored :: "sync_event list \<Rightarrow> digest set" where
  "stored es = {d. Stored d \<in> set es}"

lemma stored_simps [simp]:
  "stored [] = {}" "stored (es @ es') = stored es \<union> stored es'"
  "stored (Stored d # es) = insert d (stored es)"
  "stored (Inner m now # es) = stored es" "stored (Completed i # es) = stored es"
  "stored (Cancelled i # es) = stored es" "stored (Failed i # es) = stored es"
  "stored (Timer now # es) = stored es"
  by (auto simp: stored_def)

text \<open>
  \<open>held es b ds\<close>: among the events \<open>es\<close> is one that put \<open>b\<close> on hold, and since then the
  store has answered for every digest \<open>b\<close> was waiting for, except those in \<open>ds\<close>.
\<close>

definition held :: "sync_event list \<Rightarrow> block \<Rightarrow> digest set \<Rightarrow> bool" where
  "held es b ds \<longleftrightarrow> (\<exists>es1 missing now es2. es = es1 @ Inner (Sync missing b) now # es2 \<and>
     set missing \<subseteq> stored es2 \<union> ds)"

lemma held_snoc:
  assumes "held es b ds" and "ds \<subseteq> ds' \<union> stored [e]"
  shows "held (es @ [e]) b ds'"
proof -
  obtain es1 missing now es2 where "es = es1 @ Inner (Sync missing b) now # es2"
    "set missing \<subseteq> stored es2 \<union> ds"
    using assms(1) by (auto simp: held_def)
  then have "es @ [e] = es1 @ Inner (Sync missing b) now # (es2 @ [e])"
    "set missing \<subseteq> stored (es2 @ [e]) \<union> ds'"
    using assms(2) by auto
  then show ?thesis unfolding held_def by blast
qed

lemma held_new: "held (es @ [Inner (Sync missing b) now]) b (set missing)"
  unfolding held_def by force

definition history :: "sync_event list \<Rightarrow> mempool_sync \<Rightarrow> bool" where
  "history es s \<longleftrightarrow> (\<forall>w \<in> set (s_waiting s). held es (w_block w) (set (w_missing w)))
     \<and> (\<forall>b \<in> set (s_loopback s). held es b {})"

lemma historyI:
  assumes "\<And>w. w \<in> set (s_waiting s) \<Longrightarrow> held es (w_block w) (set (w_missing w))"
    and "\<And>b. b \<in> set (s_loopback s) \<Longrightarrow> held es b {}"
  shows "history es s"
  using assms by (simp add: history_def)

lemma historyD:
  assumes "history es s"
  shows "w \<in> set (s_waiting s) \<Longrightarrow> set (w_missing w) \<subseteq> ds \<union> stored [e] \<Longrightarrow> held (es @ [e]) (w_block w) ds"
    and "b \<in> set (s_loopback s) \<Longrightarrow> held (es @ [e]) b ds"
  using assms by (auto simp: history_def intro: held_snoc)

lemma history_step:
  assumes "history es s" and "sync_step cr e s = (r, s')"
  shows "history (es @ [e]) s'"
proof -
  note H = historyD [OF assms(1), where e = e]
  show ?thesis
  proof (cases "(cr, e)" rule: sync_step.cases)
    case (1 cr' missing b now)
    with assms(2) have s: "handle_sync cr now missing b s = (r, s')" by simp
    show ?thesis
    proof (cases "map_of (s_pending s) (block_digest cr b)")
      case None
      have "held (es @ [e]) b (set missing)"
        using held_new [of es missing b now] 1 by simp
      with handle_sync_new [OF None s] H show ?thesis
        by (intro historyI) (auto simp: new_waiter_def)
    next
      case (Some x)
      then show ?thesis using s H by (intro historyI) (auto simp: handle_sync_pending)
    qed
  next
    case (2 cr' rnd now)
    then show ?thesis using assms(2) H
      by (intro historyI) (auto simp: handle_clean_def Let_def modify_def)
  next
    case (3 cr' d)
    then have s': "s' = s\<lparr>s_waiting := map (\<lambda>w. w\<lparr>w_missing := removeAll d (w_missing w)\<rparr>) (s_waiting s)\<rparr>"
      using assms(2) by (simp add: modify_def)
    have "held (es @ [e]) (w_block w) (set (w_missing w) - {d})" if "w \<in> set (s_waiting s)" for w
      using H(1) [OF that, of "set (w_missing w) - {d}"] 3 by auto
    then show ?thesis
      using H(2) by (intro historyI) (auto simp: s')
  next
    case (4 cr' i)
    with assms(2) have "sync_step cr (Completed i) s = (r, s')" by simp
    then show ?thesis
    proof (cases rule: completed_step)
      case idle
      with H show ?thesis by (intro historyI) auto
    next
      case (delivered w f)
      have "held (es @ [e]) (w_block w) {}"
        using H(1) [OF delivered(1), of "{}"] delivered(3) by simp
      with H show ?thesis
        by (intro historyI) (auto simp: delivered(4,7,9,10))
    qed
  next
    case (5 cr' i)
    then show ?thesis using assms(2) H
      by (intro historyI) (auto simp: take_waiter_Some split: option.splits)
  next
    case (6 cr' i)
    then show ?thesis using assms(2) H
      by (intro historyI) (auto simp: take_waiter_Some split: option.splits)
  next
    case (7 cr' now)
    then show ?thesis using assms(2) H
      by (intro historyI) (auto dest!: handle_timer_frame)
  qed
qed

lemma history_run:
  assumes "history es0 s0" and "sync_run cr es s0 = (Ok (), s)"
  shows "history (es0 @ es) s"
  using assms
proof (induction es arbitrary: es0 s0)
  case Nil
  then show ?case by (simp add: ret_def)
next
  case (Cons e es)
  then obtain s1 where "sync_step cr e s0 = (Ok (), s1)" "sync_run cr es s1 = (Ok (), s)"
    by (auto simp: bind_def split: prod.splits outcome.splits)
  then show ?case
    using Cons.IH [of "es0 @ [e]" s1] history_step [OF Cons.prems(1)] by simp
qed

section \<open>Delivery at most once per request\<close>

definition sync_of :: "primitives \<Rightarrow> digest \<Rightarrow> sync_event \<Rightarrow> bool" where
  "sync_of cr d e = (case e of Inner (Sync missing b) now \<Rightarrow> block_digest cr b = d | _ \<Rightarrow> False)"

definition in_flight :: "primitives \<Rightarrow> digest \<Rightarrow> mempool_sync \<Rightarrow> nat" where
  "in_flight cr d s = length (filter (\<lambda>w. block_digest cr (w_block w) = d) (s_waiting s))
     + length (filter (\<lambda>b. block_digest cr b = d) (s_loopback s))"

lemma in_flight_remove:
  assumes "w \<in> set ws" and "w_id w = i"
  shows "length (filter P (filter (\<lambda>v. w_id v \<noteq> i) ws)) + (if P w then 1 else 0) \<le> length (filter P ws)"
proof -
  have "filter P (filter (\<lambda>v. w_id v \<noteq> i) ws) = filter (\<lambda>v. w_id v \<noteq> i) (filter P ws)"
    by (simp add: conj_commute)
  moreover have "P w \<Longrightarrow> length (filter (\<lambda>v. w_id v \<noteq> i) (filter P ws)) < length (filter P ws)"
    using assms by (intro length_filter_less [of w]) auto
  ultimately show ?thesis
    using length_filter_le [of "\<lambda>v. w_id v \<noteq> i" "filter P ws"]
    by (cases "P w") (simp_all add: Suc_le_eq)
qed

lemma in_flight_taken:
  assumes "take_waiter i ready s = Some (w, s1)"
  shows "in_flight cr d s1 + (if block_digest cr (w_block w) = d then 1 else 0) \<le> in_flight cr d s"
proof -
  have "w \<in> set (s_waiting s)" "w_id w = i"
    and s1: "s1 = s\<lparr>s_waiting := filter (\<lambda>v. w_id v \<noteq> i) (s_waiting s)\<rparr>"
    using assms by (auto simp: take_waiter_Some dest: find_waiter)
  from in_flight_remove [OF this(1,2), of "\<lambda>w. block_digest cr (w_block w) = d"]
  show ?thesis by (simp add: in_flight_def s1)
qed

lemma in_flight_step:
  assumes "sync_step cr e s = (r, s')"
  shows "in_flight cr d s' \<le> in_flight cr d s + (if sync_of cr d e then 1 else 0)"
proof (cases "(cr, e)" rule: sync_step.cases)
  case (1 cr' missing b now)
  with assms have s: "handle_sync cr now missing b s = (r, s')" by simp
  show ?thesis
  proof (cases "map_of (s_pending s) (block_digest cr b)")
    case None
    with handle_sync_new [OF None s] 1 show ?thesis
      by (simp add: in_flight_def new_waiter_def sync_of_def)
  next
    case (Some x)
    with s show ?thesis by (simp add: handle_sync_pending)
  qed
next
  case (2 cr' rnd now)
  with assms show ?thesis
    by (auto simp: handle_clean_def Let_def modify_def in_flight_def comp_def if_distrib [of w_block])
next
  case (3 cr' d)
  with assms show ?thesis by (auto simp: modify_def in_flight_def comp_def)
next
  case (4 cr' i)
  with assms have "sync_step cr (Completed i) s = (r, s')" by simp
  then show ?thesis
  proof (cases rule: completed_step)
    case (delivered w f)
    from in_flight_remove [OF delivered(1,2), of "\<lambda>w. block_digest cr (w_block w) = d"] show ?thesis
      by (cases "block_digest cr (w_block w) = d") (simp_all add: in_flight_def delivered(4,7,10) filter_map comp_def)
  qed simp
next
  case (5 cr' i)
  with assms in_flight_taken [where cr = cr and d = d] show ?thesis
    by (fastforce split: option.splits)
next
  case (6 cr' i)
  with assms in_flight_taken [where cr = cr and d = d] show ?thesis
    by (fastforce split: option.splits)
next
  case (7 cr' now)
  with assms show ?thesis
    by (auto simp: in_flight_def dest!: handle_timer_frame)
qed

lemma in_flight_run:
  "sync_run cr es s0 = (Ok (), s) \<Longrightarrow>
     in_flight cr d s \<le> in_flight cr d s0 + length (filter (sync_of cr d) es)"
proof (induction es arbitrary: s0)
  case Nil
  then show ?case by (simp add: ret_def)
next
  case (Cons e es)
  then obtain s1 where "sync_step cr e s0 = (Ok (), s1)" "sync_run cr es s1 = (Ok (), s)"
    by (auto simp: bind_def split: prod.splits outcome.splits)
  then show ?case
    using Cons.IH [of s1] in_flight_step [of cr e s0 "Ok ()" s1 d]
    by (cases "sync_of cr d e") auto
qed

section \<open>Waiters that are not cancelled\<close>

definition waiters_ok :: "mempool_sync \<Rightarrow> bool" where
  "waiters_ok s \<longleftrightarrow> (\<forall>w \<in> set (s_waiting s). w_id w < s_next s)
     \<and> (\<forall>(d, r, h) \<in> set (s_pending s). h < s_next s
          \<and> (\<forall>w \<in> set (s_waiting s). w_id w = h \<longrightarrow> b_height (w_block w) = r))"

lemma set_AList_delete: "set (AList.delete k xs) \<subseteq> set xs"
  by (auto simp: AList.delete_eq)

lemma waiters_okI:
  assumes "\<And>w. w \<in> set (s_waiting s) \<Longrightarrow> w_id w < s_next s"
    and "\<And>d r h. (d, r, h) \<in> set (s_pending s) \<Longrightarrow> h < s_next s"
    and "\<And>d r h w. (d, r, h) \<in> set (s_pending s) \<Longrightarrow> w \<in> set (s_waiting s) \<Longrightarrow> w_id w = h \<Longrightarrow>
           b_height (w_block w) = r"
  shows "waiters_ok s"
  using assms by (fastforce simp: waiters_ok_def)

lemma waiters_okD:
  assumes "waiters_ok s"
  shows "w \<in> set (s_waiting s) \<Longrightarrow> w_id w < s_next s"
    and "(d, r, h) \<in> set (s_pending s) \<Longrightarrow> h < s_next s"
    and "(d, r, h) \<in> set (s_pending s) \<Longrightarrow> w \<in> set (s_waiting s) \<Longrightarrow> w_id w = h \<Longrightarrow>
           b_height (w_block w) = r"
  using assms by (auto simp: waiters_ok_def)

lemma waiters_ok_step:
  assumes "waiters_ok s" and "sync_step cr e s = (r, s')"
  shows "waiters_ok s'"
proof -
  note D = waiters_okD [OF assms(1)]
  show ?thesis
  proof (cases "(cr, e)" rule: sync_step.cases)
    case (1 cr' missing b now)
    with assms(2) have s: "handle_sync cr now missing b s = (r, s')" by simp
    show ?thesis
    proof (cases "map_of (s_pending s) (block_digest cr b)")
      case None
      note new = handle_sync_new [OF None s]
      have p: "x = (block_digest cr b, b_height b, s_next s) \<or> x \<in> set (s_pending s)"
        if "x \<in> set (s_pending s')" for x
        using that set_AList_update unfolding new(4) by fastforce
      show ?thesis
      proof (rule waiters_okI)
        show "w_id w < s_next s'" if "w \<in> set (s_waiting s')" for w
          using that D(1) [of w] by (auto simp: new(2,3) new_waiter_def)
        show "h < s_next s'" if "(d, q, h) \<in> set (s_pending s')" for d q h
          using p [OF that] D(2) [of d q h] by (auto simp: new(3))
        show "b_height (w_block w) = q"
          if "(d, q, h) \<in> set (s_pending s')" "w \<in> set (s_waiting s')" "w_id w = h" for d q h w
          using p [OF that(1)] that(2,3) D(3) [of d q h w] D(1) [of w] D(2) [of d q h]
          by (auto simp: new(2) new_waiter_def)
      qed
    next
      case (Some x)
      with s assms(1) show ?thesis by (simp add: handle_sync_pending)
    qed
  next
    case (2 cr' rnd now)
    with assms(2) D show ?thesis
      by (intro waiters_okI) (auto simp: handle_clean_def Let_def modify_def split: if_splits)
  next
    case (3 cr' d)
    with assms(2) D show ?thesis by (intro waiters_okI) (auto simp: modify_def)
  next
    case (4 cr' i)
    with assms(2) have "sync_step cr (Completed i) s = (r, s')" by simp
    then show ?thesis
    proof (cases rule: completed_step)
      case (delivered w f)
      have "x \<in> set (s_pending s)" if "x \<in> set (s_pending s')" for x
        using that set_AList_delete unfolding delivered(6) by fast
      with D show ?thesis
        by (intro waiters_okI) (fastforce simp: delivered(4,5,8,10))+
    qed (use assms(1) in simp)
  next
    case (5 cr' i)
    with assms(2) D show ?thesis
      by (intro waiters_okI) (fastforce simp: take_waiter_Some split: option.splits)+
  next
    case (6 cr' i)
    with assms(2) D show ?thesis
      by (intro waiters_okI) (fastforce simp: take_waiter_Some split: option.splits)+
  next
    case (7 cr' now)
    with assms(2) D show ?thesis
      by (intro waiters_okI) (auto dest!: handle_timer_frame)
  qed
qed

text \<open>
  A waiter for \<open>b\<close> that has not been cancelled and still has to read at most \<open>ds\<close>. Another
  waiter of the same block can only be left over from before a cleanup; if it completes, the
  block is handed back by it.
\<close>

definition tracked :: "primitives \<Rightarrow> mempool_sync \<Rightarrow> nat \<Rightarrow> block \<Rightarrow> digest set \<Rightarrow> bool" where
  "tracked cr s i b ds \<longleftrightarrow> (\<exists>w \<in> set (s_waiting s). w_id w = i \<and> set (w_missing w) \<subseteq> ds)
     \<and> (\<forall>w \<in> set (s_waiting s). w_id w = i \<longrightarrow> w_block w = b \<and> \<not> w_cancelled w)
     \<and> (\<forall>d r. (d, r, i) \<in> set (s_pending s) \<longrightarrow> d = block_digest cr b)"

definition returned :: "primitives \<Rightarrow> digest \<Rightarrow> mempool_sync \<Rightarrow> nat" where
  "returned cr d s = length (filter (\<lambda>b. block_digest cr b = d) (s_loopback s))"

definition disturbs :: "nat \<Rightarrow> block \<Rightarrow> sync_event \<Rightarrow> bool" where
  "disturbs i b e = (case e of Inner (Clean rnd) now \<Rightarrow> b_height b \<le> rnd | Failed j \<Rightarrow> j = i | _ \<Rightarrow> False)"

lemma loopback_step:
  assumes "sync_step cr e s = (r, s')"
  shows "\<exists>bs. s_loopback s' = s_loopback s @ bs"
proof (cases "(cr, e)" rule: sync_step.cases)
  case (1 cr' missing b now)
  with assms have s: "handle_sync cr now missing b s = (r, s')" by simp
  then show ?thesis
    by (cases "map_of (s_pending s) (block_digest cr b)") (auto simp: handle_sync_pending handle_sync_new(1))
next
  case (4 cr' i)
  with assms have "sync_step cr (Completed i) s = (r, s')" by simp
  then show ?thesis by (cases rule: completed_step) auto
next
  case (7 cr' now)
  with assms show ?thesis by (auto dest!: handle_timer_frame)
qed (use assms in \<open>auto simp: handle_clean_def modify_def Let_def take_waiter_Some split: option.splits\<close>)

lemma returned_step: "sync_step cr e s = (r, s') \<Longrightarrow> returned cr d s \<le> returned cr d s'"
  by (auto simp: returned_def dest!: loopback_step)

lemma returned_run: "sync_run cr es s = (Ok (), s') \<Longrightarrow> returned cr d s \<le> returned cr d s'"
proof (induction es arbitrary: s)
  case (Cons e es)
  then obtain s1 where "sync_step cr e s = (Ok (), s1)" "sync_run cr es s1 = (Ok (), s')"
    by (auto simp: bind_def split: prod.splits outcome.splits)
  with Cons.IH [of s1] returned_step [of cr e s "Ok ()" s1 d] show ?case by simp
qed (simp add: ret_def)

lemma tracked_completed:
  assumes t: "tracked cr s i b ds" and step: "sync_step cr (Completed j) s = (r, s')"
  shows "tracked cr s' i b ds \<or> returned cr (block_digest cr b) s < returned cr (block_digest cr b) s'"
  using step
proof (cases rule: completed_step)
  case (delivered w f)
  show ?thesis
  proof (cases "block_digest cr (w_block w) = block_digest cr b")
    case True
    then show ?thesis by (simp add: returned_def delivered(7))
  next
    case False
    then have "j \<noteq> i"
      using t delivered(1,2) by (auto simp: tracked_def)
    moreover have "(d, q, i) \<in> set (s_pending s)" if "(d, q, i) \<in> set (s_pending s')" for d q
      using that set_AList_delete unfolding delivered(6) by fast
    moreover have "\<not> w_cancelled (f v)" if "v \<in> set (s_waiting s)" "w_id v = i" for v
      using delivered(11) [of v] that t False by (auto simp: tracked_def)
    ultimately show ?thesis
      using t by (fastforce simp: tracked_def delivered(4,8,9,10))
  qed
qed (use t in simp)

lemma tracked_step:
  assumes t: "tracked cr s i b ds" and inv: "waiters_ok s" and ok: "\<not> disturbs i b e"
    and step: "sync_step cr e s = (r, s')"
  shows "tracked cr s' i b (ds - stored [e]) \<or> returned cr (block_digest cr b) s < returned cr (block_digest cr b) s'"
proof -
  obtain w where w: "w \<in> set (s_waiting s)" "w_id w = i" "set (w_missing w) \<subseteq> ds"
    using t by (auto simp: tracked_def)
  have all: "w_block v = b" "\<not> w_cancelled v" if "v \<in> set (s_waiting s)" "w_id v = i" for v
    using t that by (auto simp: tracked_def)
  have only: "d = block_digest cr b" if "(d, q, i) \<in> set (s_pending s)" for d q
    using t that by (auto simp: tracked_def)
  note D = waiters_okD [OF inv]
  show ?thesis
  proof (cases "(cr, e)" rule: sync_step.cases)
    case (1 cr' missing b' now)
    with step have s: "handle_sync cr now missing b' s = (r, s')" by simp
    show ?thesis
    proof (cases "map_of (s_pending s) (block_digest cr b')")
      case None
      note new = handle_sync_new [OF None s]
      have "d = block_digest cr b" if "(d, q, i) \<in> set (s_pending s')" for d q
        using that only D(1) [OF w(1)] w(2) set_AList_update unfolding new(4) by fastforce
      with new 1 t D(1) [OF w(1)] w(2) show ?thesis
        by (auto simp: tracked_def new_waiter_def)
    next
      case (Some x)
      with s t 1 show ?thesis by (simp add: handle_sync_pending)
    qed
  next
    case (2 cr' rnd now)
    have keep: "i \<notin> set (map (\<lambda>(d, r, h). h) (filter (\<lambda>(d, r, h). r \<le> rnd) (s_pending s)))"
      using D(3) w(1,2) all [OF w(1,2)] ok 2 by (auto simp: disturbs_def)
    then obtain C where C: "i \<notin> C" "set (s_pending s') \<subseteq> set (s_pending s)"
      "s_waiting s' = map (\<lambda>w. if w_id w \<in> C then w\<lparr>w_cancelled := True\<rparr> else w) (s_waiting s)"
      using 2 step by (fastforce simp: handle_clean_def Let_def modify_def)
    then show ?thesis
      using w all only 2 by (fastforce simp: tracked_def)
  next
    case (3 cr' d)
    then show ?thesis using step w all only by (fastforce simp: modify_def tracked_def)
  next
    case (4 cr' j)
    with tracked_completed [OF t, of j r s'] step show ?thesis by (simp del: sync_step.simps)
  next
    case (5 cr' j)
    show ?thesis
    proof (cases "take_waiter j w_cancelled s")
      case None
      then show ?thesis using 5 step t by simp
    next
      case (Some a)
      then obtain v where v: "take_waiter j w_cancelled s = Some (v, s')"
        using 5 step by (cases a) auto
      then have "v \<in> set (s_waiting s)" "w_id v = j" "w_cancelled v"
        by (auto simp: take_waiter_Some dest: find_waiter)
      then have "j \<noteq> i" using all by auto
      with v show ?thesis using 5 w all only by (auto simp: tracked_def take_waiter_Some)
    qed
  next
    case (6 cr' j)
    then show ?thesis using step w all ok t only
      by (auto simp: tracked_def take_waiter_Some disturbs_def split: option.splits)
  next
    case (7 cr' now)
    then have "s_waiting s' = s_waiting s" "s_pending s' = s_pending s"
      using step handle_timer_frame by auto
    with 7 t show ?thesis by (simp add: tracked_def)
  qed
qed

lemma tracked_done:
  assumes "tracked cr s i b {}"
  shows "\<exists>s'. sync_step cr (Completed i) s = (Ok (), s') \<and> s_loopback s' = s_loopback s @ [b]"
proof -
  obtain w where w: "w \<in> set (s_waiting s)" "w_id w = i" "w_missing w = []"
    using assms by (auto simp: tracked_def)
  then obtain v where v: "find (\<lambda>w. w_id w = i \<and> w_missing w = []) (s_waiting s) = Some v"
    by (cases "find (\<lambda>w. w_id w = i \<and> w_missing w = []) (s_waiting s)") (auto simp: find_None_iff)
  then have "w_block v = b"
    using assms find_waiter [OF v] by (auto simp: tracked_def)
  with v show ?thesis
    by (auto simp: take_waiter_def handle_delivered_def modify_def)
qed

section \<open>Panics\<close>

definition authors_known :: "mempool_committee \<Rightarrow> sync_event list \<Rightarrow> bool" where
  "authors_known c es \<longleftrightarrow> (\<forall>e \<in> set es. case e of
     Inner (Sync missing b) now \<Rightarrow> committee_exists c (b_author b) | _ \<Rightarrow> True)"

lemma sync_transmit_ok:
  "to = None \<or> committee_exists (s_committee s) (the to) \<Longrightarrow>
     \<exists>s'. sync_transmit msg to s = (Ok (), s') \<and> s_committee s' = s_committee s"
  by (auto simp: sync_transmit_def mempool_transmit_addresses_def committee_exists_address act_defs
      split: option.splits)

lemma sync_step_ok:
  assumes "authors_known (s_committee s) [e]"
  shows "\<exists>s'. sync_step cr e s = (Ok (), s') \<and> s_committee s' = s_committee s"
proof (cases "(cr, e)" rule: sync_step.cases)
  case (1 cr' missing b now)
  let ?s = "s\<lparr>s_pending := AList.update (block_digest cr b) (b_height b, s_next s) (s_pending s),
         s_waiting := s_waiting s @ [new_waiter s missing b], s_next := s_next s + 1\<rparr>"
  let ?ask = "filter (\<lambda>x. map_of (s_requests s) x = None) missing"
  let ?t = "?s\<lparr>s_requests := fold (\<lambda>x. AList.update x (b_height b, now)) ?ask (s_requests s)\<rparr>"
  have "committee_exists (s_committee s) (b_author b)"
    using assms 1 by (simp add: authors_known_def)
  then obtain s1 where "sync_transmit (PayloadRequest ?ask (s_name s)) (Some (b_author b)) ?t = (Ok (), s1)"
    "s_committee s1 = s_committee s"
    using sync_transmit_ok [of "Some (b_author b)" ?t "PayloadRequest ?ask (s_name s)"] by auto
  then show ?thesis
    using 1 by (auto simp: handle_sync_def Let_def act_defs new_waiter_def)
next
  case (7 cr' now)
  then show ?thesis
    by (auto simp: handle_timer_def Let_def bind_def gets_def whenever_def ret_def sync_transmit_ok)
qed (auto simp: handle_clean_def handle_delivered_def modify_def Let_def take_waiter_def split: option.split)

lemma sync_run_ok:
  assumes "authors_known (s_committee s) es"
  shows "\<exists>s'. sync_run cr es s = (Ok (), s') \<and> s_committee s' = s_committee s"
  using assms
proof (induction es arbitrary: s)
  case Nil
  then show ?case by (simp add: ret_def)
next
  case (Cons e es)
  then obtain s1 where "sync_step cr e s = (Ok (), s1)" "s_committee s1 = s_committee s"
    using sync_step_ok [of s e cr] by (auto simp: authors_known_def)
  then show ?case
    using Cons.IH [of s1] Cons.prems by (auto simp: bind_def authors_known_def)
qed

lemma tracked_run:
  assumes "tracked cr s i b ds" and "waiters_ok s" and "\<forall>e \<in> set es. \<not> disturbs i b e"
    and "sync_run cr es s = (Ok (), s')"
  shows "tracked cr s' i b (ds - stored es) \<or> returned cr (block_digest cr b) s < returned cr (block_digest cr b) s'"
  using assms
proof (induction es arbitrary: s ds)
  case Nil
  then show ?case by (simp add: ret_def)
next
  case (Cons e es)
  then obtain s1 where s1: "sync_step cr e s = (Ok (), s1)" "sync_run cr es s1 = (Ok (), s')"
    by (auto simp: bind_def split: prod.splits outcome.splits)
  have "waiters_ok s1"
    by (rule waiters_ok_step [OF Cons.prems(2) s1(1)])
  have "returned cr (block_digest cr b) s \<le> returned cr (block_digest cr b) s1"
    "returned cr (block_digest cr b) s1 \<le> returned cr (block_digest cr b) s'"
    by (rule returned_step [OF s1(1)] returned_run [OF s1(2)])+
  moreover have "tracked cr s1 i b (ds - stored [e]) \<or> returned cr (block_digest cr b) s < returned cr (block_digest cr b) s1"
    using tracked_step [OF Cons.prems(1,2) _ s1(1)] Cons.prems(3) by simp
  moreover have "stored (e # es) = stored [e] \<union> stored es"
    using stored_simps(2) [of "[e]" es] by simp
  ultimately show ?case
    using Cons.IH [OF _ \<open>waiters_ok s1\<close> _ s1(2), of "ds - stored [e]"] Cons.prems(3)
    by (auto simp: Diff_Un Diff_Int2 Diff_eq Int_assoc simp del: stored_simps)
qed

section \<open>The contract of the task\<close>

lemma new_sync [simp]:
  "history [] (mempool_sync_new nm c delay)" "waiters_ok (mempool_sync_new nm c delay)"
  "in_flight cr d (mempool_sync_new nm c delay) = 0" "s_committee (mempool_sync_new nm c delay) = c"
  by (simp_all add: mempool_sync_new_def history_def waiters_ok_def in_flight_def)

lemma waiters_ok_run:
  assumes "waiters_ok s" and "sync_run cr es s = (Ok (), s')"
  shows "waiters_ok s'"
  using assms
proof (induction es arbitrary: s)
  case (Cons e es)
  then obtain s1 where "sync_step cr e s = (Ok (), s1)" "sync_run cr es s1 = (Ok (), s')"
    by (auto simp: bind_def split: prod.splits outcome.splits)
  then show ?case using Cons.IH Cons.prems(1) waiters_ok_step by blast
qed (simp add: ret_def)

lemma committee_run:
  assumes "sync_run cr es s = (Ok (), s')"
  shows "s_committee s' = s_committee s"
  using assms
proof (induction es arbitrary: s)
  case (Cons e es)
  then obtain s1 where s1: "sync_step cr e s = (Ok (), s1)" "sync_run cr es s1 = (Ok (), s')"
    by (auto simp: bind_def split: prod.splits outcome.splits)
  have "s_committee s1 = s_committee s"
  proof (cases "(cr, e)" rule: sync_step.cases)
    case (1 cr' missing b now)
    with s1(1) show ?thesis
      using handle_sync_new(5) [of s cr b now missing "Ok ()" s1]
      by (cases "map_of (s_pending s) (block_digest cr b)") (auto simp: handle_sync_pending)
  next
    case (7 cr' now)
    with s1(1) show ?thesis by (auto dest!: handle_timer_frame)
  qed (use s1(1) in \<open>auto simp: handle_clean_def handle_delivered_def modify_def Let_def take_waiter_Some
        split: option.splits\<close>)
  with Cons.IH [OF s1(2)] show ?case by simp
qed (simp add: ret_def)

text \<open>
  C13. A block that the mempool puts on hold is handed back to the consensus: from any
  reachable state in which it is not pending, once the store has answered for every payload it
  waits for, and unless a cleanup at its height or above or an error of the store comes first,
  either a block with its digest has been handed back since, by its waiter or by one left over
  from before a cleanup, or its waiter can complete and then appends it to the loopback
  channel; the task does not panic on the way if the authors of the blocks are in the
  committee.
\<close>

theorem held_block_delivered:
  assumes "sync_run cr es0 (mempool_sync_new nm c delay) = (Ok (), s0)"
    and "map_of (s_pending s0) (block_digest cr b) = None"
    and "authors_known c (Inner (Sync missing b) now # es)"
    and "\<forall>e \<in> set es. \<not> disturbs (s_next s0) b e"
    and "set missing \<subseteq> stored es"
  shows "\<exists>s. sync_run cr (Inner (Sync missing b) now # es) s0 = (Ok (), s)
     \<and> (returned cr (block_digest cr b) s0 < returned cr (block_digest cr b) s
        \<or> (\<exists>s'. sync_step cr (Completed (s_next s0)) s = (Ok (), s') \<and> s_loopback s' = s_loopback s @ [b]))"
proof -
  have c: "s_committee s0 = c" and ok: "waiters_ok s0"
    using committee_run [OF assms(1)] waiters_ok_run [OF _ assms(1)] by simp_all
  obtain s where run: "sync_run cr (Inner (Sync missing b) now # es) s0 = (Ok (), s)"
    using sync_run_ok [of s0 "Inner (Sync missing b) now # es" cr] assms(3) c by auto
  then obtain s1 where s1: "handle_sync cr now missing b s0 = (Ok (), s1)" "sync_run cr es s1 = (Ok (), s)"
    by (auto simp: bind_def split: prod.splits outcome.splits)
  note new = handle_sync_new [OF assms(2) s1(1)]
  have "tracked cr s1 (s_next s0) b (set missing)"
    using waiters_okD(1,2) [OF ok] set_AList_update
    by (fastforce simp: tracked_def new(2,4) new_waiter_def)
  moreover have "waiters_ok s1"
    using waiters_ok_step [OF ok, of cr "Inner (Sync missing b) now"] s1(1) by simp
  moreover have empty: "set missing - stored es = {}"
    using assms(5) by blast
  moreover have "returned cr (block_digest cr b) s1 = returned cr (block_digest cr b) s0"
    by (simp add: returned_def new(1))
  ultimately have "tracked cr s (s_next s0) b {} \<or> returned cr (block_digest cr b) s0 < returned cr (block_digest cr b) s"
    using tracked_run [of cr s1 "s_next s0" b "set missing" es s, unfolded empty] assms(4) s1(2) by simp
  with tracked_done [of cr s] run show ?thesis by blast
qed

text \<open>
  C14. Every block the mempool synchronizer has handed back was put on hold before, and since
  then the store has answered for each payload it was missing; and a block digest is handed
  back at most as often as it was put on hold.
\<close>

theorem delivered_only_when_complete:
  assumes "sync_run cr es (mempool_sync_new nm c delay) = (Ok (), s)"
  shows "(\<forall>b \<in> set (s_loopback s). held es b {})
     \<and> (\<forall>d. length (filter (\<lambda>b. block_digest cr b = d) (s_loopback s)) \<le> length (filter (sync_of cr d) es))"
proof -
  have "history es s"
    using history_run [OF _ assms, of "[]"] by simp
  moreover have "length (filter (\<lambda>b. block_digest cr b = d) (s_loopback s)) \<le> length (filter (sync_of cr d) es)"
    for d
    using in_flight_run [OF assms, of d] unfolding new_sync by (simp add: in_flight_def)
  ultimately show ?thesis by (simp add: history_def)
qed

text \<open>A block whose author is not in the committee of the mempool ends the task.\<close>

lemma sync_unknown_author_panics:
  assumes "map_of (s_pending s) (block_digest cr b) = None" and "\<not> committee_exists (s_committee s) (b_author b)"
    and "d \<in> set missing" and "map_of (s_requests s) d = None"
  shows "fst (sync_step cr (Inner (Sync missing b) now) s) = Panic ExpectFailed"
proof -
  have "d \<in> set (filter (\<lambda>x. map_of (s_requests s) x = None) missing)"
    using assms(3,4) by simp
  then have "filter (\<lambda>x. map_of (s_requests s) x = None) missing \<noteq> []"
    by (metis empty_iff empty_set)
  then show ?thesis
    using assms(1,2)
    by (auto simp: handle_sync_def Let_def sync_transmit_def mempool_transmit_addresses_def
        mempool_address_def committee_exists_def act_defs)
qed

section \<open>Examples\<close>

definition example_mempool_committee :: mempool_committee where
  "example_mempool_committee = mempool_committee_new
     (map (\<lambda>i. (PublicKey i, V4 (ucast i) 2, V4 (ucast i) 3)) [1, 2, 3, 4]) 1"

lemma example_mempool_exists [simp]:
  "committee_exists example_mempool_committee (PublicKey w) \<longleftrightarrow> w \<in> {1, 2, 3, 4}"
  by (auto simp: example_mempool_committee_def mempool_committee_new_def committee_exists_def)

lemma held_block_delivered_witness:
  "\<exists>s s'. sync_run example_primitives
       [Inner (Sync [Digest 5] (example_block 2 1 [])) 0, Timer 7, Stored (Digest 5)]
       (mempool_sync_new (PublicKey 1) example_mempool_committee 0) = (Ok (), s)
     \<and> sync_step example_primitives (Completed 0) s = (Ok (), s')
     \<and> s_loopback s' = s_loopback s @ [example_block 2 1 []]"
proof -
  let ?s0 = "mempool_sync_new (PublicKey 1) example_mempool_committee 0" and ?b = "example_block 2 1 []"
  let ?es = "[Timer 7, Stored (Digest 5)]"
  have start: "s_next ?s0 = 0" "\<And>d. returned example_primitives d ?s0 = 0"
    by (simp_all add: mempool_sync_new_def returned_def)
  obtain s where s: "sync_run example_primitives (Inner (Sync [Digest 5] ?b) 0 # ?es) ?s0 = (Ok (), s)" "s_loopback s = []"
    by (simp add: mempool_sync_new_def handle_sync_def handle_timer_def sync_transmit_def mempool_transmit_addresses_def
        mempool_address_def example_mempool_committee_def mempool_committee_new_def example_block_def Let_def act_defs)
  then have "returned example_primitives (block_digest example_primitives ?b) s = 0"
    by (simp add: returned_def)
  with held_block_delivered [of example_primitives "[]" "PublicKey 1" example_mempool_committee 0
      ?s0 ?b "[Digest 5]" 0 ?es, unfolded start] s(1)
  have "\<exists>s'. sync_step example_primitives (Completed 0) s = (Ok (), s') \<and> s_loopback s' = s_loopback s @ [?b]"
    by (simp add: ret_def mempool_sync_new_def authors_known_def disturbs_def example_block_def del: sync_step.simps sync_run.simps(2))
  with s(1) show ?thesis by blast
qed

lemma delivered_only_when_complete_witness:
  "\<exists>s. sync_run example_primitives
       [Inner (Sync [Digest 5] (example_block 2 1 [])) 0, Completed 0, Stored (Digest 5), Completed 0]
       (mempool_sync_new (PublicKey 1) example_mempool_committee 0) = (Ok (), s)
     \<and> s_loopback s = [example_block 2 1 []]
     \<and> held [Inner (Sync [Digest 5] (example_block 2 1 [])) 0, Completed 0, Stored (Digest 5), Completed 0] (example_block 2 1 []) {}"
proof -
  obtain s where s: "sync_run example_primitives [Inner (Sync [Digest 5] (example_block 2 1 [])) 0, Completed 0, Stored (Digest 5), Completed 0]
       (mempool_sync_new (PublicKey 1) example_mempool_committee 0) = (Ok (), s)"
      "s_loopback s = [example_block 2 1 []]"
    by (simp add: mempool_sync_new_def handle_sync_def handle_delivered_def take_waiter_def Let_def sync_transmit_def
        mempool_transmit_addresses_def mempool_address_def example_mempool_committee_def mempool_committee_new_def
        example_block_def act_defs)
  from delivered_only_when_complete [OF s(1)] s show ?thesis by simp
qed

end
