(* ===== verification/Mempool_Core.thy ===== *)
theory Mempool_Core
  imports Payload_Maker Mempool_Sync Core_State
begin

text \<open>
  \<^verbatim>\<open>mempool/src/core.rs\<close>: the task that keeps the digests of the payloads waiting to
  be proposed, answers the consensus core, and exchanges payloads with other nodes. The
  two queues are sets; a set is a list without repetition, in the order of insertion.
  Where the program iterates over a set, the order is that of the slots the elements lie
  in, and the slots, like the spare capacity of a set, are the environment's.
\<close>

section \<open>Environment and state\<close>

datatype set_name = OptQueue | PesQueue | Missing

record 'db mempool_env =
  m_prims :: primitives
  m_put :: "bytes \<Rightarrow> bytes \<Rightarrow> 'db \<Rightarrow> 'db"
  m_get :: "bytes \<Rightarrow> 'db \<Rightarrow> store_error + bytes option"
  serialize_payload :: "payload \<Rightarrow> bytes"
  deserialize_payload :: "bytes \<Rightarrow> bincode_error + payload"
  slot :: "set_name \<Rightarrow> digest list \<Rightarrow> digest \<Rightarrow> nat"
  spare :: "set_name \<Rightarrow> digest list \<Rightarrow> nat"
  benchmark :: bool

definition hs_insert :: "'a \<Rightarrow> 'a list \<Rightarrow> 'a list" where
  "hs_insert x q = (if x \<in> set q then q else q @ [x])"

definition hs_iter :: "('a list \<Rightarrow> 'a \<Rightarrow> nat) \<Rightarrow> 'a list \<Rightarrow> 'a list" where
  "hs_iter sl q = sort_key (sl q) q"

definition hs_capacity :: "('a list \<Rightarrow> nat) \<Rightarrow> 'a list \<Rightarrow> nat" where
  "hs_capacity sp q = length q + sp q"

text \<open>
  \<open>m_inner_channel\<close>, \<open>m_network\<close>: what was sent to the synchronizer task and to the
  network; \<open>core_channel\<close>: what the payload maker and the network have sent to the core
  and the core has not received yet.
\<close>

record 'db mempool =
  m_name :: public_key
  m_committee :: mempool_committee
  m_parameters :: mempool_parameters
  m_store :: 'db
  m_inner_channel :: "synchronizer_message list"
  payload_maker :: runner
  core_channel :: "mempool_message list"
  m_network :: "(mempool_message \<times> socket_addr list) list"
  opt_queue :: "digest list"
  pes_queue :: "digest list"

type_synonym ('db, 'a) mempool_act = "('db mempool, mempool_error, 'a) act"

definition mempool_new :: "public_key \<Rightarrow> mempool_committee \<Rightarrow> mempool_parameters \<Rightarrow> 'db \<Rightarrow>
    signature_service \<Rightarrow> 'db mempool" where
  "mempool_new nm c params st svc = \<lparr>m_name = nm, m_committee = c, m_parameters = params,
     m_store = st, m_inner_channel = [],
     payload_maker = runner_new nm svc (mp_max_payload_size params) (mp_min_block_delay params),
     core_channel = [], m_network = [], opt_queue = [], pes_queue = []\<rparr>"

section \<open>Plumbing\<close>

definition on_maker :: "(runner, mempool_error, 'a) act \<Rightarrow> ('db, 'a) mempool_act" where
  "on_maker m = (\<lambda>s. case m (payload_maker s) of (r, pm) \<Rightarrow> (r, s\<lparr>payload_maker := pm\<rparr>))"

text \<open>A result that the caller inspects: an error becomes a value, a panic does not.\<close>

definition attempt :: "('s, 'e, 'a) act \<Rightarrow> ('s, 'f, 'e + 'a) act" where
  "attempt m = (\<lambda>s. case m s of (r, s') \<Rightarrow> (case r of Ok x \<Rightarrow> Ok (Inr x) | Err e \<Rightarrow> Ok (Inl e)
     | Panic p \<Rightarrow> Panic p | Diverge \<Rightarrow> Diverge, s'))"

section \<open>Payloads\<close>

definition store_payload :: "'db mempool_env \<Rightarrow> bytes \<Rightarrow> payload \<Rightarrow> ('db, unit) mempool_act" where
  "store_payload env key p = modify (\<lambda>s. s\<lparr>m_store := m_put env key (serialize_payload env p) (m_store s)\<rparr>)"

definition mempool_transmit :: "mempool_message \<Rightarrow> public_key option \<Rightarrow> ('db, unit) mempool_act" where
  "mempool_transmit msg to = bind (gets id) (\<lambda>s.
     bind (lift (mempool_transmit_addresses (m_committee s) (m_name s) to)) (\<lambda>addrs.
     modify (\<lambda>s. s\<lparr>m_network := m_network s @ [(msg, addrs)]\<rparr>)))"

text \<open>
  The loop of the benchmark feature over the transactions, with the identifiers it logs: it
  looks at \<open>tx[0]\<close> before it looks at the length.
\<close>

definition sample_id :: "transaction \<Rightarrow> u64 option" where
  "sample_id tx = (if hd tx = 0 \<and> 8 < length tx then Some (from_be_bytes (take 8 (drop 1 tx))) else None)"

fun log_samples :: "transaction list \<Rightarrow> ('db, u64 list) mempool_act" where
  "log_samples [] = ret []"
| "log_samples (tx # txs) = (if tx = [] then panic SliceRange
     else bind (log_samples txs) (\<lambda>ids.
       ret (case sample_id tx of None \<Rightarrow> ids | Some i \<Rightarrow> i # ids)))"

definition process_own_payload :: "'db mempool_env \<Rightarrow> digest \<Rightarrow> payload \<Rightarrow> ('db, unit) mempool_act" where
  "process_own_payload env d p = bind (gets id) (\<lambda>s.
     bind (lift (ensure (length (opt_queue s) < hs_capacity (spare env OptQueue) (opt_queue s)
         \<and> length (pes_queue s) < hs_capacity (spare env PesQueue) (pes_queue s)) MempoolFull)) (\<lambda>_.
     bind (whenever (benchmark env) (bind (log_samples (p_transactions p)) (\<lambda>_. ret ()))) (\<lambda>_.
     bind (store_payload env (digest_to_vec d) p) (\<lambda>_.
     mempool_transmit (PayloadMsg p) None))))"

definition handle_own_payload :: "'db mempool_env \<Rightarrow> payload \<Rightarrow> ('db, unit) mempool_act" where
  "handle_own_payload env p = bind (gets id) (\<lambda>s.
     bind (lift (ensure (length (opt_queue s) < queue_capacity (m_parameters s)) MempoolFull)) (\<lambda>_.
     let d = payload_digest (m_prims env) p in
     bind (process_own_payload env d p) (\<lambda>_.
     modify (\<lambda>s. s\<lparr>opt_queue := hs_insert d (opt_queue s)\<rparr>))))"

definition handle_others_payload :: "'db mempool_env \<Rightarrow> payload \<Rightarrow> ('db, unit) mempool_act" where
  "handle_others_payload env p = bind (gets id) (\<lambda>s.
     bind (lift (ensure (committee_exists (m_committee s) (p_author p)) (MUnknownAuthority (p_author p)))) (\<lambda>_.
     bind (lift (ensure (payload_size p \<le> mp_max_payload_size (m_parameters s)) PayloadTooBig)) (\<lambda>_.
     let d = payload_digest (m_prims env) p in
     bind (lift (map_error MInvalidSignature (signature_verify (m_prims env) (p_signature p) d (p_author p)))) (\<lambda>_.
     bind (store_payload env (digest_to_vec d) p) (\<lambda>_.
     modify (\<lambda>s. s\<lparr>pes_queue := hs_insert d (pes_queue s)\<rparr>))))))"

fun handle_request :: "'db mempool_env \<Rightarrow> digest list \<Rightarrow> public_key \<Rightarrow> ('db, unit) mempool_act" where
  "handle_request env [] requestor = ret ()"
| "handle_request env (d # ds) requestor = bind (gets m_store) (\<lambda>st.
     bind (lift (map_error MStoreError (m_get env (digest_to_vec d) st))) (\<lambda>r.
     bind (case r of
         None \<Rightarrow> ret ()
       | Some bs \<Rightarrow> bind (lift (map_error MSerializationError (deserialize_payload env bs))) (\<lambda>p.
           mempool_transmit (PayloadMsg p) (Some requestor))) (\<lambda>_.
     handle_request env ds requestor)))"

definition get_payload :: "'db mempool_env \<Rightarrow> nat \<Rightarrow> ('db, digest list) mempool_act" where
  "get_payload env mx = bind (gets id) (\<lambda>s.
     if opt_queue s = [] \<and> pes_queue s = [] then
       bind (on_maker (payload_maker_make (m_prims env))) (\<lambda>made. case made of
         None \<Rightarrow> ret []
       | Some p \<Rightarrow> (let d = payload_digest (m_prims env) p in
           bind (process_own_payload env d p) (\<lambda>_. ret [d])))
     else
       let payload_len = mx div digest_size default_digest;
           opt_digests = (if opt_queue s \<noteq> [] then take payload_len (hs_iter (slot env OptQueue) (opt_queue s)) else []);
           rest = payload_len - length opt_digests;
           pes_digests = take rest (hs_iter (slot env PesQueue) (pes_queue s)) in
       bind (modify (\<lambda>s. s\<lparr>opt_queue := fold removeAll opt_digests (opt_queue s),
                          pes_queue := fold removeAll pes_digests (pes_queue s)\<rparr>)) (\<lambda>_.
       ret (opt_digests @ pes_digests)))"

section \<open>Blocks and cleaning\<close>

text \<open>\<open>Synchronizer::verify_payload\<close>: the set of missing digests, and the request to wait.\<close>

fun missing_payloads :: "'db mempool_env \<Rightarrow> 'db \<Rightarrow> digest list \<Rightarrow> digest list \<Rightarrow> digest list mempool_result"
  where
  "missing_payloads env st [] missing = Inr missing"
| "missing_payloads env st (d # ds) missing =
     rbind (map_error MStoreError (m_get env (digest_to_vec d) st)) (\<lambda>r.
       missing_payloads env st ds (if r = None then hs_insert d missing else missing))"

definition verify_payload :: "'db mempool_env \<Rightarrow> block \<Rightarrow> ('db, bool) mempool_act" where
  "verify_payload env b = bind (gets m_store) (\<lambda>st.
     bind (lift (missing_payloads env st (b_payload b) [])) (\<lambda>missing.
     if missing = [] then ret True
     else bind (modify (\<lambda>s. s\<lparr>m_inner_channel :=
         m_inner_channel s @ [Sync (hs_iter (slot env Missing) missing) b]\<rparr>)) (\<lambda>_. ret False)))"

definition mempool_cleanup :: "digest list \<Rightarrow> u64 \<Rightarrow> ('db, unit) mempool_act" where
  "mempool_cleanup ds rnd =
     bind (modify (\<lambda>s. s\<lparr>m_inner_channel := m_inner_channel s @ [Clean rnd]\<rparr>)) (\<lambda>_.
     modify (\<lambda>s. s\<lparr>opt_queue := fold removeAll ds (opt_queue s),
                    pes_queue := fold removeAll ds (pes_queue s)\<rparr>))"

section \<open>The loop\<close>

definition handle_mempool_message :: "'db mempool_env \<Rightarrow> mempool_message \<Rightarrow> ('db, unit) mempool_act" where
  "handle_mempool_message env msg = (case msg of
     OwnPayload p \<Rightarrow> handle_own_payload env p
   | PayloadMsg p \<Rightarrow> handle_others_payload env p
   | PayloadRequest ds requestor \<Rightarrow> handle_request env ds requestor)"

datatype mempool_reply = Payloads "digest list" | Status payload_status

definition handle_consensus_message ::
    "'db mempool_env \<Rightarrow> consensus_mempool_message \<Rightarrow> ('db, mempool_reply option) mempool_act" where
  "handle_consensus_message env msg = (case msg of
     MGet mx \<Rightarrow> bind (attempt (get_payload env mx)) (\<lambda>r.
       ret (Some (Payloads (case r of Inl e \<Rightarrow> [] | Inr ds \<Rightarrow> ds))))
   | MVerify b \<Rightarrow> bind (attempt (verify_payload env b)) (\<lambda>r.
       ret (Some (Status (case r of Inl e \<Rightarrow> Reject | Inr ok \<Rightarrow> if ok then Accept else Wait))))
   | MCleanup ds rnd \<Rightarrow> bind (mempool_cleanup ds rnd) (\<lambda>_. ret None))"

text \<open>
  The tasks of a mempool as one sequence of events: the payload maker takes a transaction
  of a client, the network delivers a message into the core's channel, the core receives
  from that channel or from the consensus core, and some task writes to the database.
\<close>

datatype mempool_event =
    ClientTransaction transaction
  | FromNetwork mempool_message
  | CoreReceive
  | FromConsensus consensus_mempool_message
  | StoreWrite bytes bytes

definition maker_step :: "'db mempool_env \<Rightarrow> transaction \<Rightarrow> ('db, unit) mempool_act" where
  "maker_step env tx = bind (on_maker (runner_step (m_prims env) (ClientTx tx))) (\<lambda>_.
     modify (\<lambda>s. s\<lparr>core_channel := core_channel s @ runner_out (payload_maker s),
                    payload_maker := (payload_maker s)\<lparr>runner_out := []\<rparr>\<rparr>))"

fun mempool_step :: "'db mempool_env \<Rightarrow> mempool_event \<Rightarrow> ('db, mempool_reply option) mempool_act" where
  "mempool_step env (ClientTransaction tx) = bind (maker_step env tx) (\<lambda>_. ret None)"
| "mempool_step env (FromNetwork msg) =
     bind (modify (\<lambda>s. s\<lparr>core_channel := core_channel s @ [msg]\<rparr>)) (\<lambda>_. ret None)"
| "mempool_step env CoreReceive = bind (gets core_channel) (\<lambda>ch. case ch of
     [] \<Rightarrow> ret None
   | msg # rest \<Rightarrow> bind (modify (\<lambda>s. s\<lparr>core_channel := rest\<rparr>)) (\<lambda>_.
       bind (attempt (handle_mempool_message env msg)) (\<lambda>_. ret None)))"
| "mempool_step env (FromConsensus msg) = handle_consensus_message env msg"
| "mempool_step env (StoreWrite k v) =
     bind (modify (\<lambda>s. s\<lparr>m_store := m_put env k v (m_store s)\<rparr>)) (\<lambda>_. ret None)"

fun mempool_run :: "'db mempool_env \<Rightarrow> mempool_event list \<Rightarrow> ('db, mempool_reply list) mempool_act" where
  "mempool_run env [] = ret []"
| "mempool_run env (e # es) = bind (mempool_step env e) (\<lambda>r. bind (mempool_run env es) (\<lambda>rs.
     ret ((case r of None \<Rightarrow> [] | Some x \<Rightarrow> [x]) @ rs)))"

lemma log_samples_eq:
  "log_samples txs s = (if [] \<in> set txs then Panic SliceRange else Ok (List.map_filter sample_id txs), s)"
  by (induction txs) (auto simp: act_defs map_filter_def split: option.split)

end
