(* ===== verification/Mempool_Frame.thy ===== *)
theory Mempool_Frame
  imports Mempool_Core
begin

text \<open>
  What the steps of the mempool core keep, stated once as two locales: an invariant that the
  payload maker, the network, the incoming channel and writes to the store cannot break, and
  one that in addition survives the operations on the queues and the inner channel.
\<close>

lemma pres_attempt [pres_rules]: "pres I m \<Longrightarrow> pres I (attempt m)"
  by (auto simp: pres_def attempt_def split: prod.split)

text \<open>
  The contract of an invariant of the core that does not depend on the payload maker, the
  network and the incoming channel and survives writes to the store.
\<close>

locale mempool_frame =
  fixes env :: "'db mempool_env" and I :: "'db mempool \<Rightarrow> bool"
  assumes maker: "I s \<Longrightarrow> I (s\<lparr>payload_maker := pm\<rparr>)"
    and network: "I s \<Longrightarrow> I (s\<lparr>m_network := m_network s @ out\<rparr>)"
    and channel: "I s \<Longrightarrow> I (s\<lparr>core_channel := ch\<rparr>)"
    and put: "I s \<Longrightarrow> I (s\<lparr>m_store := m_put env k v (m_store s)\<rparr>)"
begin

lemma on_maker: "pres I (on_maker m)"
  by (auto simp: pres_def on_maker_def maker split: prod.split)

lemma store_payload: "pres I (store_payload env k p)"
  unfolding store_payload_def by (rule pres_modify) (rule put)

lemma transmit: "pres I (mempool_transmit msg to)"
  unfolding mempool_transmit_def by (intro pres_rules pres_modify network)

lemma log_samples: "pres I (log_samples txs)"
  by (induction txs) (auto intro!: pres_rules)

lemma handle_request: "pres I (handle_request env ds k)"
  by (induction ds) (auto intro!: pres_rules transmit)

lemma process_own_payload: "pres I (process_own_payload env d p)"
  unfolding process_own_payload_def by (intro pres_rules log_samples store_payload transmit)

lemma maker_step: "pres I (maker_step env tx)"
  unfolding maker_step_def
  by (intro pres_rules pres_modify on_maker) (use channel maker in fastforce)

end

locale mempool_invariant = mempool_frame +
  assumes own: "pres I (handle_own_payload env p)"
    and others: "pres I (handle_others_payload env p)"
    and verify: "pres I (verify_payload env b)"
    and clean: "I s \<Longrightarrow> I (s\<lparr>m_inner_channel := m_inner_channel s @ [Clean rnd]\<rparr>)"
    and drawn: "I s \<Longrightarrow> I (s\<lparr>opt_queue := fold removeAll A (opt_queue s), pes_queue := fold removeAll B (pes_queue s)\<rparr>)"
begin

lemma get: "pres I (get_payload env mx)"
  unfolding get_payload_def Let_def
  by (intro pres_rules pres_modify on_maker process_own_payload drawn)

lemma cleanup: "pres I (mempool_cleanup ds rnd)"
  unfolding mempool_cleanup_def by (intro pres_rules pres_modify clean drawn)

lemma step: "pres I (mempool_step env e)"
proof (cases e)
  case (ClientTransaction tx)
  then show ?thesis
    by (auto intro!: pres_rules maker_step)
next
  case CoreReceive
  have "pres I (handle_mempool_message env msg)" for msg
    by (cases msg) (simp_all add: handle_mempool_message_def own others handle_request)
  then show ?thesis
    unfolding CoreReceive mempool_step.simps
    by (auto intro!: pres_rules pres_modify channel split: list.split)
next
  case (FromConsensus msg)
  then show ?thesis
    by (cases msg) (auto simp: handle_consensus_message_def intro!: pres_rules get verify cleanup)
qed (auto intro!: pres_rules pres_modify channel put)

lemma run: "pres I (mempool_run env es)"
  by (induction es) (auto intro!: pres_rules step)

end

end
