(* ===== verification/Mempool_Queues.thy ===== *)
theory Mempool_Queues
  imports Mempool_Frame Example_Setup
begin

text \<open>
  The queues of the mempool: what every operation keeps of them, what the core hands out to
  be proposed and in which order, when it accepts a payload or a block, and three ways in
  which payloads that other nodes cannot use get in.
\<close>

section \<open>Sets as lists\<close>

text \<open>What the queues rely on: the set interface of \<open>HashSet\<close>, over its iteration.\<close>

locale hash_set =
  fixes ins :: "'a \<Rightarrow> 's \<Rightarrow> 's" and rem :: "'a \<Rightarrow> 's \<Rightarrow> 's" and iter :: "'s \<Rightarrow> 'a list"
    and invar :: "'s \<Rightarrow> bool"
  assumes distinct_iter: "invar q \<Longrightarrow> distinct (iter q)"
    and set_ins: "invar q \<Longrightarrow> set (iter (ins x q)) = insert x (set (iter q))"
    and set_rem: "invar q \<Longrightarrow> set (iter (rem x q)) = set (iter q) - {x}"
    and invar_ins: "invar q \<Longrightarrow> invar (ins x q)"
    and invar_rem: "invar q \<Longrightarrow> invar (rem x q)"
begin

lemma fold_rem:
  "invar q \<Longrightarrow> invar (fold rem xs q) \<and> set (iter (fold rem xs q)) = set (iter q) - set xs"
  by (induction xs arbitrary: q) (auto simp: invar_rem set_rem)

text \<open>Taking the first \<open>n\<close> elements of the iteration out of the set.\<close>

lemma draw:
  assumes "invar q" and "xs = take n (iter q)"
  shows "distinct xs" and "length xs = min n (length (iter q))"
    and "set (iter (fold rem xs q)) = set (iter q) - set xs"
    and "set xs \<union> set (iter (fold rem xs q)) = set (iter q)"
    and "length (iter (fold rem xs q)) = length (iter q) - length xs"
proof -
  show d: "distinct xs" and "length xs = min n (length (iter q))"
    using assms distinct_iter by auto
  have sub: "set xs \<subseteq> set (iter q)"
    using assms(2) by (simp add: set_take_subset)
  note f = fold_rem [OF assms(1), of xs]
  then show "set (iter (fold rem xs q)) = set (iter q) - set xs" by blast
  with sub show "set xs \<union> set (iter (fold rem xs q)) = set (iter q)" by blast
  have "length (iter (fold rem xs q)) = card (set (iter q) - set xs)"
    using f distinct_iter by (metis distinct_card)
  also have "\<dots> = length (iter q) - length xs"
    using sub d distinct_iter [OF assms(1)] by (simp add: card_Diff_subset distinct_card)
  finally show "length (iter (fold rem xs q)) = length (iter q) - length xs" .
qed

end

lemma hs_iter_simps [simp]:
  "set (hs_iter sl q) = set q" "length (hs_iter sl q) = length q" "distinct (hs_iter sl q) \<longleftrightarrow> distinct q"
  by (simp_all add: hs_iter_def)

lemma hs_insert_simps [simp]:
  "set (hs_insert x q) = insert x (set q)" "distinct (hs_insert x q) \<longleftrightarrow> distinct q"
  by (auto simp: hs_insert_def)

lemma hs_insert_notempty [simp]: "hs_insert x q \<noteq> []"
  by (auto simp: hs_insert_def)

interpretation hs: hash_set hs_insert removeAll "hs_iter sl" distinct for sl
  by unfold_locales (auto simp: distinct_removeAll)

lemma fold_removeAll_simps [simp]:
  "set (fold removeAll xs q) = set q - set xs"
  "distinct q \<Longrightarrow> distinct (fold removeAll xs q)"
  by (induction xs arbitrary: q) (auto simp: distinct_removeAll)

lemma length_fold_removeAll: "length (fold removeAll xs q) \<le> length q"
proof (induction xs arbitrary: q)
  case (Cons x xs)
  have "length (removeAll x q) \<le> length q" by (rule length_removeAll_less_eq)
  with Cons [of "removeAll x q"] show ?case by (simp add: order_trans)
qed simp

lemma length_hs_insert: "length (hs_insert x q) \<le> Suc (length q)"
  by (simp add: hs_insert_def)

section \<open>The queues\<close>

text \<open>
  The queues hold no digest twice, the queue of own payloads stays within its capacity, and
  a queued digest is a key of the database.
\<close>

definition in_store :: "'db mempool_env \<Rightarrow> 'db \<Rightarrow> digest \<Rightarrow> bool" where
  "in_store env st d \<longleftrightarrow> (\<exists>v. m_get env (digest_to_vec d) st = Inr (Some v))"

definition mempool_ok :: "'db mempool_env \<Rightarrow> 'db mempool \<Rightarrow> bool" where
  "mempool_ok env s \<longleftrightarrow> distinct (opt_queue s) \<and> distinct (pes_queue s)
     \<and> length (opt_queue s) \<le> queue_capacity (m_parameters s)
     \<and> (\<forall>d \<in> set (opt_queue s) \<union> set (pes_queue s). in_store env (m_store s) d)"

text \<open>What the mempool relies on of the database: a written key is found, others are untouched.\<close>

definition store_laws :: "'db mempool_env \<Rightarrow> bool" where
  "store_laws env \<longleftrightarrow> (\<forall>k v st. m_get env k (m_put env k v st) = Inr (Some v))
     \<and> (\<forall>k k' v st. k' \<noteq> k \<longrightarrow> m_get env k' (m_put env k v st) = m_get env k' st)"

lemma in_store_put: "store_laws env \<Longrightarrow> in_store env st d \<Longrightarrow> in_store env (m_put env k v st) d"
  by (cases "digest_to_vec d = k") (auto simp: in_store_def store_laws_def)

lemma in_store_put_self: "store_laws env \<Longrightarrow> in_store env (m_put env (digest_to_vec d) v st) d"
  by (auto simp: in_store_def store_laws_def)

text \<open>The invariant, with the law of the store it needs.\<close>

definition queues_ok :: "'db mempool_env \<Rightarrow> 'db mempool \<Rightarrow> bool" where
  "queues_ok env s \<longleftrightarrow> store_laws env \<and> mempool_ok env s"

interpretation queues_frame: mempool_frame env "queues_ok env" for env :: "'db mempool_env"
  by unfold_locales (auto simp: queues_ok_def mempool_ok_def in_store_put)

text \<open>After \<open>process_own_payload\<close> succeeds, the payload is stored and the queues are as before.\<close>

definition own_processed :: "'db mempool_env \<Rightarrow> digest \<Rightarrow> payload \<Rightarrow> 'db mempool \<Rightarrow> 'db mempool" where
  "own_processed env d p s = s\<lparr>m_store := m_put env (digest_to_vec d) (serialize_payload env p) (m_store s),
     m_network := m_network s @ [(PayloadMsg p, mempool_broadcast_addresses (m_committee s) (m_name s))]\<rparr>"

lemma process_own_payload_eq:
  "process_own_payload env d p s =
     (if \<not> (0 < spare env OptQueue (opt_queue s) \<and> 0 < spare env PesQueue (pes_queue s)) then (Err MempoolFull, s)
      else if benchmark env \<and> [] \<in> set (p_transactions p) then (Panic SliceRange, s)
      else (Ok (), own_processed env d p s))"
  by (simp add: process_own_payload_def hs_capacity_def log_samples_eq store_payload_def
      mempool_transmit_def mempool_transmit_addresses_def own_processed_def ensure_def act_defs)

lemma handle_own_payload_eq:
  "handle_own_payload env p s =
     (let d = payload_digest (m_prims env) p in
      if \<not> length (opt_queue s) < queue_capacity (m_parameters s) then (Err MempoolFull, s)
      else case process_own_payload env d p s of
        (Ok x, s1) \<Rightarrow> (Ok (), s1\<lparr>opt_queue := hs_insert d (opt_queue s1)\<rparr>)
      | (r, s1) \<Rightarrow> (r, s1))"
  by (auto simp: handle_own_payload_def ensure_def act_defs Let_def split: prod.split outcome.split)

lemma handle_others_payload_eq:
  "handle_others_payload env p s =
     (let d = payload_digest (m_prims env) p in
      if \<not> committee_exists (m_committee s) (p_author p) then (Err (MUnknownAuthority (p_author p)), s)
      else if mp_max_payload_size (m_parameters s) < payload_size p then (Err PayloadTooBig, s)
      else case signature_verify (m_prims env) (p_signature p) d (p_author p) of
        Inl e \<Rightarrow> (Err (MInvalidSignature e), s)
      | Inr _ \<Rightarrow> (Ok (), s\<lparr>m_store := m_put env (digest_to_vec d) (serialize_payload env p) (m_store s),
                         pes_queue := hs_insert d (pes_queue s)\<rparr>))"
  by (auto simp: handle_others_payload_def store_payload_def ensure_def act_defs Let_def split: sum.split)

interpretation queues: mempool_invariant env "queues_ok env" for env :: "'db mempool_env"
proof
  show "pres (queues_ok env) (handle_own_payload env p)" for p
    by (auto simp: pres_def handle_own_payload_eq process_own_payload_eq own_processed_def Let_def queues_ok_def
        mempool_ok_def in_store_put in_store_put_self intro: order_trans [OF length_hs_insert])
  show "pres (queues_ok env) (handle_others_payload env p)" for p
    by (auto simp: pres_def handle_others_payload_eq Let_def queues_ok_def mempool_ok_def in_store_put
        in_store_put_self split: sum.split)
  show "pres (queues_ok env) (verify_payload env b)" for b
    unfolding verify_payload_def by (intro pres_rules pres_modify) (simp add: queues_ok_def mempool_ok_def)
  show "queues_ok env (s\<lparr>m_inner_channel := m_inner_channel s @ [Clean rnd]\<rparr>)" if "queues_ok env s" for s rnd
    using that by (simp add: queues_ok_def mempool_ok_def)
  show "queues_ok env (s\<lparr>opt_queue := fold removeAll A (opt_queue s), pes_queue := fold removeAll B (pes_queue s)\<rparr>)"
    if "queues_ok env s" for s A B
    using that by (auto simp: queues_ok_def mempool_ok_def intro: order_trans [OF length_fold_removeAll])
qed

text \<open>
  C18. In every state the mempool can reach, whatever clients, other nodes and the consensus
  send it, both queues are free of repetitions, the queue of own payloads holds at most
  queue_capacity digests, and every queued digest is a key of the database.
\<close>

theorem mempool_queues_ok:
  assumes "store_laws env"
  shows "mempool_ok env (snd (mempool_run env es (mempool_new nm c params st svc)))"
  using presD [OF queues.run, of env "mempool_new nm c params st svc" es] assms
  by (simp add: queues_ok_def mempool_ok_def mempool_new_def)

section \<open>Handing out digests\<close>

lemma digest_size_32 [simp]: "digest_size d = 32"
  by (simp add: digest_size_def)

lemma get_payload_queued:
  assumes "opt_queue s \<noteq> [] \<or> pes_queue s \<noteq> []"
  shows "get_payload env mx s =
    (let A = take (mx div 32) (hs_iter (slot env OptQueue) (opt_queue s));
         B = take (mx div 32 - length A) (hs_iter (slot env PesQueue) (pes_queue s))
     in (Ok (A @ B), s\<lparr>opt_queue := fold removeAll A (opt_queue s),
                        pes_queue := fold removeAll B (pes_queue s)\<rparr>))"
  using assms by (cases "opt_queue s = []") (simp_all add: get_payload_def act_defs Let_def hs_iter_def)

lemma get_payload_empty:
  assumes "opt_queue s = []" "pes_queue s = []"
  shows "get_payload env mx s = (case payload_maker_make (m_prims env) (payload_maker s) of
     (Ok made, pm) \<Rightarrow> (case made of
         None \<Rightarrow> (Ok [], s\<lparr>payload_maker := pm\<rparr>)
       | Some p \<Rightarrow> let d = payload_digest (m_prims env) p in
           (case process_own_payload env d p (s\<lparr>payload_maker := pm\<rparr>) of
              (Ok x, s1) \<Rightarrow> (Ok [d], s1) | (Err e, s1) \<Rightarrow> (Err e, s1)
            | (Panic q, s1) \<Rightarrow> (Panic q, s1) | (Diverge, s1) \<Rightarrow> (Diverge, s1)))
   | (Err e, pm) \<Rightarrow> (Err e, s\<lparr>payload_maker := pm\<rparr>)
   | (Panic q, pm) \<Rightarrow> (Panic q, s\<lparr>payload_maker := pm\<rparr>)
   | (Diverge, pm) \<Rightarrow> (Diverge, s\<lparr>payload_maker := pm\<rparr>))"
  using assms
  by (auto simp: get_payload_def on_maker_def act_defs Let_def split: prod.split outcome.split option.split)

text \<open>
  C17. On sets of digests, Core::get_payload with a queue that is not empty returns as many
  digests as fit into max bytes or as there are, removes from each queue exactly what it
  returns of it, gives no payload of another node before all own payloads are out, and returns
  only digests whose payload is stored.
\<close>

theorem get_payload_drains:
  assumes "mempool_ok env s" and "opt_queue s \<noteq> [] \<or> pes_queue s \<noteq> []"
    and "get_payload env mx s = (r, s')"
  shows "\<exists>own others. r = Ok (own @ others)
     \<and> length (own @ others) = min (mx div 32) (length (opt_queue s) + length (pes_queue s))
     \<and> distinct own \<and> distinct others
     \<and> set own \<subseteq> set (opt_queue s) \<and> set others \<subseteq> set (pes_queue s)
     \<and> set (opt_queue s') = set (opt_queue s) - set own
     \<and> set (pes_queue s') = set (pes_queue s) - set others
     \<and> (others \<noteq> [] \<longrightarrow> set own = set (opt_queue s))
     \<and> (\<forall>d \<in> set (own @ others). in_store env (m_store s') d)"
proof -
  define n where "n = mx div 32"
  define A where "A = take n (hs_iter (slot env OptQueue) (opt_queue s))"
  define B where "B = take (n - length A) (hs_iter (slot env PesQueue) (pes_queue s))"
  have ok: "distinct (opt_queue s)" "distinct (pes_queue s)"
    "\<forall>d \<in> set (opt_queue s) \<union> set (pes_queue s). in_store env (m_store s) d"
    using assms(1) by (auto simp: mempool_ok_def)
  note A = hs.draw [OF ok(1) A_def]
  note B = hs.draw [OF ok(2) B_def]
  have r: "r = Ok (A @ B)" "s' = s\<lparr>opt_queue := fold removeAll A (opt_queue s),
      pes_queue := fold removeAll B (pes_queue s)\<rparr>"
    using assms(3) get_payload_queued [OF assms(2), of env mx]
    unfolding A_def B_def n_def by (simp_all add: Let_def)
  have sub: "set A \<subseteq> set (opt_queue s)" "set B \<subseteq> set (pes_queue s)"
    using A(4) B(4) by auto
  have all: "B \<noteq> [] \<longrightarrow> set A = set (opt_queue s)"
  proof
    assume "B \<noteq> []"
    then have "length (opt_queue s) \<le> n"
      using A(2) unfolding B_def by (auto simp: min_def split: if_splits)
    then show "set A = set (opt_queue s)" by (simp add: A_def)
  qed
  have len: "length (A @ B) = min n (length (opt_queue s) + length (pes_queue s))"
    using A(2) B(2) by simp
  have stored: "\<forall>d \<in> set (A @ B). in_store env (m_store s') d"
    using sub ok(3) unfolding r(2) by auto
  show ?thesis
    using A(1) B(1) sub all len stored r unfolding n_def
    by (intro exI [of _ A] exI [of _ B]) simp
qed

section \<open>Verifying a block\<close>

lemma missing_payloads_Inr:
  assumes "\<forall>d \<in> set ds. \<exists>v. m_get env (digest_to_vec d) st = Inr v"
  shows "missing_payloads env st ds acc = Inr (fold hs_insert (filter (\<lambda>d. \<not> in_store env st d) ds) acc)"
  using assms
proof (induction ds arbitrary: acc)
  case (Cons d ds)
  then obtain v where "m_get env (digest_to_vec d) st = Inr v" by auto
  with Cons show ?case
    by (cases v) (simp_all add: in_store_def)
qed simp

lemma fold_hs_insert_simps [simp]:
  "set (fold hs_insert xs q) = set q \<union> set xs"
  "distinct (fold hs_insert xs q) \<longleftrightarrow> distinct q"
  by (induction xs arbitrary: q) auto

text \<open>
  If the store does not fail, the mempool answers Accept to a block exactly if every
  payload the block names is stored, and then changes nothing; otherwise it answers Wait and
  sends the synchronizer the block with exactly the digests that are missing, each once.
\<close>

theorem verify_payload_exact:
  assumes "\<forall>d \<in> set (b_payload b). \<exists>v. m_get env (digest_to_vec d) (m_store s) = Inr v"
  shows "if \<forall>d \<in> set (b_payload b). in_store env (m_store s) d
     then handle_consensus_message env (MVerify b) s = (Ok (Some (Status Accept)), s)
     else \<exists>missing. distinct missing
       \<and> set missing = {d \<in> set (b_payload b). \<not> in_store env (m_store s) d}
       \<and> handle_consensus_message env (MVerify b) s =
           (Ok (Some (Status Wait)), s\<lparr>m_inner_channel := m_inner_channel s @ [Sync missing b]\<rparr>)"
proof -
  let ?ds = "filter (\<lambda>d. \<not> in_store env (m_store s) d) (b_payload b)"
  let ?m = "fold hs_insert ?ds []"
  have v: "verify_payload env b s = (if ?m = [] then (Ok True, s)
      else (Ok False, s\<lparr>m_inner_channel := m_inner_channel s @ [Sync (hs_iter (slot env Missing) ?m) b]\<rparr>))"
    using missing_payloads_Inr [OF assms, of "[]"] by (simp add: verify_payload_def act_defs)
  have "set ?m = set ?ds" by simp
  then have e: "?m = [] \<longleftrightarrow> (\<forall>d \<in> set (b_payload b). in_store env (m_store s) d)"
    by (metis (no_types, lifting) empty_filter_conv set_empty)
  show ?thesis
  proof (cases "?m = []")
    case True
    with v e show ?thesis
      by (simp add: handle_consensus_message_def attempt_def act_defs)
  next
    case False
    with v e show ?thesis
      by (auto simp: handle_consensus_message_def attempt_def act_defs
          intro!: exI [of _ "hs_iter (slot env Missing) ?m"])
  qed
qed

section \<open>Payloads of other nodes\<close>

text \<open>
  A payload of another node is stored under its digest and queued exactly if its author
  is in the committee, its size is within the limit and its signature verifies; otherwise the
  handler returns an error and leaves the state as it was.
\<close>

theorem others_payload_exact:
  "(if committee_exists (m_committee s) (p_author p)
       \<and> payload_size p \<le> mp_max_payload_size (m_parameters s)
       \<and> signature_verify (m_prims env) (p_signature p) (payload_digest (m_prims env) p) (p_author p) = Inr ()
    then \<exists>s'. handle_others_payload env p s = (Ok (), s')
       \<and> payload_digest (m_prims env) p \<in> set (pes_queue s')
       \<and> m_store s' = m_put env (digest_to_vec (payload_digest (m_prims env) p)) (serialize_payload env p) (m_store s)
    else \<exists>e. handle_others_payload env p s = (Err e, s))"
proof (cases "signature_verify (m_prims env) (p_signature p) (payload_digest (m_prims env) p) (p_author p)")
  case (Inl e)
  then show ?thesis by (simp add: handle_others_payload_eq Let_def)
next
  case (Inr u)
  then show ?thesis by (simp add: handle_others_payload_eq Let_def)
qed

lemma payload_digest_resplit:
  "p_author q = p_author p \<Longrightarrow> concat (p_transactions q) = concat (p_transactions p) \<Longrightarrow>
   payload_digest cr q = payload_digest cr p \<and> payload_size q = payload_size p"
  by (simp add: payload_digest_def payload_preimage_def payload_size_concat)

text \<open>
  After a payload was accepted, the same bytes cut into other transactions are accepted
  under the same signature and digest, and replace the stored payload.
\<close>

theorem resplit_payload_replaces:
  assumes "store_laws env" and "handle_others_payload env p s = (Ok (), s1)"
    and "p_author q = p_author p" and "p_signature q = p_signature p"
    and "concat (p_transactions q) = concat (p_transactions p)"
  shows "\<exists>s2. handle_others_payload env q s1 = (Ok (), s2)
     \<and> m_get env (digest_to_vec (payload_digest (m_prims env) p)) (m_store s1) = Inr (Some (serialize_payload env p))
     \<and> m_get env (digest_to_vec (payload_digest (m_prims env) p)) (m_store s2) = Inr (Some (serialize_payload env q))"
proof -
  let ?d = "payload_digest (m_prims env) p"
  have acc: "committee_exists (m_committee s) (p_author p)"
    "\<not> mp_max_payload_size (m_parameters s) < payload_size p"
    "signature_verify (m_prims env) (p_signature p) ?d (p_author p) = Inr ()"
    "s1 = s\<lparr>m_store := m_put env (digest_to_vec ?d) (serialize_payload env p) (m_store s),
            pes_queue := hs_insert ?d (pes_queue s)\<rparr>"
    using assms(2) by (auto simp: handle_others_payload_eq Let_def split: if_splits sum.splits)
  note q = payload_digest_resplit [OF assms(3,5)]
  have "handle_others_payload env q s1 = (Ok (), s1\<lparr>m_store := m_put env (digest_to_vec ?d) (serialize_payload env q) (m_store s1),
      pes_queue := hs_insert ?d (pes_queue s1)\<rparr>)"
    using acc q assms(3,4) by (simp add: handle_others_payload_eq Let_def)
  then show ?thesis
    using acc(4) assms(1) by (simp add: store_laws_def)
qed

lemma count_list_distinct: "distinct xs \<Longrightarrow> count_list xs x = (if x \<in> set xs then 1 else 0)"
  by (induction xs) auto

text \<open>
  A node that receives its own queued payload back from another node puts its digest into
  both queues, and get_payload then returns that digest twice in one list.
\<close>

theorem echoed_payload_proposed_twice:
  assumes "mempool_ok env s" and "store_laws env"
    and "handle_own_payload env p s = (Ok (), s1)" and "handle_others_payload env p s1 = (Ok (), s2)"
    and "length (opt_queue s2) + length (pes_queue s2) \<le> mx div 32"
  shows "\<exists>ds. fst (get_payload env mx s2) = Ok ds \<and> count_list ds (payload_digest (m_prims env) p) = 2"
proof -
  let ?d = "payload_digest (m_prims env) p"
  have "mempool_ok env s2"
    using presD [OF queues.own, of env s p] assms(1,2) assms(3,4)
      presD [OF queues.others, of env s1 p] by (simp add: queues_ok_def)
  then have d: "distinct (opt_queue s2)" "distinct (pes_queue s2)"
    by (auto simp: mempool_ok_def)
  have q: "?d \<in> set (opt_queue s2)" "?d \<in> set (pes_queue s2)"
    using assms(3,4)
    by (auto simp: handle_own_payload_eq handle_others_payload_eq Let_def split: if_splits sum.splits prod.splits outcome.splits)
  then have "opt_queue s2 \<noteq> []" by auto
  then have "fst (get_payload env mx s2) =
      Ok (hs_iter (slot env OptQueue) (opt_queue s2) @ hs_iter (slot env PesQueue) (pes_queue s2))"
    using get_payload_queued [of s2 env mx] assms(5) by (simp add: Let_def)
  then show ?thesis
    using d q by (simp add: count_list_distinct)
qed

section \<open>Messages that claim to be the node's own\<close>

text \<open>
  A message OwnPayload that comes from the network is treated as the node's own: whatever
  its author, signature and size, its digest is queued for the node's next blocks, its payload
  is stored and broadcast.
\<close>

theorem forged_own_payload_queued:
  assumes "store_laws env" and "core_channel s = []"
    and "length (opt_queue s) < queue_capacity (m_parameters s)"
    and "0 < spare env OptQueue (opt_queue s)" and "0 < spare env PesQueue (pes_queue s)"
    and "[] \<notin> set (p_transactions p)"
  shows "\<exists>s'. mempool_run env [FromNetwork (OwnPayload p), CoreReceive] s = (Ok [], s')
     \<and> payload_digest (m_prims env) p \<in> set (opt_queue s')
     \<and> in_store env (m_store s') (payload_digest (m_prims env) p)
     \<and> m_network s' = m_network s @ [(PayloadMsg p, mempool_broadcast_addresses (m_committee s) (m_name s))]"
  using assms
  by (simp add: handle_mempool_message_def handle_own_payload_eq process_own_payload_eq own_processed_def
      attempt_def act_defs Let_def in_store_put_self)

section \<open>Transactions above the limit\<close>

text \<open>
  C22. On a mempool whose two queues are empty and have spare capacity, whose key loads and
  whose payload maker counts what it holds: a client transaction longer than the maker's
  limit, directly followed by a request of the consensus for digests, makes the mempool hand
  out the digest of a payload with this transaction alone, which it has stored and which every
  node with no larger limit rejects with an error and without storing it.
\<close>

theorem oversized_transaction_rejected:
  fixes env :: "'db mempool_env"
  assumes "store_laws env" and "key_loads (m_prims env) (runner_service (payload_maker s))"
    and "runner_ok (payload_maker s)" and "max_size (payload_maker s) < length tx"
    and "opt_queue s = []" and "pes_queue s = []"
    and "0 < spare env OptQueue []" and "0 < spare env PesQueue []"
  shows "\<exists>p s'. mempool_run env [ClientTransaction tx, FromConsensus (MGet mx)] s =
       (Ok [Payloads [payload_digest (m_prims env) p]], s')
     \<and> p_transactions p = [tx]
     \<and> in_store env (m_store s') (payload_digest (m_prims env) p)
     \<and> (\<forall>t :: 'db mempool. mp_max_payload_size (m_parameters t) \<le> max_size (payload_maker s) \<longrightarrow>
          (\<exists>e. handle_others_payload env p t = (Err e, t)))"
proof -
  let ?r = "payload_maker s"
  let ?p = "signed_payload (m_prims env) (runner_service ?r) (runner_name ?r) [tx]"
  have big: "max_size ?r < runner_size ?r + length tx" "tx \<noteq> []"
    using assms(4) by auto
  have own: "\<exists>s'. mempool_run env [ClientTransaction tx, FromConsensus (MGet mx)] s =
       (Ok [Payloads [payload_digest (m_prims env) ?p]], s')
     \<and> in_store env (m_store s') (payload_digest (m_prims env) ?p)"
    using assms big
    by (simp add: maker_step_def on_maker_def runner_add_eq handle_consensus_message_def attempt_def
        get_payload_empty payload_maker_make_def runner_make_eq process_own_payload_eq own_processed_def
        act_defs Let_def in_store_put_self)
  moreover have "\<exists>e. handle_others_payload env ?p t = (Err e, t)"
    if "mp_max_payload_size (m_parameters t) \<le> max_size ?r" for t :: "'db mempool"
    using that assms(4) by (auto simp: handle_others_payload_eq Let_def)
  ultimately show ?thesis
    using signed_payload_fields(1) by blast
qed

section \<open>Examples\<close>

definition example_mempool_env :: "(bytes \<rightharpoonup> bytes) mempool_env" where
  "example_mempool_env = \<lparr>m_prims = example_primitives, m_put = default_put, m_get = default_get,
     serialize_payload = concat \<circ> p_transactions, deserialize_payload = (\<lambda>bs. Inl (BincodeError [])),
     slot = (\<lambda>q ds d. 0), spare = (\<lambda>q ds. 1), benchmark = False\<rparr>"

definition example_payload :: "transaction list \<Rightarrow> payload" where
  "example_payload txs = \<lparr>p_transactions = txs, p_author = PublicKey 1, p_signature = default_signature\<rparr>"

definition example_mempool :: "(bytes \<rightharpoonup> bytes) mempool" where
  "example_mempool = mempool_new (PublicKey 1) \<lparr>mc_authorities =
       [(PublicKey 1, \<lparr>ma_name = PublicKey 1, ma_front_address = V4 1 2, ma_mempool_address = V4 1 3\<rparr>)], mc_epoch = 1\<rparr>
     \<lparr>queue_capacity = 2, mp_sync_retry_delay = 0, mp_max_payload_size = 4, mp_min_block_delay = 0\<rparr>
     Map.empty example_service"

lemma example_store_laws [simp]: "store_laws example_mempool_env"
  by (auto simp: store_laws_def example_mempool_env_def default_put_def default_get_def)

lemma example_digest [simp]: "payload_digest (m_prims example_mempool_env) p = Digest 0"
  by (simp add: payload_digest_def finalize32_def example_mempool_env_def example_primitives_def)

lemma example_mempool_simps [simp]:
  "opt_queue example_mempool = []" "pes_queue example_mempool = []" "core_channel example_mempool = []"
  "spare example_mempool_env q ds = 1" "max_size (payload_maker example_mempool) = 4"
  "runner_service (payload_maker example_mempool) = example_service"
  "runner_ok (payload_maker example_mempool)" "queue_capacity (m_parameters example_mempool) = 2"
  "\<not> benchmark example_mempool_env" "m_prims example_mempool_env = example_primitives"
  "mempool_ok example_mempool_env example_mempool"
  "committee_exists (m_committee example_mempool) (PublicKey 1)"
  "mp_max_payload_size (m_parameters example_mempool) = 4"
  by (simp_all add: example_mempool_def mempool_new_def example_mempool_env_def runner_new_def
      runner_ok_def mempool_ok_def committee_exists_def)

lemma example_verifies [simp]: "signature_verify example_primitives s d k = Inr ()"
  by (simp add: signature_verify_def example_primitives_def)

lemma mempool_queues_ok_witness:
  "\<exists>s. mempool_run example_mempool_env [FromNetwork (OwnPayload (example_payload [[7]])), CoreReceive]
       example_mempool = (Ok [], s)
     \<and> opt_queue s = [Digest 0] \<and> mempool_ok example_mempool_env s"
proof -
  let ?es = "[FromNetwork (OwnPayload (example_payload [[7]])), CoreReceive]"
  obtain s where s: "mempool_run example_mempool_env ?es example_mempool = (Ok [], s)" "opt_queue s = [Digest 0]"
    using example_digest [of "example_payload [[7]]"]
    by (simp add: handle_mempool_message_def handle_own_payload_eq process_own_payload_eq own_processed_def
        attempt_def act_defs Let_def hs_insert_def)
  have "mempool_ok example_mempool_env (snd (mempool_run example_mempool_env ?es example_mempool))"
    unfolding example_mempool_def by (rule mempool_queues_ok) simp
  with s show ?thesis by simp
qed

lemma get_payload_drains_witness:
  "\<exists>ds. fst (get_payload example_mempool_env 40
       (example_mempool\<lparr>m_store := default_put (digest_to_vec (Digest 0)) [] Map.empty,
          pes_queue := [Digest 0]\<rparr>)) = Ok ds \<and> length ds = 1 \<and> set ds \<subseteq> {Digest 0}"
proof -
  let ?s = "example_mempool\<lparr>m_store := default_put (digest_to_vec (Digest 0)) [] Map.empty, pes_queue := [Digest 0]\<rparr>"
  have "mempool_ok example_mempool_env ?s"
    by (simp add: mempool_ok_def in_store_def example_mempool_env_def default_put_def default_get_def)
  from get_payload_drains [OF this, of 40 "fst (get_payload example_mempool_env 40 ?s)"
      "snd (get_payload example_mempool_env 40 ?s)"]
  show ?thesis by auto
qed

lemma verify_payload_exact_witness:
  "\<exists>missing. set missing = {Digest 0} \<and>
     handle_consensus_message example_mempool_env (MVerify ((example_block 2 1 [])\<lparr>b_payload := [Digest 0]\<rparr>))
       example_mempool =
     (Ok (Some (Status Wait)), example_mempool\<lparr>m_inner_channel := m_inner_channel example_mempool
        @ [Sync missing ((example_block 2 1 [])\<lparr>b_payload := [Digest 0]\<rparr>)]\<rparr>)"
proof -
  have no: "m_get example_mempool_env k (m_store example_mempool) = Inr None" for k
    by (simp add: example_mempool_env_def default_get_def example_mempool_def mempool_new_def)
  then have "{d \<in> set [Digest 0]. \<not> in_store example_mempool_env (m_store example_mempool) d} = {Digest 0}"
    "\<not> (\<forall>d \<in> set [Digest 0]. in_store example_mempool_env (m_store example_mempool) d)"
    by (auto simp: in_store_def)
  moreover have "\<forall>d \<in> set (b_payload ((example_block 2 1 [])\<lparr>b_payload := [Digest 0]\<rparr>)).
      \<exists>v. m_get example_mempool_env (digest_to_vec d) (m_store example_mempool) = Inr v"
    by (simp add: no)
  note verify_payload_exact [OF this]
  ultimately show ?thesis by auto
qed

lemma example_others_payload:
  "length (concat txs) \<le> 4 \<Longrightarrow> handle_others_payload example_mempool_env (example_payload txs) example_mempool =
     (Ok (), example_mempool\<lparr>m_store := m_put example_mempool_env (digest_to_vec (Digest 0)) (concat txs)
        (m_store example_mempool), pes_queue := [Digest 0]\<rparr>)"
  using example_digest [of "example_payload txs"]
  by (simp add: handle_others_payload_eq Let_def payload_size_concat hs_insert_def)
    (simp add: example_payload_def example_mempool_env_def)

lemma resplit_payload_replaces_witness:
  "\<exists>s1 s2. handle_others_payload example_mempool_env (example_payload [[1, 2], [3]]) example_mempool = (Ok (), s1)
     \<and> handle_others_payload example_mempool_env (example_payload [[1], [2, 3]]) s1 = (Ok (), s2)"
proof -
  obtain s1 where s1: "handle_others_payload example_mempool_env (example_payload [[1, 2], [3]]) example_mempool = (Ok (), s1)"
    using example_others_payload [of "[[1, 2], [3]]"] by simp
  from resplit_payload_replaces [OF example_store_laws s1, of "example_payload [[1], [2, 3]]"] s1
  show ?thesis by (auto simp: example_payload_def)
qed

lemma forged_own_payload_queued_witness:
  "\<exists>s. mempool_run example_mempool_env [FromNetwork (OwnPayload ((example_payload [[1, 2, 3, 4, 5]])\<lparr>p_author := PublicKey 9\<rparr>)),
       CoreReceive] example_mempool = (Ok [], s)
     \<and> payload_digest (m_prims example_mempool_env) ((example_payload [[1, 2, 3, 4, 5]])\<lparr>p_author := PublicKey 9\<rparr>) \<in> set (opt_queue s)"
  using forged_own_payload_queued [of example_mempool_env example_mempool
      "(example_payload [[1, 2, 3, 4, 5]])\<lparr>p_author := PublicKey 9\<rparr>"]
  by (fastforce simp: example_payload_def)

lemma echoed_payload_witness:
  "\<exists>s1 s2. handle_own_payload example_mempool_env (example_payload [[1]]) example_mempool = (Ok (), s1)
     \<and> handle_others_payload example_mempool_env (example_payload [[1]]) s1 = (Ok (), s2)
     \<and> (\<exists>ds. fst (get_payload example_mempool_env 64 s2) = Ok ds \<and> count_list ds (Digest 0) = 2)"
proof -
  let ?p = "example_payload [[1]]"
  obtain s1 where s1: "handle_own_payload example_mempool_env ?p example_mempool = (Ok (), s1)"
    "opt_queue s1 = [Digest 0]" "pes_queue s1 = []" "m_committee s1 = m_committee example_mempool"
    "m_parameters s1 = m_parameters example_mempool"
    using example_digest [of ?p]
    by (simp add: handle_own_payload_eq process_own_payload_eq own_processed_def Let_def hs_insert_def)
  have p: "p_author ?p = PublicKey 1" "payload_size ?p = 1"
    by (simp_all add: example_payload_def payload_size_def)
  obtain s2 where s2: "handle_others_payload example_mempool_env ?p s1 = (Ok (), s2)"
    "opt_queue s2 = [Digest 0]" "pes_queue s2 = [Digest 0]"
    using example_digest [of ?p] s1 p
    by (simp add: handle_others_payload_eq Let_def hs_insert_def)
  have "\<exists>ds. fst (get_payload example_mempool_env 64 s2) = Ok ds
      \<and> count_list ds (payload_digest (m_prims example_mempool_env) ?p) = 2"
    using s2 by (intro echoed_payload_proposed_twice [OF _ example_store_laws s1(1) s2(1)]) simp_all
  with s1(1) s2(1) show ?thesis using example_digest [of ?p] by auto
qed

lemma oversized_transaction_witness:
  "\<exists>p s. mempool_run example_mempool_env [ClientTransaction [1, 2, 3, 4, 5], FromConsensus (MGet 500)] example_mempool =
       (Ok [Payloads [payload_digest (m_prims example_mempool_env) p]], s)
     \<and> (\<exists>e. handle_others_payload example_mempool_env p example_mempool = (Err e, example_mempool))"
  using oversized_transaction_rejected [of example_mempool_env example_mempool "[1, 2, 3, 4, 5]" 500]
  by (fastforce simp del: example_digest)

end
