(* ===== verification/Mempool_Node.thy ===== *)
theory Mempool_Node
  imports Mempool_Queues Mempool_Waiting
begin

text \<open>
  The mempool of a node as a whole: the core task, the synchronizer task and the channel
  between them, over one store. A block that was put on hold comes back to the consensus only
  with all its payloads in the store, and can come back as soon as they are; and the digests
  the core hands out for proposals are those of payloads it has broadcast or has accepted
  from other nodes.
\<close>

section \<open>What is stored stays, and what is asked for covers a block\<close>

definition covers :: "'db mempool_env \<Rightarrow> 'db \<Rightarrow> digest list \<Rightarrow> block \<Rightarrow> bool" where
  "covers env st missing b \<longleftrightarrow> (\<forall>d \<in> set (b_payload b). d \<in> set missing \<or> in_store env st d)"

text \<open>
  The digests \<open>K\<close> are in the store, and every request to wait covers its block.
\<close>

definition asks_ok :: "'db mempool_env \<Rightarrow> digest set \<Rightarrow> 'db mempool \<Rightarrow> bool" where
  "asks_ok env K s \<longleftrightarrow> store_laws env \<and> (\<forall>d \<in> K. in_store env (m_store s) d)
     \<and> (\<forall>missing b. Sync missing b \<in> set (m_inner_channel s) \<longrightarrow> covers env (m_store s) missing b)"

lemma covers_put: "store_laws env \<Longrightarrow> covers env st missing b \<Longrightarrow> covers env (m_put env k v st) missing b"
  unfolding covers_def using in_store_put [of env st _ k v] by blast

interpretation asks_frame: mempool_frame env "asks_ok env K" for env :: "'db mempool_env" and K
  by unfold_locales (auto simp: asks_ok_def intro: covers_put in_store_put)

lemma missing_payloads_set:
  "missing_payloads env st ds acc = Inr missing \<Longrightarrow>
     set missing = set acc \<union> {d \<in> set ds. \<not> in_store env st d}"
proof (induction ds arbitrary: acc)
  case (Cons d ds)
  then obtain v where v: "m_get env (digest_to_vec d) st = Inr v"
    and rest: "missing_payloads env st ds (if v = None then hs_insert d acc else acc) = Inr missing"
    by (auto simp: rbind_eq_Inr)
  from Cons.IH [OF rest] v show ?case
    by (cases v) (auto simp: in_store_def)
qed simp

interpretation asks: mempool_invariant env "asks_ok env K" for env :: "'db mempool_env" and K
proof
  show "pres (asks_ok env K) (handle_own_payload env p)" for p
    by (auto simp: pres_def handle_own_payload_eq process_own_payload_eq own_processed_def Let_def asks_ok_def
        intro: covers_put in_store_put)
  show "pres (asks_ok env K) (handle_others_payload env p)" for p
    by (auto simp: pres_def handle_others_payload_eq Let_def asks_ok_def intro: covers_put in_store_put split: sum.split)
  show "asks_ok env K (s\<lparr>m_inner_channel := m_inner_channel s @ [Clean rnd]\<rparr>)" if "asks_ok env K s" for s rnd
    using that by (simp add: asks_ok_def)
  show "asks_ok env K (s\<lparr>opt_queue := fold removeAll A (opt_queue s), pes_queue := fold removeAll B (pes_queue s)\<rparr>)"
    if "asks_ok env K s" for s A B
    using that by (simp add: asks_ok_def)
  show "pres (asks_ok env K) (verify_payload env b)" for b
    unfolding pres_def
  proof (intro allI impI)
    fix s
    assume s: "asks_ok env K s"
    show "asks_ok env K (snd (verify_payload env b s))"
    proof (cases "missing_payloads env (m_store s) (b_payload b) []")
      case (Inr missing)
      then have "covers env (m_store s) (hs_iter (slot env Missing) missing) b"
        using missing_payloads_set [OF Inr] by (simp add: covers_def)
      with Inr s show ?thesis
        by (auto simp: verify_payload_def act_defs asks_ok_def)
    qed (use s in \<open>simp add: verify_payload_def act_defs\<close>)
  qed
qed

text \<open>What one step of the core keeps: what was stored, and the requests.\<close>

lemma step_stored:
  assumes "asks_ok env {} s" and "in_store env (m_store s) d"
  shows "in_store env (m_store (snd (mempool_step env e s))) d"
  using presD [OF asks.step, of env "{d}" s e] assms by (simp add: asks_ok_def)

section \<open>The two tasks\<close>

text \<open>
  The state: the core, the synchronizer, and how many messages of the inner channel the
  synchronizer has received. A step is a step of the core or a round of the synchronizer. An
  answer of the store to a \<open>notify_read\<close> needs the key in the store; a waiter fails only if
  the store fails on a key it waits for. A panic ends the run.
\<close>

record 'db mempool_node =
  mn_core :: "'db mempool"
  mn_sync :: mempool_sync
  mn_taken :: nat

inductive sync_can :: "'db mempool_env \<Rightarrow> 'db mempool_node \<Rightarrow> sync_event \<Rightarrow> bool" for env s where
  can_stored: "in_store env (m_store (mn_core s)) d \<Longrightarrow> sync_can env s (Stored d)"
| can_complete: "sync_can env s (Completed i)"
| can_cancel: "sync_can env s (Cancelled i)"
| can_fail: "w \<in> set (s_waiting (mn_sync s)) \<Longrightarrow> w_id w = i \<Longrightarrow> d \<in> set (w_missing w) \<Longrightarrow>
    m_get env (digest_to_vec d) (m_store (mn_core s)) = Inl e \<Longrightarrow> sync_can env s (Failed i)"
| can_retry: "sync_can env s (Timer now)"

inductive mnode_step :: "'db mempool_env \<Rightarrow> 'db mempool_node \<Rightarrow> 'db mempool_node \<Rightarrow> bool" for env where
  core: "mempool_step env e (mn_core s) = (Ok r, c) \<Longrightarrow> mnode_step env s (s\<lparr>mn_core := c\<rparr>)"
| receive: "mn_taken s < length (m_inner_channel (mn_core s)) \<Longrightarrow>
    sync_step (m_prims env) (Inner (m_inner_channel (mn_core s) ! mn_taken s) now) (mn_sync s) = (Ok (), t) \<Longrightarrow>
    mnode_step env s (s\<lparr>mn_sync := t, mn_taken := mn_taken s + 1\<rparr>)"
| sync: "sync_can env s e \<Longrightarrow> sync_step (m_prims env) e (mn_sync s) = (Ok (), t) \<Longrightarrow>
    mnode_step env s (s\<lparr>mn_sync := t\<rparr>)"

inductive_simps sync_can_simps [simp]:
  "sync_can env s (Stored d)" "sync_can env s (Completed i)" "sync_can env s (Cancelled i)" "sync_can env s (Timer now)"
  "sync_can env s (Inner msg now)"

definition mnode_new :: "public_key \<Rightarrow> mempool_committee \<Rightarrow> mempool_parameters \<Rightarrow> 'db \<Rightarrow> signature_service \<Rightarrow>
    'db mempool_node" where
  "mnode_new nm c params st svc = \<lparr>mn_core = mempool_new nm c params st svc,
     mn_sync = mempool_sync_new nm c (mp_sync_retry_delay params), mn_taken = 0\<rparr>"

section \<open>Blocks come back complete\<close>

definition mnode_ok :: "'db mempool_env \<Rightarrow> 'db mempool_node \<Rightarrow> bool" where
  "mnode_ok env s \<longleftrightarrow> asks_ok env {} (mn_core s)
     \<and> (\<forall>w \<in> set (s_waiting (mn_sync s)). covers env (m_store (mn_core s)) (w_missing w) (w_block w))
     \<and> (\<forall>b \<in> set (s_loopback (mn_sync s)). covers env (m_store (mn_core s)) [] b)"

lemma covers_removeAll:
  "in_store env st d \<Longrightarrow> covers env st missing b \<Longrightarrow> covers env st (removeAll d missing) b"
  by (auto simp: covers_def)

lemma mnode_ok_sync:
  assumes "mnode_ok env s" and "sync_can env s e" and "sync_step (m_prims env) e (mn_sync s) = (r, t)"
  shows "mnode_ok env (s\<lparr>mn_sync := t\<rparr>)"
  using assms(2)
proof cases
  case (can_complete i)
  with assms(3) have "sync_step (m_prims env) (Completed i) (mn_sync s) = (r, t)" by simp
  then show ?thesis
  proof (cases rule: completed_step)
    case (delivered w f)
    then have "covers env (m_store (mn_core s)) [] (w_block w)"
      using assms(1) unfolding mnode_ok_def by metis
    with assms(1) show ?thesis
      by (auto simp: mnode_ok_def delivered(4,7,9,10))
  qed (use assms(1) in \<open>simp add: mnode_ok_def\<close>)
next
  case can_retry
  with assms show ?thesis
    by (auto simp: mnode_ok_def dest!: handle_timer_frame)
qed (use assms in \<open>auto simp: mnode_ok_def modify_def take_waiter_Some covers_removeAll split: option.splits\<close>)

lemma mnode_ok_step:
  assumes "mnode_step env s s'" and ok: "mnode_ok env s"
  shows "mnode_ok env s'"
  using assms(1)
proof cases
  case (core e r c)
  have c: "c = snd (mempool_step env e (mn_core s))"
    using core(2) by simp
  have "in_store env (m_store c) d" if "in_store env (m_store (mn_core s)) d" for d
    using step_stored [of env "mn_core s" d e] ok that by (simp add: c mnode_ok_def)
  then have "covers env (m_store c) missing b" if "covers env (m_store (mn_core s)) missing b" for missing b
    using that by (auto simp: covers_def)
  moreover have "asks_ok env {} c"
    using presD [OF asks.step, of env "{}" "mn_core s" e] ok by (simp add: c mnode_ok_def)
  ultimately show ?thesis
    using ok by (auto simp: core(1) mnode_ok_def)
next
  case (receive now t)
  let ?msg = "m_inner_channel (mn_core s) ! mn_taken s"
  have msg: "?msg \<in> set (m_inner_channel (mn_core s))"
    using receive(2) by simp
  show ?thesis
  proof (cases ?msg)
    case (Sync missing b)
    then have "covers env (m_store (mn_core s)) missing b"
      using ok msg by (simp add: mnode_ok_def asks_ok_def)
    note covered = this
    have new: "handle_sync (m_prims env) now missing b (mn_sync s) = (Ok (), t)"
      using receive(3) Sync by simp
    show ?thesis
    proof (cases "map_of (s_pending (mn_sync s)) (block_digest (m_prims env) b)")
      case None
      from handle_sync_new(1,2) [OF None new] covered ok show ?thesis
        by (auto simp: receive(1) mnode_ok_def new_waiter_def)
    next
      case (Some x)
      then have "t = mn_sync s"
        using handle_sync_pending [OF Some] new by simp
      with ok show ?thesis by (simp add: receive(1) mnode_ok_def)
    qed
  next
    case (Clean rnd)
    with ok receive show ?thesis
      by (auto simp: mnode_ok_def handle_clean_def modify_def Let_def)
  qed
next
  case (sync e t)
  with mnode_ok_sync [OF ok sync(2,3)] show ?thesis by simp
qed

text \<open>
  C12. In every state that the core and the synchronizer of a mempool can reach together, over
  the store they share and the channel between them, every block that was handed back to the
  consensus has all its payloads in the store.
\<close>

theorem loopback_complete:
  assumes "store_laws env"
    and "(mnode_step env)\<^sup>*\<^sup>* (mnode_new nm c params st svc) s"
    and "b \<in> set (s_loopback (mn_sync s))" and "d \<in> set (b_payload b)"
  shows "in_store env (m_store (mn_core s)) d"
proof -
  have "mnode_ok env s"
    using assms(2)
  proof induction
    case base
    show ?case
      using assms(1) by (simp add: mnode_ok_def mnode_new_def asks_ok_def mempool_new_def mempool_sync_new_def)
  next
    case (step s s')
    from step.hyps(2) step.IH show ?case by (rule mnode_ok_step)
  qed
  with assms(3,4) show ?thesis by (auto simp: mnode_ok_def covers_def)
qed

section \<open>Blocks can come back\<close>

text \<open>The numbers of the waiters are different, so \<open>Completed\<close> takes the waiter it names.\<close>

definition ids_ok :: "mempool_sync \<Rightarrow> bool" where
  "ids_ok t \<longleftrightarrow> distinct (map w_id (s_waiting t)) \<and> (\<forall>w \<in> set (s_waiting t). w_id w < s_next t)"

lemma ids_ok_step:
  assumes "ids_ok t" and "sync_step cr e t = (r, t')"
  shows "ids_ok t'"
proof (cases "(cr, e)" rule: sync_step.cases)
  case (1 cr' missing b now)
  with assms(2) have s: "handle_sync cr now missing b t = (r, t')" by simp
  show ?thesis
  proof (cases "map_of (s_pending t) (block_digest cr b)")
    case None
    from handle_sync_new(2,3) [OF None s] assms(1) show ?thesis
      by (force simp: ids_ok_def new_waiter_def)
  next
    case (Some x)
    with s assms(1) show ?thesis by (simp add: handle_sync_pending)
  qed
next
  case (4 cr' i)
  with assms(2) have "sync_step cr (Completed i) t = (r, t')" by simp
  then show ?thesis
  proof (cases rule: completed_step)
    case (delivered w f)
    with assms(1) show ?thesis
      by (auto simp: ids_ok_def comp_def distinct_map_filter)
  qed (use assms(1) in simp)
next
  case (7 cr' now)
  with assms show ?thesis by (auto simp: ids_ok_def dest!: handle_timer_frame)
qed (use assms in \<open>auto simp: ids_ok_def modify_def handle_clean_def Let_def take_waiter_Some
      distinct_map_filter comp_def if_distrib [of w_id] cong: if_cong split: option.splits\<close>)

lemma ids_ok_reachable:
  assumes "(mnode_step env)\<^sup>*\<^sup>* (mnode_new nm c params st svc) s"
  shows "ids_ok (mn_sync s)"
  using assms
proof induction
  case base
  show ?case by (simp add: mnode_new_def mempool_sync_new_def ids_ok_def)
next
  case (step s s')
  from step.hyps(2) show ?case
    by cases (use step.IH in \<open>auto intro: ids_ok_step\<close>)
qed

text \<open>The store answers for every digest of a list.\<close>

definition answered :: "digest list \<Rightarrow> mempool_sync \<Rightarrow> mempool_sync" where
  "answered ds t = t\<lparr>s_waiting := map (\<lambda>w. w\<lparr>w_missing := filter (\<lambda>x. x \<notin> set ds) (w_missing w)\<rparr>) (s_waiting t)\<rparr>"

lemma answered_steps:
  assumes "\<forall>d \<in> set ds. in_store env (m_store (mn_core s)) d"
  shows "(mnode_step env)\<^sup>*\<^sup>* s (s\<lparr>mn_sync := answered ds (mn_sync s)\<rparr>)"
  using assms
proof (induction ds rule: rev_induct)
  case (snoc d ds)
  let ?s = "s\<lparr>mn_sync := answered ds (mn_sync s)\<rparr>"
  have "sync_step (m_prims env) (Stored d) (mn_sync ?s) = (Ok (), answered (ds @ [d]) (mn_sync s))"
    by (simp add: modify_def answered_def comp_def removeAll_filter_not_eq neq_commute conj_commute)
  then have "mnode_step env ?s (?s\<lparr>mn_sync := answered (ds @ [d]) (mn_sync s)\<rparr>)"
    by (rule mnode_step.sync [rotated]) (use snoc.prems in simp)
  with snoc show ?case
    by (auto intro: rtranclp.rtrancl_into_rtrancl)
qed (simp add: answered_def)

text \<open>
  From every state that the core and the synchronizer of a mempool can reach together, a
  block on hold whose missing payloads are in the store can be handed back: some further steps
  of the synchronizer alone put it into the loopback channel.
\<close>

theorem held_block_can_return:
  assumes "(mnode_step env)\<^sup>*\<^sup>* (mnode_new nm c params st svc) s"
    and "w \<in> set (s_waiting (mn_sync s))"
    and "\<And>d. d \<in> set (w_missing w) \<Longrightarrow> in_store env (m_store (mn_core s)) d"
  shows "\<exists>s'. (mnode_step env)\<^sup>*\<^sup>* s s' \<and> mn_core s' = mn_core s \<and> w_block w \<in> set (s_loopback (mn_sync s'))"
proof -
  let ?t = "answered (w_missing w) (mn_sync s)" and ?w = "w\<lparr>w_missing := []\<rparr>"
  have w: "?w \<in> set (s_waiting ?t)"
    using assms(2) by (force simp: answered_def)
  have ids: "distinct (map w_id (s_waiting ?t))"
    using ids_ok_reachable [OF assms(1)] by (simp add: ids_ok_def answered_def comp_def)
  have "\<exists>v. v \<in> set (s_waiting ?t) \<and> w_id v = w_id w \<and> w_missing v = []"
    using w by (intro exI [of _ ?w]) simp
  then obtain v where v: "find (\<lambda>v. w_id v = w_id w \<and> w_missing v = []) (s_waiting ?t) = Some v"
    by (metis (mono_tags, lifting) find_None_iff not_None_eq)
  have "v = ?w"
    using find_waiter [OF v] w ids by (metis (no_types, lifting) distinct_map inj_onD sync_waiter.select_convs(1) sync_waiter.surjective sync_waiter.update_convs(2))
  then obtain t' where t': "sync_step (m_prims env) (Completed (w_id w)) ?t = (Ok (), t')" "w_block w \<in> set (s_loopback t')"
    using v by (simp add: take_waiter_def handle_delivered_def modify_def)
  let ?s = "s\<lparr>mn_sync := ?t\<rparr>"
  have "mnode_step env ?s (?s\<lparr>mn_sync := t'\<rparr>)"
    by (rule mnode_step.sync [where e = "Completed (w_id w)"]) (use t'(1) in simp_all)
  with answered_steps [of "w_missing w" env s] assms(3) t'(2) show ?thesis
    by (intro exI [of _ "?s\<lparr>mn_sync := t'\<rparr>"]) (auto intro: rtranclp.rtrancl_into_rtrancl)
qed

section \<open>What is handed out for proposals\<close>

definition own_known :: "'db mempool_env \<Rightarrow> 'db mempool \<Rightarrow> digest \<Rightarrow> bool" where
  "own_known env s d \<longleftrightarrow> (\<exists>p. payload_digest (m_prims env) p = d
     \<and> (PayloadMsg p, mempool_broadcast_addresses (m_committee s) (m_name s)) \<in> set (m_network s))"

definition peer_known :: "'db mempool_env \<Rightarrow> 'db mempool \<Rightarrow> digest \<Rightarrow> bool" where
  "peer_known env s d \<longleftrightarrow> (\<exists>p. payload_digest (m_prims env) p = d \<and> committee_exists (m_committee s) (p_author p)
     \<and> payload_size p \<le> mp_max_payload_size (m_parameters s)
     \<and> signature_verify (m_prims env) (p_signature p) d (p_author p) = Inr ())"

definition known_ok :: "'db mempool_env \<Rightarrow> digest set \<Rightarrow> 'db mempool \<Rightarrow> bool" where
  "known_ok env K s \<longleftrightarrow> (\<forall>d \<in> set (opt_queue s). own_known env s d) \<and> (\<forall>d \<in> set (pes_queue s). peer_known env s d)
     \<and> (\<forall>d \<in> K. own_known env s d \<or> peer_known env s d)"

interpretation known_frame: mempool_frame env "known_ok env K" for env :: "'db mempool_env" and K
  by unfold_locales (auto simp: known_ok_def own_known_def peer_known_def)

lemma own_processed_known:
  "own_known env (own_processed env (payload_digest (m_prims env) p) p s) (payload_digest (m_prims env) p)"
  "own_known env s d \<Longrightarrow> own_known env (own_processed env d' p s) d"
  "peer_known env s d \<Longrightarrow> peer_known env (own_processed env d' p s) d"
  by (auto simp: own_known_def peer_known_def own_processed_def)

lemma known_queues [simp]:
  "own_known env (s\<lparr>opt_queue := q\<rparr>) = own_known env s" "own_known env (s\<lparr>pes_queue := q\<rparr>) = own_known env s"
  "peer_known env (s\<lparr>opt_queue := q\<rparr>) = peer_known env s" "peer_known env (s\<lparr>pes_queue := q\<rparr>) = peer_known env s"
  "own_known env (s\<lparr>m_store := st\<rparr>) = own_known env s" "peer_known env (s\<lparr>m_store := st\<rparr>) = peer_known env s"
  "own_known env (s\<lparr>m_inner_channel := ch\<rparr>) = own_known env s" "peer_known env (s\<lparr>m_inner_channel := ch\<rparr>) = peer_known env s"
  by (simp_all add: own_known_def peer_known_def fun_eq_iff)

lemma own_processed_queues [simp]:
  "opt_queue (own_processed env d p s) = opt_queue s" "pes_queue (own_processed env d p s) = pes_queue s"
  by (simp_all add: own_processed_def)

interpretation known: mempool_invariant env "known_ok env K" for env :: "'db mempool_env" and K
proof
  show "pres (known_ok env K) (handle_own_payload env p)" for p
    by (auto simp: pres_def handle_own_payload_eq process_own_payload_eq Let_def known_ok_def own_processed_known)
  show "pres (known_ok env K) (handle_others_payload env p)" for p
    by (auto simp: pres_def handle_others_payload_eq Let_def known_ok_def split: sum.split)
      (auto simp: peer_known_def)
  show "pres (known_ok env K) (verify_payload env b)" for b
    unfolding verify_payload_def by (intro pres_rules pres_modify) (simp add: known_ok_def)
  show "known_ok env K (s\<lparr>m_inner_channel := m_inner_channel s @ [Clean rnd]\<rparr>)" if "known_ok env K s" for s rnd
    using that by (simp add: known_ok_def)
  show "known_ok env K (s\<lparr>opt_queue := fold removeAll A (opt_queue s), pes_queue := fold removeAll B (pes_queue s)\<rparr>)"
    if "known_ok env K s" for s A B
    using that by (simp add: known_ok_def)
qed

lemma step_known:
  assumes "known_ok env {} s" and "mempool_step env e s = (Ok (Some (Payloads ds)), s')" and "d \<in> set ds"
  shows "known_ok env {d} s'"
proof -
  obtain mx where e: "e = FromConsensus (MGet mx)"
    using assms(2) by (cases "(env, e)" rule: mempool_step.cases)
      (auto simp: handle_consensus_message_def act_defs split: prod.splits outcome.splits list.splits consensus_mempool_message.splits)
  have s': "known_ok env {} s'"
    using presD [OF known.step, of env "{}" s e] assms(1,2) by simp
  have g: "get_payload env mx s = (Ok ds, s')"
    using assms(2,3) by (auto simp: e handle_consensus_message_def attempt_def act_defs split: prod.splits outcome.splits)
  have "own_known env s' d \<or> peer_known env s' d"
  proof (cases "opt_queue s = [] \<and> pes_queue s = []")
    case True
    with g assms(3) show ?thesis
      by (auto simp: get_payload_empty process_own_payload_eq own_processed_known Let_def
          split: prod.splits outcome.splits option.splits if_splits)
  next
    case False
    with g assms(1,3) show ?thesis
      by (auto simp: get_payload_queued Let_def known_ok_def dest!: in_set_takeD)
  qed
  with s' show ?thesis by (simp add: known_ok_def)
qed

text \<open>
  C15. Whatever clients, other nodes and the consensus send to a mempool, each digest it hands
  out for a proposal is that of a payload which the node has broadcast to all others, or which
  came from an authority of the committee, within the size limit and with a valid signature.
\<close>

theorem proposed_digests_known:
  assumes "mempool_run env es (mempool_new nm c params st svc) = (Ok rs, s)"
    and "Payloads ds \<in> set rs" and "d \<in> set ds"
  shows "\<exists>p. payload_digest (m_prims env) p = d
    \<and> ((PayloadMsg p, mempool_broadcast_addresses (m_committee s) (m_name s)) \<in> set (m_network s)
       \<or> committee_exists (m_committee s) (p_author p) \<and> payload_size p \<le> mp_max_payload_size (m_parameters s)
         \<and> signature_verify (m_prims env) (p_signature p) d (p_author p) = Inr ())"
proof -
  have "known_ok env {d} s" if "mempool_run env es s0 = (Ok rs, s)" "known_ok env {} s0" "Payloads ds \<in> set rs" for s0
    using that
  proof (induction es arbitrary: s0 rs)
    case (Cons e es)
    obtain r s1 where step: "mempool_step env e s0 = (Ok r, s1)"
      using Cons.prems(1) by (auto simp: bind_def split: prod.splits outcome.splits)
    then obtain rs1 where run: "mempool_run env es s1 = (Ok rs1, s)"
      and rs: "rs = (case r of None \<Rightarrow> [] | Some x \<Rightarrow> [x]) @ rs1"
      using Cons.prems(1) by (auto simp: bind_def ret_def split: prod.splits outcome.splits)
    show ?case
    proof (cases "Payloads ds \<in> set rs1")
      case True
      have "known_ok env {} s1"
        using presD [OF known.step, of env "{}" s0 e] Cons.prems(2) step by simp
      with Cons.IH [OF run] True show ?thesis by blast
    next
      case False
      with Cons.prems(3) rs have "r = Some (Payloads ds)" by (auto split: option.splits)
      with step_known [OF Cons.prems(2)] step assms(3) have "known_ok env {d} s1" by blast
      with presD [OF known.run, of env "{d}" s1 es] run show ?thesis by simp
    qed
  qed (simp add: ret_def)
  moreover have "known_ok env {} (mempool_new nm c params st svc)"
    by (simp add: known_ok_def mempool_new_def)
  ultimately have "own_known env s d \<or> peer_known env s d"
    using assms(1,2) by (auto simp: known_ok_def)
  then show ?thesis
    by (auto simp: own_known_def peer_known_def)
qed

section \<open>An example\<close>

text \<open>Node 1 is asked for a block of its own whose payload it does not have, and then gets the payload.\<close>

definition waiting_block :: block where
  "waiting_block = (example_block 1 1 [])\<lparr>b_payload := [Digest 0]\<rparr>"

definition example_node :: "(bytes \<rightharpoonup> bytes) mempool_node" where
  "example_node = mnode_new (PublicKey 1) (m_committee example_mempool) (m_parameters example_mempool) Map.empty example_service"

definition example_asked :: "(bytes \<rightharpoonup> bytes) mempool" where
  "example_asked = example_mempool\<lparr>m_inner_channel := [Sync [Digest 0] waiting_block]\<rparr>"

definition example_stored :: "(bytes \<rightharpoonup> bytes) mempool" where
  "example_stored = example_asked\<lparr>m_store := [digest_to_vec (Digest 0) \<mapsto> [7]], pes_queue := [Digest 0]\<rparr>"

lemma example_node_core: "mn_core example_node = example_mempool"
  by (simp add: example_node_def mnode_new_def example_mempool_def mempool_new_def)

lemma example_asks:
  "mempool_step example_mempool_env (FromConsensus (MVerify waiting_block)) example_mempool = (Ok (Some (Status Wait)), example_asked)"
  by (simp add: handle_consensus_message_def attempt_def verify_payload_def act_defs example_asked_def waiting_block_def
      example_mempool_env_def default_get_def example_mempool_def mempool_new_def example_block_def hs_iter_def hs_insert_def)

lemma example_stores:
  "\<exists>s. mempool_step example_mempool_env (FromNetwork (PayloadMsg (example_payload [[7]]))) example_asked = (Ok None, s)
     \<and> mempool_step example_mempool_env CoreReceive s = (Ok None, example_stored)"
  by (simp add: handle_mempool_message_def attempt_def act_defs handle_others_payload_eq example_stored_def example_asked_def
      example_payload_def payload_size_def example_mempool_env_def default_put_def Let_def
      example_mempool_def mempool_new_def committee_exists_def payload_digest_def finalize32_def example_primitives_def
      signature_verify_def hs_insert_def)

lemma example_waits:
  "\<exists>t. sync_step example_primitives (Inner (Sync [Digest 0] waiting_block) 0) (mn_sync example_node) = (Ok (), t)
     \<and> s_waiting t = [\<lparr>w_id = 0, w_missing = [Digest 0], w_block = waiting_block, w_cancelled = False\<rparr>]
     \<and> s_loopback t = []"
  by (simp add: example_node_def mnode_new_def mempool_sync_new_def handle_sync_def Let_def act_defs sync_transmit_def
      mempool_transmit_addresses_def mempool_address_def example_mempool_def mempool_new_def waiting_block_def example_block_def)

lemma example_ready:
  "\<exists>s. (mnode_step example_mempool_env)\<^sup>*\<^sup>* example_node s \<and> mn_core s = example_stored
     \<and> s_waiting (mn_sync s) = [\<lparr>w_id = 0, w_missing = [Digest 0], w_block = waiting_block, w_cancelled = False\<rparr>]"
proof -
  obtain t where t: "sync_step example_primitives (Inner (Sync [Digest 0] waiting_block) 0) (mn_sync example_node) = (Ok (), t)"
    "s_waiting t = [\<lparr>w_id = 0, w_missing = [Digest 0], w_block = waiting_block, w_cancelled = False\<rparr>]"
    using example_waits by blast
  obtain c where c: "mempool_step example_mempool_env (FromNetwork (PayloadMsg (example_payload [[7]]))) example_asked = (Ok None, c)"
    "mempool_step example_mempool_env CoreReceive c = (Ok None, example_stored)"
    using example_stores by blast
  let ?s1 = "example_node\<lparr>mn_core := example_asked\<rparr>"
  let ?s2 = "?s1\<lparr>mn_sync := t, mn_taken := 1\<rparr>"
  have asked: "m_inner_channel example_asked = [Sync [Digest 0] waiting_block]" "mn_taken example_node = 0"
    by (simp_all add: example_asked_def example_node_def mnode_new_def)
  have "mnode_step example_mempool_env example_node ?s1"
    by (rule mnode_step.core [of _ "FromConsensus (MVerify waiting_block)"]) (simp add: example_node_core example_asks del: mempool_step.simps)
  moreover have "mnode_step example_mempool_env ?s1 (?s1\<lparr>mn_sync := t, mn_taken := mn_taken ?s1 + 1\<rparr>)"
    by (rule mnode_step.receive [where now = 0]) (use t asked in simp_all)
  moreover have "mnode_step example_mempool_env ?s2 (?s2\<lparr>mn_core := c\<rparr>)"
    by (rule mnode_step.core [of _ "FromNetwork (PayloadMsg (example_payload [[7]]))"]) (simp add: c(1) del: mempool_step.simps)
  moreover have "mnode_step example_mempool_env (?s2\<lparr>mn_core := c\<rparr>) (?s2\<lparr>mn_core := c, mn_core := example_stored\<rparr>)"
    by (rule mnode_step.core [of _ CoreReceive]) (simp add: c(2) del: mempool_step.simps)
  ultimately have "(mnode_step example_mempool_env)\<^sup>*\<^sup>* example_node (?s2\<lparr>mn_core := example_stored\<rparr>)"
    using asked(2) by (auto intro!: converse_rtranclp_into_rtranclp [of _ example_node]
        converse_rtranclp_into_rtranclp [of _ ?s1] converse_rtranclp_into_rtranclp [of _ ?s2]
        converse_rtranclp_into_rtranclp [of _ "?s2\<lparr>mn_core := c\<rparr>"])
  with t(2) show ?thesis
    by (intro exI [of _ "?s2\<lparr>mn_core := example_stored\<rparr>"]) simp
qed

lemma example_in_store: "in_store example_mempool_env (m_store example_stored) (Digest 0)"
  by (simp add: in_store_def example_stored_def example_mempool_env_def default_get_def)

lemma held_block_can_return_witness:
  "\<exists>s'. (mnode_step example_mempool_env)\<^sup>*\<^sup>* example_node s' \<and> mn_core s' = example_stored
     \<and> waiting_block \<in> set (s_loopback (mn_sync s'))"
proof -
  obtain s where s: "(mnode_step example_mempool_env)\<^sup>*\<^sup>* example_node s" "mn_core s = example_stored"
    "s_waiting (mn_sync s) = [\<lparr>w_id = 0, w_missing = [Digest 0], w_block = waiting_block, w_cancelled = False\<rparr>]"
    using example_ready by blast
  from held_block_can_return [OF s(1) [unfolded example_node_def], of "\<lparr>w_id = 0, w_missing = [Digest 0], w_block = waiting_block, w_cancelled = False\<rparr>"]
    s example_in_store
  obtain s' where "(mnode_step example_mempool_env)\<^sup>*\<^sup>* s s'" "mn_core s' = example_stored" "waiting_block \<in> set (s_loopback (mn_sync s'))"
    by auto
  with rtranclp_trans [OF s(1)] show ?thesis by blast
qed

lemma example_returned:
  "\<exists>s. (mnode_step example_mempool_env)\<^sup>*\<^sup>* example_node s \<and> waiting_block \<in> set (s_loopback (mn_sync s))"
proof -
  obtain s where s: "(mnode_step example_mempool_env)\<^sup>*\<^sup>* example_node s" "mn_core s = example_stored"
    "s_waiting (mn_sync s) = [\<lparr>w_id = 0, w_missing = [Digest 0], w_block = waiting_block, w_cancelled = False\<rparr>]"
    using example_ready by blast
  let ?s = "s\<lparr>mn_sync := answered [Digest 0] (mn_sync s)\<rparr>"
  obtain t where t: "sync_step example_primitives (Completed 0) (mn_sync ?s) = (Ok (), t)" "waiting_block \<in> set (s_loopback t)"
    using s(3) by (simp add: answered_def take_waiter_def handle_delivered_def modify_def)
  have "mnode_step example_mempool_env ?s (?s\<lparr>mn_sync := t\<rparr>)"
    by (rule mnode_step.sync [where e = "Completed 0"]) (use t(1) in simp_all)
  moreover have "(mnode_step example_mempool_env)\<^sup>*\<^sup>* s ?s"
    by (rule answered_steps) (simp add: s(2) example_in_store)
  ultimately show ?thesis
    using s(1) t(2) by (intro exI [of _ "?s\<lparr>mn_sync := t\<rparr>"]) (auto intro: rtranclp_trans rtranclp.rtrancl_into_rtrancl)
qed

lemma loopback_complete_witness:
  "\<exists>s. (mnode_step example_mempool_env)\<^sup>*\<^sup>* example_node s \<and> waiting_block \<in> set (s_loopback (mn_sync s))
     \<and> in_store example_mempool_env (m_store (mn_core s)) (Digest 0)"
proof -
  obtain s where s: "(mnode_step example_mempool_env)\<^sup>*\<^sup>* example_node s" "waiting_block \<in> set (s_loopback (mn_sync s))"
    using example_returned by blast
  have "Digest 0 \<in> set (b_payload waiting_block)"
    by (simp add: waiting_block_def)
  with loopback_complete [OF example_store_laws s(1) [unfolded example_node_def] s(2)] s show ?thesis
    by blast
qed

lemma proposed_digests_known_witness:
  "\<exists>rs s p. mempool_run example_mempool_env [FromNetwork (PayloadMsg (example_payload [[7]])), CoreReceive, FromConsensus (MGet 32)]
      example_mempool = (Ok rs, s)
    \<and> Payloads [Digest 0] \<in> set rs \<and> payload_digest example_primitives p = Digest 0
    \<and> ((PayloadMsg p, mempool_broadcast_addresses (m_committee s) (m_name s)) \<in> set (m_network s)
       \<or> committee_exists (m_committee s) (p_author p) \<and> payload_size p \<le> mp_max_payload_size (m_parameters s)
         \<and> signature_verify example_primitives (p_signature p) (Digest 0) (p_author p) = Inr ())"
proof -
  have idle: "example_mempool\<lparr>core_channel := []\<rparr> = example_mempool"
    by (simp add: example_mempool_def mempool_new_def)
  obtain rs s where run: "mempool_run example_mempool_env [FromNetwork (PayloadMsg (example_payload [[7]])), CoreReceive, FromConsensus (MGet 32)]
      example_mempool = (Ok rs, s)" "Payloads [Digest 0] \<in> set rs"
    using example_others_payload [of "[[7]]"] idle
    by (simp add: handle_mempool_message_def attempt_def act_defs handle_consensus_message_def get_payload_queued
        hs_iter_def Let_def)
  from proposed_digests_known [OF run(1) [unfolded example_mempool_def] run(2), of "Digest 0"] run show ?thesis
    by (simp del: mempool_run.simps)
qed

end
