(* ===== verification/Dissemination.thy ===== *)
theory Dissemination
  imports Mempool_Node
begin

text \<open>
  Two mempools over the network: a payload that one node makes of the transactions of its
  clients and broadcasts is accepted by every other node that receives it, and blocks that
  name it are then accepted there. The clients must keep to the limit on the size of
  transactions, and no peer may pass a payload off as the node's own; without these, see
  \<open>oversized_transaction_rejected\<close> and \<open>forged_own_payload_queued\<close>.
\<close>

section \<open>Payloads that others accept\<close>

definition acceptable :: "primitives \<Rightarrow> public_key \<Rightarrow> nat \<Rightarrow> payload \<Rightarrow> bool" where
  "acceptable cr me mx p \<longleftrightarrow> p_author p = me \<and> payload_size p \<le> mx
     \<and> signature_verify cr (p_signature p) (payload_digest cr p) me = Inr ()"

text \<open>The key of the service loads, and what it signs verifies under the node's name.\<close>

definition own_key :: "primitives \<Rightarrow> public_key \<Rightarrow> signature_service \<Rightarrow> bool" where
  "own_key cr me svc \<longleftrightarrow> key_loads cr svc
     \<and> (\<forall>d. signature_verify cr (the (signature_new cr d (secret svc))) d me = Inr ())"

lemma signed_acceptable:
  assumes "own_key cr me svc" and "length (concat txs) \<le> mx"
  shows "acceptable cr me mx (signed_payload cr svc me txs)"
proof -
  have "payload_digest cr (signed_payload cr svc me txs)
      = payload_digest cr \<lparr>p_transactions = txs, p_author = me, p_signature = default_signature\<rparr>"
    by (simp add: payload_digest_def payload_preimage_def signed_payload_def Let_def)
  then show ?thesis
    using assms by (simp add: acceptable_def own_key_def) (simp add: signed_payload_def Let_def)
qed

section \<open>The node that makes the payload\<close>

definition own_ok :: "primitives \<Rightarrow> public_key \<Rightarrow> mempool_committee \<Rightarrow> signature_service \<Rightarrow> nat \<Rightarrow> 'db mempool \<Rightarrow> bool"
  where
  "own_ok cr me c svc mx s \<longleftrightarrow> m_name s = me \<and> m_committee s = c
     \<and> (let r = payload_maker s in runner_ok r \<and> runner_name r = me \<and> runner_service r = svc \<and> max_size r = mx
          \<and> length (concat (transactions r)) \<le> mx \<and> runner_out r = [])
     \<and> (\<forall>p. OwnPayload p \<in> set (core_channel s) \<longrightarrow> acceptable cr me mx p)"

definition proper_event :: "nat \<Rightarrow> mempool_event \<Rightarrow> bool" where
  "proper_event mx e \<longleftrightarrow> (\<forall>tx. e = ClientTransaction tx \<longrightarrow> length tx \<le> mx)
     \<and> (\<forall>p. e \<noteq> FromNetwork (OwnPayload p))"

lemma own_ok_fields [simp]:
  "own_ok cr me c svc mx (s\<lparr>m_store := st\<rparr>) = own_ok cr me c svc mx s"
  "own_ok cr me c svc mx (s\<lparr>m_network := net\<rparr>) = own_ok cr me c svc mx s"
  "own_ok cr me c svc mx (s\<lparr>m_inner_channel := ch\<rparr>) = own_ok cr me c svc mx s"
  "own_ok cr me c svc mx (s\<lparr>opt_queue := q\<rparr>) = own_ok cr me c svc mx s"
  "own_ok cr me c svc mx (s\<lparr>pes_queue := q\<rparr>) = own_ok cr me c svc mx s"
  by (simp_all add: own_ok_def)

lemma own_ok_processed [simp]: "own_ok cr me c svc mx (own_processed env d p s) = own_ok cr me c svc mx s"
  by (simp add: own_processed_def)

lemma own_ok_handle_request: "pres (own_ok cr me c svc mx) (handle_request env ds k)"
  by (induction ds) (auto intro!: pres_rules pres_modify simp: mempool_transmit_def)

lemma own_ok_message: "pres (own_ok cr me c svc mx) (handle_mempool_message env msg)"
proof (cases msg)
  case (OwnPayload p)
  then show ?thesis
    by (auto simp: handle_mempool_message_def pres_def handle_own_payload_eq process_own_payload_eq Let_def)
next
  case (PayloadMsg p)
  then show ?thesis
    by (auto simp: handle_mempool_message_def pres_def handle_others_payload_eq Let_def split: sum.split)
qed (simp add: handle_mempool_message_def own_ok_handle_request)

lemma make_acceptable:
  assumes "own_key (m_prims env) me svc" and "own_ok (m_prims env) me c svc mx s"
  shows "\<exists>p pm. payload_maker_make (m_prims env) (payload_maker s) = (Ok (if payload_size p = 0 then None else Some p), pm)
    \<and> acceptable (m_prims env) me mx p \<and> own_ok (m_prims env) me c svc mx (s\<lparr>payload_maker := pm\<rparr>)"
  using assms signed_acceptable [OF assms(1), of "transactions (payload_maker s)" mx]
  by (intro exI [of _ "signed_payload (m_prims env) svc me (transactions (payload_maker s))"]
        exI [of _ "payload_maker s\<lparr>transactions := [], runner_size := 0\<rparr>"])
    (auto simp: own_ok_def Let_def payload_maker_make_def runner_make_eq own_key_def act_defs runner_ok_def)

lemma own_ok_get:
  assumes "own_key (m_prims env) me svc"
  shows "pres (own_ok (m_prims env) me c svc mx) (get_payload env k)"
  unfolding pres_def
proof (intro allI impI)
  fix s :: "'a mempool"
  assume ok: "own_ok (m_prims env) me c svc mx s"
  show "own_ok (m_prims env) me c svc mx (snd (get_payload env k s))"
  proof (cases "opt_queue s = [] \<and> pes_queue s = []")
    case True
    with make_acceptable [OF assms ok] show ?thesis
      by (auto simp: get_payload_empty process_own_payload_eq Let_def)
  next
    case False
    with ok show ?thesis by (auto simp: get_payload_queued Let_def)
  qed
qed

lemma own_ok_maker:
  assumes "own_key (m_prims env) me svc" and "length tx \<le> mx"
  shows "pres (own_ok (m_prims env) me c svc mx) (maker_step env tx)"
  unfolding pres_def
proof (intro allI impI)
  fix s :: "'a mempool"
  assume ok: "own_ok (m_prims env) me c svc mx s"
  with assms signed_acceptable [OF assms(1), of "transactions (payload_maker s)" mx]
  show "own_ok (m_prims env) me c svc mx (snd (maker_step env tx s))"
    by (auto simp: own_ok_def Let_def maker_step_def on_maker_def runner_add_eq own_key_def act_defs runner_ok_def)
qed

lemma own_ok_step:
  assumes "own_key (m_prims env) me svc" and "proper_event mx e"
  shows "pres (own_ok (m_prims env) me c svc mx) (mempool_step env e)"
proof (cases e)
  case (ClientTransaction tx)
  with assms show ?thesis
    by (auto simp: proper_event_def intro!: pres_rules own_ok_maker)
next
  case (FromNetwork msg)
  with assms(2) show ?thesis
    by (auto simp: proper_event_def own_ok_def intro!: pres_rules pres_modify)
next
  case CoreReceive
  show ?thesis
    unfolding pres_def
  proof (intro allI impI)
    fix s :: "'a mempool"
    assume ok: "own_ok (m_prims env) me c svc mx s"
    show "own_ok (m_prims env) me c svc mx (snd (mempool_step env e s))"
    proof (cases "core_channel s")
      case (Cons msg rest)
      then have "own_ok (m_prims env) me c svc mx (s\<lparr>core_channel := rest\<rparr>)"
        using ok by (simp add: own_ok_def)
      moreover have "pres (own_ok (m_prims env) me c svc mx) (bind (attempt (handle_mempool_message env msg)) (\<lambda>_. ret None))"
        by (intro pres_rules own_ok_message)
      ultimately show ?thesis
        using Cons by (auto simp: CoreReceive bind_def gets_def modify_def dest: presD)
    qed (use ok in \<open>simp add: CoreReceive act_defs\<close>)
  qed
next
  case (FromConsensus msg)
  with assms(1) show ?thesis
    by (cases msg) (auto simp: handle_consensus_message_def mempool_cleanup_def verify_payload_def
        intro!: pres_rules pres_modify own_ok_get)
qed (auto intro!: pres_rules pres_modify)

lemma own_ok_run:
  assumes "own_key (m_prims env) me svc" and "\<forall>e \<in> set es. proper_event mx e"
  shows "pres (own_ok (m_prims env) me c svc mx) (mempool_run env es)"
  using assms(2) by (induction es) (auto intro!: pres_rules own_ok_step assms(1))

lemma maker_step_network: "m_network (snd (maker_step env tx s)) = m_network s"
  by (auto simp: maker_step_def on_maker_def bind_def modify_def split: prod.splits outcome.splits)

text \<open>What a step puts on the network, unless it answers a request.\<close>

lemma step_sends:
  assumes "own_key (m_prims env) me svc" and ok: "own_ok (m_prims env) me c svc mx s"
    and "mempool_step env e s = (r, s')"
    and "e = CoreReceive \<Longrightarrow> \<nexists>ds k rest. core_channel s = PayloadRequest ds k # rest"
    and "(PayloadMsg p, a) \<in> set (m_network s') - set (m_network s)"
  shows "acceptable (m_prims env) me mx p \<and> a = mempool_broadcast_addresses c me"
proof (cases e)
  case (ClientTransaction tx)
  with assms(3,5) maker_step_network [of env tx s] show ?thesis
    by (auto simp: bind_def ret_def split: prod.splits outcome.splits)
next
  case CoreReceive
  show ?thesis
  proof (cases "core_channel s")
    case (Cons msg rest)
    note ch = Cons
    show ?thesis
    proof (cases msg)
      case (OwnPayload q)
      with ch ok have "acceptable (m_prims env) me mx q" "m_committee s = c" "m_name s = me"
        by (auto simp: own_ok_def)
      with assms(3,5) ch OwnPayload show ?thesis
        by (auto simp: CoreReceive act_defs attempt_def handle_mempool_message_def handle_own_payload_eq
            process_own_payload_eq own_processed_def Let_def split: if_splits)
    next
      case (PayloadMsg q)
      with assms(3,5) ch show ?thesis
        by (auto simp: CoreReceive act_defs attempt_def handle_mempool_message_def handle_others_payload_eq Let_def
            split: if_splits sum.splits)
    qed (use assms(4) ch CoreReceive in auto)
  qed (use assms in \<open>auto simp: CoreReceive act_defs\<close>)
next
  case (FromConsensus msg)
  show ?thesis
  proof (cases msg)
    case (MGet k)
    then have s': "s' = snd (get_payload env k s)"
      using assms(3) by (auto simp: FromConsensus MGet handle_consensus_message_def attempt_def act_defs
          split: prod.splits outcome.splits)
    show ?thesis
    proof (cases "opt_queue s = [] \<and> pes_queue s = []")
      case True
      obtain q pm where "payload_maker_make (m_prims env) (payload_maker s) = (Ok (if payload_size q = 0 then None else Some q), pm)"
        "acceptable (m_prims env) me mx q"
        using make_acceptable [OF assms(1) ok] by blast
      moreover have "m_committee s = c" "m_name s = me"
        using ok by (simp_all add: own_ok_def)
      ultimately show ?thesis
        using True assms(5)
        by (auto simp: s' get_payload_empty process_own_payload_eq own_processed_def Let_def split: if_splits)
    next
      case False
      with assms(5) show ?thesis by (auto simp: s' get_payload_queued Let_def)
    qed
  next
    case (MVerify b)
    with assms(3,5) show ?thesis
      by (auto simp: FromConsensus handle_consensus_message_def attempt_def verify_payload_def act_defs split: sum.splits if_splits)
  next
    case (MCleanup ds h)
    with assms(3,5) show ?thesis
      by (auto simp: FromConsensus handle_consensus_message_def mempool_cleanup_def act_defs)
  qed
qed (use assms in \<open>auto simp: act_defs\<close>)

section \<open>The nodes that receive it\<close>

lemma receive_acceptable:
  assumes "acceptable (m_prims env) k mx p" and "committee_exists (m_committee t) k"
    and "mx \<le> mp_max_payload_size (m_parameters t)" and "core_channel t = PayloadMsg p # rest"
  shows "mempool_step env CoreReceive t = (Ok None, t\<lparr>core_channel := rest,
      m_store := m_put env (digest_to_vec (payload_digest (m_prims env) p)) (serialize_payload env p) (m_store t),
      pes_queue := hs_insert (payload_digest (m_prims env) p) (pes_queue t)\<rparr>)"
  using assms by (simp add: acceptable_def act_defs attempt_def handle_mempool_message_def handle_others_payload_eq Let_def)

lemma verify_stored:
  assumes "\<And>d. d \<in> set (b_payload b) \<Longrightarrow> in_store env (m_store t) d"
  shows "mempool_step env (FromConsensus (MVerify b)) t = (Ok (Some (Status Accept)), t)"
proof -
  have "missing_payloads env (m_store t) ds [] = Inr []" if "\<And>d. d \<in> set ds \<Longrightarrow> in_store env (m_store t) d" for ds
    using that by (induction ds) (force simp: in_store_def)+
  from this [of "b_payload b", OF assms] show ?thesis
    by (simp add: handle_consensus_message_def attempt_def verify_payload_def act_defs)
qed

text \<open>
  C16. A payload that a step of a mempool broadcasts, other than in answer to a request, is
  accepted by each node of the committee that receives it and has no smaller limit: its digest
  is queued there, and the node then accepts every block that names no other payload; provided
  the sender's clients keep to the size limit and nobody passes a payload off as its own.
\<close>

theorem broadcast_payload_accepted:
  fixes env :: "'a mempool_env" and env' :: "'b mempool_env"
  assumes "own_key (m_prims env) me svc" and "m_prims env' = m_prims env" and "store_laws env'"
    and "mempool_run env es (mempool_new me c params st svc) = (Ok rs, s)"
    and "\<And>tx. ClientTransaction tx \<in> set es \<Longrightarrow> length tx \<le> mp_max_payload_size params"
    and "\<And>p. FromNetwork (OwnPayload p) \<notin> set es"
    and "mempool_step env e s = (r, s')" and "(PayloadMsg p, a) \<in> set (m_network s') - set (m_network s)"
    and "e = CoreReceive \<Longrightarrow> \<nexists>ds k rest. core_channel s = PayloadRequest ds k # rest"
    and "committee_exists (m_committee t) me" and "mp_max_payload_size params \<le> mp_max_payload_size (m_parameters t)"
    and "core_channel t = PayloadMsg p # rest"
  shows "a = mempool_broadcast_addresses c me \<and> (\<exists>t'. mempool_step env' CoreReceive t = (Ok None, t') \<and> payload_digest (m_prims env) p \<in> set (pes_queue t')
      \<and> (\<forall>b. set (b_payload b) \<subseteq> {payload_digest (m_prims env) p} \<longrightarrow>
            mempool_step env' (FromConsensus (MVerify b)) t' = (Ok (Some (Status Accept)), t')))"
proof (intro conjI)
  let ?mx = "mp_max_payload_size params" and ?d = "payload_digest (m_prims env) p"
  have "own_ok (m_prims env) me c svc ?mx (mempool_new me c params st svc)"
    by (simp add: own_ok_def mempool_new_def runner_new_def runner_ok_def Let_def)
  moreover have "\<forall>e \<in> set es. proper_event ?mx e"
    using assms(5,6) by (auto simp: proper_event_def)
  ultimately have "own_ok (m_prims env) me c svc ?mx s"
    using presD [OF own_ok_run [OF assms(1)]] assms(4) by (metis snd_conv)
  from step_sends [OF assms(1) this assms(7) assms(9) assms(8)]
  have p: "acceptable (m_prims env') me ?mx p" and "a = mempool_broadcast_addresses c me"
    by (simp_all add: assms(2))
  then show "a = mempool_broadcast_addresses c me" by simp
  let ?t = "snd (mempool_step env' CoreReceive t)"
  note received = receive_acceptable [OF p assms(10-12), unfolded assms(2)]
  have "in_store env' (m_store ?t) ?d" "?d \<in> set (pes_queue ?t)"
    using assms(3) by (simp_all add: received in_store_def store_laws_def hs_insert_def del: mempool_step.simps)
  with received show "\<exists>t'. mempool_step env' CoreReceive t = (Ok None, t') \<and> ?d \<in> set (pes_queue t')
      \<and> (\<forall>b. set (b_payload b) \<subseteq> {?d} \<longrightarrow>
            mempool_step env' (FromConsensus (MVerify b)) t' = (Ok (Some (Status Accept)), t'))"
    by (intro exI [of _ ?t]) (auto intro!: verify_stored simp del: mempool_step.simps)
qed

text \<open>Node 1 proposes a payload with one transaction, and node 2 receives it.\<close>

definition example_sent :: payload where
  "example_sent = signed_payload example_primitives example_service (PublicKey 1) [[7]]"

definition example_receiver :: "(bytes \<rightharpoonup> bytes) mempool" where
  "example_receiver = (mempool_new (PublicKey 2) (m_committee example_mempool) (m_parameters example_mempool)
     Map.empty example_service)\<lparr>core_channel := [PayloadMsg example_sent]\<rparr>"

lemma example_own_key: "own_key example_primitives (PublicKey 1) example_service"
  by (simp add: own_key_def)

lemma example_sends:
  "\<exists>s r s'. mempool_run example_mempool_env [ClientTransaction [7]] example_mempool = (Ok [], s)
     \<and> mempool_step example_mempool_env (FromConsensus (MGet 32)) s = (Ok r, s')
     \<and> m_network s = [] \<and> m_network s' = [(PayloadMsg example_sent, [])]"
  by (simp add: maker_step_def on_maker_def runner_add_eq handle_consensus_message_def attempt_def get_payload_empty
      payload_maker_make_def runner_make_eq process_own_payload_eq own_processed_def act_defs Let_def example_sent_def
      example_mempool_env_def example_mempool_def mempool_new_def runner_new_def mempool_broadcast_addresses_def)

lemma broadcast_payload_accepted_witness:
  "\<exists>t'. mempool_step example_mempool_env CoreReceive example_receiver = (Ok None, t') \<and> Digest 0 \<in> set (pes_queue t')
     \<and> mempool_step example_mempool_env (FromConsensus (MVerify waiting_block)) t' = (Ok (Some (Status Accept)), t')"
proof -
  obtain s r s' where s: "mempool_run example_mempool_env [ClientTransaction [7]] example_mempool = (Ok [], s)"
    "mempool_step example_mempool_env (FromConsensus (MGet 32)) s = (Ok r, s')"
    "m_network s = []" "m_network s' = [(PayloadMsg example_sent, [])]"
    using example_sends by blast
  have d: "payload_digest (m_prims example_mempool_env) example_sent = Digest 0"
    by (simp add: payload_digest_def example_mempool_env_def finalize32_def example_primitives_def)
  have "\<exists>t'. mempool_step example_mempool_env CoreReceive example_receiver = (Ok None, t')
      \<and> payload_digest (m_prims example_mempool_env) example_sent \<in> set (pes_queue t')
      \<and> (\<forall>b. set (b_payload b) \<subseteq> {payload_digest (m_prims example_mempool_env) example_sent} \<longrightarrow>
            mempool_step example_mempool_env (FromConsensus (MVerify b)) t' = (Ok (Some (Status Accept)), t'))"
    by (rule broadcast_payload_accepted [THEN conjunct2, OF _ refl example_store_laws s(1) [unfolded example_mempool_def] _ _ s(2)])
      (use s(3,4) in \<open>simp_all add: example_own_key example_receiver_def example_mempool_env_def example_mempool_def
        mempool_new_def committee_exists_def\<close>)
  moreover have "set (b_payload waiting_block) \<subseteq> {Digest 0}"
    by (simp add: waiting_block_def)
  ultimately show ?thesis
    unfolding d by blast
qed

end
