(* ===== verification/Availability.thy ===== *)
theory Availability
  imports Chain_Agreement Mempool_Node
begin

text \<open>
  What a node votes for is available: the payloads of a block are in the store of the node
  before its vote leaves, as long as the blocks handed back to the core come from its own
  tasks. The consensus core, the mempool core and the mempool synchronizer are composed here.
  The channel on which blocks are handed back is also that of the network, and a forged
  message on it gets a vote for any block.
\<close>

section \<open>Votes and the blocks they are for\<close>

definition vote_for :: "'db env \<Rightarrow> vote \<Rightarrow> block \<Rightarrow> bool" where
  "vote_for env v b \<longleftrightarrow> v_hash v = block_digest (prims env) b \<and> v_height v = b_height b
     \<and> v_epoch v = b_epoch b \<and> v_proposer v = b_author b"

text \<open>Every vote that was sent is for a block with the property \<open>A\<close>.\<close>

definition votes_in :: "'db env \<Rightarrow> (block \<Rightarrow> bool) \<Rightarrow> public_key \<Rightarrow> 'db core \<Rightarrow> bool" where
  "votes_in env A me s \<longleftrightarrow> name s = me \<and> (\<forall>v \<in> set (votes_sent s). \<exists>b. A b \<and> vote_for env v b)"

abbreviation "chain_votes_in env A me \<equiv> (\<lambda>sc. votes_in env A me (fst sc))"

lemma quiet_in: "quiet m \<Longrightarrow> pres (votes_in env A me) m"
  unfolding quiet_def pres_def votes_in_def votes_sent_def by auto

lemma on_core_in: "quiet m \<Longrightarrow> pres (chain_votes_in env A me) (on_core m)"
  by (rule pres_on_core) (use quiet_in in \<open>simp add: pres_def\<close>)

lemma commit_quiet_in:
  assumes "commit_quiet m"
  shows "pres (chain_votes_in env A me) m"
proof (unfold pres_def, intro allI impI)
  fix sc :: "'a core \<times> chain"
  assume ok: "votes_in env A me (fst sc)"
  obtain s c where sc: "sc = (s, c)" by (cases sc)
  have "commit_frame (name s) (votes_of (network_filter s)) (voted_view s) (ch_name c, ch_last_voted_height c) (snd (m (s, c)))"
    using assms presD [of "commit_frame (name s) (votes_of (network_filter s)) (voted_view s)
      (ch_name c, ch_last_voted_height c)" m "(s, c)"]
    by (simp add: commit_quiet_def commit_frame_def)
  then show "votes_in env A me (fst (snd (m sc)))"
    using ok by (auto simp: sc commit_frame_def votes_in_def votes_sent_def split: prod.splits)
qed

lemma modify_chain_in: "pres (chain_votes_in env A me) (modify_chain f)"
  by (rule pres_modify_chain) simp

lemma aggregate_in: "pres (chain_votes_in env A me) (chain_aggregate f)"
  by (rule pres_chain_aggregate) simp

lemma process_qc_in: "pres (chain_votes_in env A me) (process_qc q)"
  unfolding process_qc_def advance_height_def update_high_qc_def
  by (intro pres_rules on_core_in quiet_rules modify_chain_in)

lemma generate_proposal_in: "pres (chain_votes_in env A me) (generate_proposal env tag)"
  unfolding generate_proposal_def Let_def by (intro pres_rules on_core_in quiet_rules)

named_theorems in_rules "handlers that keep the votes to available blocks"

lemmas in_basic [in_rules] = on_core_in modify_chain_in aggregate_in process_qc_in generate_proposal_in
  commit_quiet_in [OF commit_quiet_commit]

lemma process_block_vote_in:
  assumes hv: "\<And>v. pres (chain_votes_in env A me) (hv v)" and own: "A b \<or> b_author b = me"
  shows "pres (chain_votes_in env A me) (process_block_vote env hv b)"
proof (unfold pres_def, intro allI impI)
  fix sc :: "'a core \<times> chain"
  assume ok: "votes_in env A me (fst sc)"
  obtain s c where sc: "sc = (s, c)" by (cases sc)
  obtain r s' c' where mv: "make_vote env b (s, c) = (r, (s', c'))"
    by (cases "make_vote env b (s, c)") auto
  note cs = make_vote_cases [OF mv]
  have s': "s' = s" using cs by simp
  have send: "votes_in env A me (fst (snd (on_core (transmit_hotstuff (VoteMsg v) (Some (v_proposer v))) (s, c'))))"
    if v: "r = Ok (Some v)" "v_proposer v \<noteq> name s" for v
  proof -
    have "vote_for env v b" "v_proposer v = b_author b"
      using cs v(1) by (auto simp: vote_for_def)
    moreover from this have "A b"
      using own v(2) ok by (auto simp: sc votes_in_def)
    ultimately show ?thesis
      using ok by (auto simp: sc votes_in_def on_core_def transmit_hotstuff_def act_defs votes_sent_def split: sum.split)
  qed
  show "votes_in env A me (fst (snd (process_block_vote env hv b sc)))"
    using ok send presD [OF hv, of "(s, c')"]
    by (auto simp: process_block_vote_def bind_def gets_def ret_def sc mv s' split: outcome.split option.split)
qed

lemma process_block_in:
  assumes "\<And>v. pres (chain_votes_in env A me) (hv v)" and "A b \<or> b_author b = me"
  shows "pres (chain_votes_in env A me) (process_block env hv b)"
  unfolding process_block_def process_block_commit_def
  by (intro pres_rules in_rules quiet_rules process_block_vote_in assms)

lemma pres_bind_known:
  assumes "pres I m" and "\<And>s x s'. I s \<Longrightarrow> m s = (Ok x, s') \<Longrightarrow> P x" and "\<And>x. P x \<Longrightarrow> pres I (f x)"
  shows "pres I (bind m f)"
  using assms unfolding pres_def bind_def by (fastforce split: prod.splits outcome.splits)

lemma with_proposal_in:
  assumes "\<And>b. b_author b = me \<Longrightarrow> pres (chain_votes_in env A me) (f b)"
  shows "pres (chain_votes_in env A me) (bind (generate_proposal env tag) f)"
proof (rule pres_bind_known [where P = "\<lambda>b. b_author b = me"])
  show "b_author b = me" if "votes_in env A me (fst sc)" "generate_proposal env tag sc = (Ok b, sc')" for sc b sc'
    using generate_proposal_author [of env tag "fst sc" "snd sc" b sc'] that by (simp add: votes_in_def)
qed (use assms in \<open>auto intro: generate_proposal_in\<close>)

lemma broadcast_propose_in:
  assumes "\<And>v. pres (chain_votes_in env A me) (hv v)" and "b_author b = me"
  shows "pres (chain_votes_in env A me) (broadcast_propose env hv b)"
  unfolding broadcast_propose_def by (intro pres_rules in_rules quiet_rules process_block_in) (use assms in auto)

lemma propose_in:
  assumes "\<And>v. pres (chain_votes_in env A me) (hv v)"
  shows "pres (chain_votes_in env A me) (bind (generate_proposal env tag) (broadcast_propose env hv))"
  by (intro with_proposal_in broadcast_propose_in assms)

lemma handle_vote_rec_in: "pres (chain_votes_in env A me) (handle_vote_rec env n v)"
proof (induction n arbitrary: v)
  case 0
  then show ?case by (simp add: pres_rules)
next
  case (Suc n)
  show ?case
    unfolding handle_vote_rec.simps by (intro pres_rules in_rules propose_in Suc.IH)
qed

lemma handle_vote_in [in_rules]: "pres (chain_votes_in env A me) (handle_vote env v)"
  unfolding handle_vote_def by (rule handle_vote_rec_in)

lemma verified_block_in:
  assumes "\<And>sent. mempool_verify env sent b = Accept \<Longrightarrow> A b"
  shows "pres (chain_votes_in env A me) (bind (on_core (driver_verify env b)) (\<lambda>available.
      if \<not> available then ret () else process_block env (handle_vote env) b))"
proof (rule pres_bind_known [where P = "\<lambda>available. available \<longrightarrow> A b"])
  show "available \<longrightarrow> A b" if "on_core (driver_verify env b) sc = (Ok available, sc')" for sc available sc'
    using that assms by (cases sc) (auto simp: on_core_def driver_verify_def act_defs split: payload_status.splits)
  show "pres (chain_votes_in env A me) (if \<not> available then ret () else process_block env (handle_vote env) b)"
    if "available \<longrightarrow> A b" for available
    using that by (auto intro!: process_block_in handle_vote_in pres_rules)
qed (intro in_rules quiet_rules)

lemma handle_proposal_in:
  assumes "\<And>sent. mempool_verify env sent b = Accept \<Longrightarrow> A b"
  shows "pres (chain_votes_in env A me) (handle_proposal env b)"
  unfolding handle_proposal_def
  by (intro verified_block_in pres_rules in_rules) (rule assms)

lemma handle_timeout_in [in_rules]: "pres (chain_votes_in env A me) (handle_timeout env t)"
  unfolding handle_timeout_def by (intro pres_rules in_rules quiet_rules quiet_modify; simp)

lemma local_timeout_in [in_rules]: "pres (chain_votes_in env A me) (local_timeout_round env)"
  unfolding local_timeout_round_def increase_last_voted_round_def by (intro pres_rules in_rules quiet_rules)

lemma next_epoch_in [in_rules]: "pres (chain_votes_in env A me) (next_epoch env h)"
  unfolding next_epoch_def
  by (intro pres_rules in_rules quiet_rules quiet_modify propose_in; simp add: reset_epoch_def Let_def)

lemma update_aba_phase_in [in_rules]: "pres (chain_votes_in env A me) (update_aba_phase env)"
  unfolding update_aba_phase_def
  by (intro pres_rules in_rules quiet_rules quiet_modify;
      simp add: enter_val_phase_def enter_aux_phase_def enter_coin_phase_def Let_def)

lemma check_timeout_in [in_rules]: "pres (chain_votes_in env A me) (check_timeout env)"
  unfolding check_timeout_def Let_def by (intro pres_rules in_rules quiet_rules quiet_modify; simp)

lemma with_chain_in:
  assumes "pres (chain_votes_in env A me) m"
  shows "pres (votes_in env A me) (with_chain k m)"
proof (unfold pres_def, intro allI impI)
  fix s
  assume ok: "votes_in env A me s"
  show "votes_in env A me (snd (with_chain k m s))"
  proof (cases "map_of (pubkey_to_chain s) k")
    case (Some c)
    obtain r s' c' where m: "m (s, c) = (r, (s', c'))"
      by (cases "m (s, c)") auto
    then have "votes_in env A me s'"
      using presD [OF assms, of "(s, c)"] ok by simp
    then show ?thesis
      using Some m by (simp add: with_chain_def set_chain_def votes_in_def votes_sent_def)
  qed (use ok in \<open>simp add: with_chain_def\<close>)
qed

text \<open>The block that an event hands to the core.\<close>

definition carries :: "event \<Rightarrow> block \<Rightarrow> bool" where
  "carries e b \<longleftrightarrow> e \<in> {CoreMsg (Propose b), CoreMsg (SyncReply b), CoreMsg (LoopBack b)}"

lemma core_step_in:
  assumes "\<And>sent b. carries e b \<Longrightarrow> mempool_verify env sent b = Accept \<Longrightarrow> A b" and "\<And>b. e = CoreMsg (LoopBack b) \<Longrightarrow> A b \<or> b_author b = me"
  shows "pres (votes_in env A me) (core_step env e)"
proof -
  have round: "pres (votes_in env A me) (core_round env h)" if "pres (votes_in env A me) h" for h
    unfolding core_round_def after_message_def
    by (intro pres_rules that with_chain_in in_rules quiet_in quiet_rules quiet_modify; simp)
  show ?thesis
  proof (cases e)
    case (CoreMsg m)
    have "pres (votes_in env A me) (handle_core_message env m)"
      using assms(1) [unfolded carries_def] assms(2) CoreMsg
      by (cases m) (auto intro!: pres_rules with_chain_in handle_proposal_in handle_vote_in process_block_in
          intro: quiet_in [OF quiet_handlers(3)])
    with round CoreMsg show ?thesis by simp
  next
    case (SmvbaMsg m)
    have "pres (votes_in env A me) (handle_smvba_message env m)"
      by (cases m) (auto intro!: pres_rules with_chain_in handle_timeout_in
          intro: quiet_in quiet_handlers quiet_handle_aba_val quiet_handle_coin_share)
    with round SmvbaMsg show ?thesis by simp
  qed (auto intro: quiet_in [OF quiet_modify])
qed

lemma core_run_in:
  assumes "\<And>sent e b. e \<in> set es \<Longrightarrow> carries e b \<Longrightarrow> mempool_verify env sent b = Accept \<Longrightarrow> A b"
    and "\<And>b. CoreMsg (LoopBack b) \<in> set es \<Longrightarrow> A b \<or> b_author b = me"
  shows "pres (votes_in env A me) (core_run env es)"
proof -
  have "pres (votes_in env A me) (core_loop env es)"
    using assms
  proof (induction es)
    case (Cons e es)
    have "pres (votes_in env A me) (core_step env e)"
      by (rule core_step_in) (use Cons.prems in auto)
    with Cons show ?case by (auto intro!: pres_rules)
  qed (simp add: pres_rules)
  then show ?thesis
    unfolding core_run_def first_proposal_def
    by (intro with_chain_in with_proposal_in broadcast_propose_in handle_vote_in pres_rules)
qed

section \<open>With the mempool\<close>

text \<open>The mempool has accepted \<open>b\<close> somewhere on its way from \<open>m0\<close> to \<open>m\<close>.\<close>

definition accepted :: "'db mempool_env \<Rightarrow> 'db mempool_node \<Rightarrow> 'db mempool_node \<Rightarrow> block \<Rightarrow> bool" where
  "accepted menv m0 m b \<longleftrightarrow> (\<exists>m1 c. (mnode_step menv)\<^sup>*\<^sup>* m0 m1
     \<and> mempool_step menv (FromConsensus (MVerify b)) (mn_core m1) = (Ok (Some (Status Accept)), c)
     \<and> (mnode_step menv)\<^sup>*\<^sup>* (m1\<lparr>mn_core := c\<rparr>) m)"

definition available :: "'db mempool_env \<Rightarrow> 'db mempool_node \<Rightarrow> block \<Rightarrow> bool" where
  "available menv m b \<longleftrightarrow> (\<forall>d \<in> set (b_payload b). in_store menv (m_store (mn_core m)) d)"

lemma mnode_ok_new: "store_laws env \<Longrightarrow> mnode_ok env (mnode_new nm c params st svc)"
  by (simp add: mnode_ok_def mnode_new_def asks_ok_def mempool_new_def mempool_sync_new_def)

lemma mnode_ok_steps: "(mnode_step env)\<^sup>*\<^sup>* s s' \<Longrightarrow> mnode_ok env s \<Longrightarrow> mnode_ok env s'"
  by (induction rule: rtranclp_induct) (auto intro: mnode_ok_step)

lemma available_steps:
  assumes "(mnode_step env)\<^sup>*\<^sup>* s s'" and "mnode_ok env s" and "available env s b"
  shows "available env s' b"
  using assms
proof (induction rule: rtranclp_induct)
  case (step s1 s2)
  have ok: "asks_ok env {} (mn_core s1)"
    using mnode_ok_steps [OF step.hyps(1) step.prems(1)] by (simp add: mnode_ok_def)
  have "in_store env (m_store (mn_core s2)) d" if "in_store env (m_store (mn_core s1)) d" for d
    using step.hyps(2)
  proof cases
    case (core e r c)
    with step_stored [OF ok that, of e] show ?thesis by simp
  qed (use that in simp_all)
  with step.IH step.prems show ?case by (auto simp: available_def)
qed

lemma accepted_available:
  assumes "mnode_ok env m0" and "accepted env m0 m b"
  shows "available env m b"
proof -
  obtain m1 c where m1: "(mnode_step env)\<^sup>*\<^sup>* m0 m1" "(mnode_step env)\<^sup>*\<^sup>* (m1\<lparr>mn_core := c\<rparr>) m"
    and step: "mempool_step env (FromConsensus (MVerify b)) (mn_core m1) = (Ok (Some (Status Accept)), c)"
    using assms(2) by (auto simp: accepted_def)
  have "missing_payloads env (m_store (mn_core m1)) (b_payload b) [] = Inr [] \<and> c = mn_core m1"
    using step by (auto simp: handle_consensus_message_def attempt_def verify_payload_def act_defs
        split: sum.splits if_splits)
  then have "available env (m1\<lparr>mn_core := c\<rparr>) b" and "m1\<lparr>mn_core := c\<rparr> = m1"
    by (auto simp: available_def dest!: missing_payloads_set)
  with m1 mnode_ok_steps [OF m1(1) assms(1)] show ?thesis
    by (auto intro: available_steps)
qed

text \<open>
  C11. Whatever a node receives, each vote it has sent is for a block it was given and whose
  payloads are in its store, when the mempool's answers are those of its own mempool and each
  block handed back on the core's channel comes from the mempool, was accepted by it before,
  or is the node's own.
\<close>

theorem voted_payloads_stored:
  fixes menv :: "'m mempool_env"
  assumes "store_laws menv" and run: "(mnode_step menv)\<^sup>*\<^sup>* (mnode_new me mc mparams mst msvc) m"
    and answers: "\<And>sent b. mempool_verify env sent b = Accept \<Longrightarrow> accepted menv (mnode_new me mc mparams mst msvc) m b"
    and handed_back: "\<And>b. CoreMsg (LoopBack b) \<in> set es \<Longrightarrow>
      b \<in> set (s_loopback (mn_sync m)) \<or> accepted menv (mnode_new me mc mparams mst msvc) m b \<or> b_author b = me"
    and "v \<in> set (votes_sent (snd (core_run env es (core_new me c params svc pks st leaders))))"
  shows "\<exists>b e. e \<in> set es \<and> carries e b \<and> vote_for env v b
    \<and> (\<forall>d \<in> set (b_payload b). in_store menv (m_store (mn_core m)) d)"
proof -
  note ok = mnode_ok_new [OF assms(1), of me mc mparams mst msvc]
  have returned: "available menv m b" if "b \<in> set (s_loopback (mn_sync m))" for b
    using mnode_ok_steps [OF run ok] that by (auto simp: mnode_ok_def available_def covers_def)
  let ?A = "\<lambda>b. (\<exists>e \<in> set es. carries e b) \<and> available menv m b"
  have "pres (votes_in env ?A me) (core_run env es)"
  proof (rule core_run_in)
    show "?A b" if "e \<in> set es" "carries e b" "mempool_verify env sent b = Accept" for sent e b
      using that accepted_available [OF ok answers] by blast
    show "?A b \<or> b_author b = me" if "CoreMsg (LoopBack b) \<in> set es" for b
      using that handed_back [OF that] returned accepted_available [OF ok] by (auto simp: carries_def)
  qed
  moreover have "votes_in env ?A me (core_new me c params svc pks st leaders)"
    by (simp add: votes_in_def votes_sent_def core_new_def votes_of_def map_filter_simps)
  ultimately have "votes_in env ?A me (snd (core_run env es (core_new me c params svc pks st leaders)))"
    by (rule presD)
  with assms(5) show ?thesis
    unfolding votes_in_def available_def by blast
qed

section \<open>A forged message\<close>

text \<open>
  C30. A LoopBack that comes from the network is not verified. When its block names another
  authority of the committee as author, whose chain the node has, carries the genesis
  certificate, is above the last vote for that chain and not of an epoch below the chain's,
  and there is no view change or the author does not lead the epoch, then a node whose key
  loads stores the block and sends the author its vote, whatever the block's signature and
  payload.
\<close>

theorem forged_loopback_voted:
  assumes "map_of (pubkey_to_chain s) (b_author b) = Some c"
    and "address (core_committee s) (b_author b) = Inr a" and "b_author b \<noteq> name s"
    and "get_leader (leader_elector s) (epoch s) = Some l" and "\<not> is_view_change s \<or> b_author b \<noteq> l"
    and "b_qc b = qc_genesis" and "ch_epoch c \<le> b_epoch b" and "ch_last_voted_height c < b_height b"
    and "\<And>d. signature_new (prims env) d (secret (core_signature_service s)) \<noteq> None"
  shows "\<exists>v s'. handle_core_message env (LoopBack b) s = (Ok (), s') \<and> vote_for env v b \<and> v_author v = name s
    \<and> network_filter s' = network_filter s @ [(VoteMsg v, [a])]
    \<and> store s' = db_put env (digest_to_vec (block_digest (prims env) b)) (serialize_block env b) (store s)"
proof -
  let ?v = "\<lparr>v_hash = block_digest (prims env) b, v_epoch = b_epoch b, v_height = b_height b, v_author = name s,
    v_proposer = b_author b, v_signature = default_signature\<rparr>"
  obtain sig where sig: "signature_new (prims env) (vote_digest (prims env) ?v) (secret (core_signature_service s)) = Some sig"
    using assms(9) by blast
  have genesis: "block_parent b = qc_hash qc_genesis" "block_parent block_genesis = qc_hash qc_genesis"
    "qc_eq qc_genesis qc_genesis" "b_height block_genesis = 0"
    using assms(6) by (simp_all add: block_parent_def block_genesis_def qc_eq_def)
  show ?thesis
    using assms(1-8) sig genesis
    by (auto simp: with_chain_def process_block_def store_block_def leader_of_def process_block_prepare_def get_ancestors_def
        get_parent_block_def get_block_def process_block_commit_def process_block_vote_def make_vote_def
        increase_last_voted_round_def vote_new_def request_signature_def transmit_hotstuff_def transmit_addresses_def
        act_defs plumbing_defs set_chain_def HOTSTUFF_def Let_def vote_for_def)
qed

text \<open>
  Node 1, whose mempool has the payload of a block of node 2 and accepts it, votes for it; and
  the same node votes for a block with an unknown payload under primitives for which no
  signature is valid, when it comes in a \<open>LoopBack\<close>.
\<close>

definition available_block :: block where
  "available_block = (example_block 2 1 [])\<lparr>b_payload := [Digest 0]\<rparr>"

definition accepting_env :: "(bytes \<times> bytes) list env" where
  "accepting_env = (example_env [] 1)\<lparr>mempool_verify := (\<lambda>_ b. if b = available_block then Accept else Wait)\<rparr>"

lemma accepting_env_fields [simp]:
  "prims accepting_env = example_primitives" "fuel accepting_env = 1"
  "mempool_get accepting_env ms mx = []"
  "mempool_verify accepting_env ms b = (if b = available_block then Accept else Wait)"
  "db_put accepting_env k v d = (k, v) # d" "db_get accepting_env k d = Inr (map_of d k)"
  "serialize_block accepting_env b = []" "deserialize_block accepting_env [] = Inl (BincodeError ''eof'')"
  by (simp_all add: accepting_env_def example_env_def)

lemma example_vote_sent:
  "votes_sent (snd (core_run accepting_env [CoreMsg (Propose available_block)] (start 1))) \<noteq> []"
  by (simp add: core_run_def run_eval available_block_def example_block_def del: signature_new.simps)

lemma voted_payloads_stored_witness:
  "\<exists>m v. (mnode_step example_mempool_env)\<^sup>*\<^sup>* example_node m
    \<and> v \<in> set (votes_sent (snd (core_run accepting_env [CoreMsg (Propose available_block)] (start 1))))
    \<and> vote_for accepting_env v available_block \<and> in_store example_mempool_env (m_store (mn_core m)) (Digest 0)"
proof -
  obtain m where m: "(mnode_step example_mempool_env)\<^sup>*\<^sup>* example_node m" "mn_core m = example_stored"
    using example_ready by blast
  have "mempool_step example_mempool_env (FromConsensus (MVerify available_block)) example_stored
      = (Ok (Some (Status Accept)), example_stored)"
    by (simp add: handle_consensus_message_def attempt_def verify_payload_def act_defs available_block_def
        example_mempool_env_def default_get_def example_stored_def)
  moreover have same: "m\<lparr>mn_core := example_stored\<rparr> = m"
    using m(2) by simp
  have "(mnode_step example_mempool_env)\<^sup>*\<^sup>* (m\<lparr>mn_core := example_stored\<rparr>) m"
    unfolding same by (rule rtranclp.rtrancl_refl)
  ultimately have accepts: "accepted example_mempool_env example_node m available_block"
    unfolding accepted_def using m by metis
  obtain v where v: "v \<in> set (votes_sent (snd (core_run accepting_env [CoreMsg (Propose available_block)] (start 1))))"
    using hd_in_set [OF example_vote_sent] by blast
  have "\<exists>b e. e \<in> set [CoreMsg (Propose available_block)] \<and> carries e b \<and> vote_for accepting_env v b
      \<and> (\<forall>d \<in> set (b_payload b). in_store example_mempool_env (m_store (mn_core m)) d)"
    by (rule voted_payloads_stored [OF example_store_laws m(1) [unfolded example_node_def] _ _ v [unfolded start_def]])
      (use accepts in \<open>auto simp: example_node_def split: if_splits\<close>)
  then have "vote_for accepting_env v available_block" "in_store example_mempool_env (m_store (mn_core m)) (Digest 0)"
    by (auto simp: carries_def available_block_def)
  with m(1) v show ?thesis
    by blast
qed

definition forged_block :: block where
  "forged_block = (example_block 2 5 [])\<lparr>b_payload := [Digest 9]\<rparr>"

definition distrusting_env :: "(bytes \<times> bytes) list env" where
  "distrusting_env = accepting_env\<lparr>prims := example_primitives\<lparr>verify_strict := (\<lambda>_ _ _. False)\<rparr>\<rparr>"

lemma distrusting_env_fields [simp]:
  "sha512 (prims distrusting_env) = sha512 example_primitives" "signature_verify (prims distrusting_env) sg d k \<noteq> Inr ()"
  "signature_new (prims distrusting_env) d (SecretKey 7) = Some default_signature"
  by (simp_all add: distrusting_env_def signature_verify_def example_primitives_def default_signature_def Let_def)

lemma forged_loopback_voted_witness:
  "block_verify (prims distrusting_env) example_committee forged_block \<noteq> Inr ()
    \<and> (\<exists>v s'. handle_core_message distrusting_env (LoopBack forged_block) (start 1) = (Ok (), s')
        \<and> vote_for distrusting_env v forged_block \<and> VoteMsg v \<in> fst ` set (network_filter s'))"
proof -
  have "block_verify (prims distrusting_env) example_committee forged_block \<noteq> Inr ()"
    by (auto simp: block_verify_def rbind_eq_Inr from_crypto_def split: sum.splits)
  moreover obtain a where a: "address example_committee (PublicKey 2) = Inr a"
    by (auto simp: address_def example_authorities)
  have "\<exists>v s'. handle_core_message distrusting_env (LoopBack forged_block) (start 1) = (Ok (), s')
      \<and> vote_for distrusting_env v forged_block \<and> v_author v = name (start 1)
      \<and> network_filter s' = network_filter (start 1) @ [(VoteMsg v, [a])]
      \<and> store s' = db_put distrusting_env (digest_to_vec (block_digest (prims distrusting_env) forged_block))
          (serialize_block distrusting_env forged_block) (store (start 1))"
    by (rule forged_loopback_voted [where c = "chain_new (PublicKey 2) example_committee" and l = "PublicKey 1"])
      (use a in \<open>simp_all add: forged_block_def example_block_def example_leader chain_new_def word_le_nat_alt word_less_nat_alt
        del: signature_new.simps\<close>)
  ultimately show ?thesis by fastforce
qed

end
