(* ===== verification/Block_Sync.thy ===== *)
theory Block_Sync
  imports Core_State Example_Setup
begin

text \<open>
  The background task of \<^verbatim>\<open>consensus/src/synchronizer.rs\<close>, which the core asks for
  blocks it has not got: it requests each missing block once, waits until the store has it,
  and hands back the block that needed it. A round of its \<open>select!\<close> is an event; the store
  is shared with the core, whose writes are events too. A future made by \<open>waiter\<close> is a
  \<open>block_waiter\<close>, with the store's answer once it is there. Time is in milliseconds.
\<close>

section \<open>State\<close>

record block_waiter =
  bw_on :: digest
  bw_block :: "block option"
  bw_answer :: "(store_error + bytes) option"

record 'db block_sync =
  bs_name :: public_key
  bs_committee :: committee
  bs_store :: 'db
  bs_retry_delay :: u64
  bs_waiting :: "block_waiter list"
  bs_pending :: "(digest \<times> 128 word \<times> block option) list"
  bs_demands :: "digest \<rightharpoonup> digest set"
  bs_core_channel :: "consensus_message list"
  bs_network :: "(consensus_message \<times> socket_addr list) list"

definition block_sync_new :: "public_key \<Rightarrow> committee \<Rightarrow> 'db \<Rightarrow> u64 \<Rightarrow> 'db block_sync" where
  "block_sync_new nm c st delay = \<lparr>bs_name = nm, bs_committee = c, bs_store = st,
     bs_retry_delay = delay, bs_waiting = [], bs_pending = [], bs_demands = Map.empty,
     bs_core_channel = [], bs_network = []\<rparr>"

type_synonym ('db, 'a) block_sync_act = "('db block_sync, consensus_error, 'a) act"

section \<open>Operations\<close>

text \<open>\<open>transmit(...).await.unwrap()\<close>.\<close>

definition request_block :: "digest \<Rightarrow> public_key option \<Rightarrow> ('db, unit) block_sync_act" where
  "request_block d to = bind (gets id) (\<lambda>s.
     case transmit_addresses (bs_committee s) (bs_name s) to HOTSTUFF of
       Inl e \<Rightarrow> panic UnwrapNone
     | Inr addrs \<Rightarrow> modify (\<lambda>s. s\<lparr>bs_network := bs_network s @ [(SyncRequest d (bs_name s), addrs)]\<rparr>))"

definition register :: "primitives \<Rightarrow> 128 word \<Rightarrow> digest \<Rightarrow> block option \<Rightarrow> 'db block_sync \<Rightarrow> 'db block_sync"
  where
  "register cr now d blk s = s\<lparr>
     bs_waiting := bs_waiting s @ [\<lparr>bw_on = d, bw_block = blk, bw_answer = None\<rparr>],
     bs_pending := AList.update d (now, blk) (bs_pending s),
     bs_demands := (case blk of
         None \<Rightarrow> bs_demands s
       | Some b \<Rightarrow> (bs_demands s)(block_digest cr b \<mapsto>
           insert d (case bs_demands s (block_digest cr b) of None \<Rightarrow> {} | Some ds \<Rightarrow> ds)))\<rparr>"

definition has_block :: "'db env \<Rightarrow> digest \<Rightarrow> 'db \<Rightarrow> bool" where
  "has_block env d st = (case db_get env (digest_to_vec d) st of Inr (Some _) \<Rightarrow> True | _ \<Rightarrow> False)"

fun handle_requests :: "'db env \<Rightarrow> 128 word \<Rightarrow> (public_key \<times> digest) list \<Rightarrow> block option \<Rightarrow>
    ('db, unit) block_sync_act" where
  "handle_requests env now [] blk = ret ()"
| "handle_requests env now ((author, d) # reqs) blk = bind (gets id) (\<lambda>s.
     bind (whenever (\<not> has_block env d (bs_store s) \<and> map_of (bs_pending s) d = None)
       (bind (modify (register (prims env) now d blk)) (\<lambda>_. request_block d (Some author)))) (\<lambda>_.
     handle_requests env now reqs blk))"

text \<open>A future that has come to its end; an error is logged.\<close>

definition handle_arrival :: "'db env \<Rightarrow> block \<Rightarrow> block option \<Rightarrow> ('db, unit) block_sync_act" where
  "handle_arrival env arrived blk =
     bind (modify (\<lambda>s. s\<lparr>bs_pending := AList.delete (block_digest (prims env) arrived) (bs_pending s)\<rparr>)) (\<lambda>_.
     case blk of
       None \<Rightarrow> ret ()
     | Some b \<Rightarrow> (let d = block_digest (prims env) b in
         bind (gets (\<lambda>s. bs_demands s d)) (\<lambda>x.
         bind (unwrap x) (\<lambda>ds.
         let ds' = ds - {block_digest (prims env) arrived} in
         if ds' = {} then modify (\<lambda>s. s\<lparr>bs_demands := (bs_demands s)(d := None),
                                        bs_core_channel := bs_core_channel s @ [LoopBack b]\<rparr>)
         else modify (\<lambda>s. s\<lparr>bs_demands := (bs_demands s)(d \<mapsto> ds')\<rparr>)))))"

fun retry :: "128 word \<Rightarrow> (digest \<times> 128 word \<times> block option) list \<Rightarrow> ('db, unit) block_sync_act" where
  "retry now [] = ret ()"
| "retry now ((d, t, blk) # ps) = bind (gets bs_retry_delay) (\<lambda>delay.
     bind (whenever (t + ucast delay < now) (request_block d None)) (\<lambda>_. retry now ps))"

section \<open>The loop\<close>

text \<open>
  \<open>Answered d r\<close>: the store answers the \<open>notify_read\<close> of the waiters on \<open>d\<close>;
  \<open>NextWaiter i\<close>: the future at position \<open>i\<close> is taken, if it is ready.
\<close>

datatype block_sync_event =
    Request "(public_key \<times> digest) list" "block option" "128 word"
  | Answered digest "store_error + bytes"
  | NextWaiter nat
  | RetryTimer "128 word"
  | Written bytes bytes

definition waiter_result :: "'db env \<Rightarrow> store_error + bytes \<Rightarrow> block consensus_result" where
  "waiter_result env answer = rbind (from_store answer) (\<lambda>bs. from_bincode (deserialize_block env bs))"

fun block_sync_step :: "'db env \<Rightarrow> block_sync_event \<Rightarrow> ('db, unit) block_sync_act" where
  "block_sync_step env (Request reqs blk now) = handle_requests env now reqs blk"
| "block_sync_step env (Answered d r) = modify (\<lambda>s. s\<lparr>bs_waiting := map (\<lambda>w.
     if bw_on w = d \<and> bw_answer w = None then w\<lparr>bw_answer := Some r\<rparr> else w) (bs_waiting s)\<rparr>)"
| "block_sync_step env (NextWaiter i) = bind (gets bs_waiting) (\<lambda>ws.
     if i < length ws then (case bw_answer (ws ! i) of
         None \<Rightarrow> ret ()
       | Some answer \<Rightarrow> bind (modify (\<lambda>s. s\<lparr>bs_waiting := take i ws @ drop (Suc i) ws\<rparr>)) (\<lambda>_.
           case waiter_result env answer of
             Inl e \<Rightarrow> ret ()
           | Inr arrived \<Rightarrow> handle_arrival env arrived (bw_block (ws ! i))))
     else ret ())"
| "block_sync_step env (RetryTimer now) = bind (gets bs_pending) (\<lambda>ps. retry now ps)"
| "block_sync_step env (Written k v) = modify (\<lambda>s. s\<lparr>bs_store := db_put env k v (bs_store s)\<rparr>)"

fun block_sync_run :: "'db env \<Rightarrow> block_sync_event list \<Rightarrow> ('db, unit) block_sync_act" where
  "block_sync_run env [] = ret ()"
| "block_sync_run env (e # es) = bind (block_sync_step env e) (\<lambda>_. block_sync_run env es)"

section \<open>What the task keeps in order\<close>

text \<open>
  One waiter per digest, each pending, and each that holds a block on the list of demands
  of that block; a demand list is never empty. With answers that hold the block asked for,
  no \<open>unwrap\<close> of the task fails.
\<close>

definition tidy :: "'db env \<Rightarrow> 'db block_sync \<Rightarrow> bool" where
  "tidy env s \<longleftrightarrow> distinct (map bw_on (bs_waiting s))
     \<and> (\<forall>w \<in> set (bs_waiting s). map_of (bs_pending s) (bw_on w) \<noteq> None
          \<and> (\<forall>b. bw_block w = Some b \<longrightarrow> (\<exists>ds. bs_demands s (block_digest (prims env) b) = Some ds \<and> bw_on w \<in> ds))
          \<and> (\<forall>bs arrived. bw_answer w = Some (Inr bs) \<longrightarrow> deserialize_block env bs = Inr arrived \<longrightarrow>
               block_digest (prims env) arrived = bw_on w))"

definition honest_event :: "'db env \<Rightarrow> committee \<Rightarrow> block_sync_event \<Rightarrow> bool" where
  "honest_event env c e = (case e of
     Request reqs blk now \<Rightarrow> (\<forall>(author, d) \<in> set reqs. author \<in> set (members c))
   | Answered d (Inr bs) \<Rightarrow> (case deserialize_block env bs of
       Inl x \<Rightarrow> True | Inr arrived \<Rightarrow> block_digest (prims env) arrived = d)
   | _ \<Rightarrow> True)"

lemma tidyD:
  assumes "tidy env s"
  shows "distinct (map bw_on (bs_waiting s))"
    and "w \<in> set (bs_waiting s) \<Longrightarrow> map_of (bs_pending s) (bw_on w) \<noteq> None"
    and "w \<in> set (bs_waiting s) \<Longrightarrow> bw_block w = Some b \<Longrightarrow>
           \<exists>ds. bs_demands s (block_digest (prims env) b) = Some ds \<and> bw_on w \<in> ds"
    and "w \<in> set (bs_waiting s) \<Longrightarrow> bw_answer w = Some (Inr bs) \<Longrightarrow>
           deserialize_block env bs = Inr arrived \<Longrightarrow> block_digest (prims env) arrived = bw_on w"
  using assms unfolding tidy_def by blast+

lemma tidyI:
  assumes "distinct (map bw_on (bs_waiting s))"
    and "\<And>w. w \<in> set (bs_waiting s) \<Longrightarrow> map_of (bs_pending s) (bw_on w) \<noteq> None"
    and "\<And>w b. w \<in> set (bs_waiting s) \<Longrightarrow> bw_block w = Some b \<Longrightarrow>
           \<exists>ds. bs_demands s (block_digest (prims env) b) = Some ds \<and> bw_on w \<in> ds"
    and "\<And>w bs arrived. w \<in> set (bs_waiting s) \<Longrightarrow> bw_answer w = Some (Inr bs) \<Longrightarrow>
           deserialize_block env bs = Inr arrived \<Longrightarrow> block_digest (prims env) arrived = bw_on w"
  shows "tidy env s"
  using assms unfolding tidy_def by blast

abbreviation inv :: "'db env \<Rightarrow> committee \<Rightarrow> 'db block_sync \<Rightarrow> bool" where
  "inv env c s \<equiv> tidy env s \<and> bs_committee s = c"

lemma address_member: "k \<in> set (members c) \<Longrightarrow> \<exists>a. address c k = Inr a"
  by (auto simp: address_def members_def dest: weak_map_of_SomeI split: option.split)

lemma wp_request_block:
  assumes "to = None \<or> the to \<in> set (members (bs_committee s))"
    and "\<And>net. Q () (s\<lparr>bs_network := net\<rparr>)"
  shows "wp (request_block d to) Q E s"
  using assms address_member [of "the to" "bs_committee s"]
  by (auto simp: request_block_def transmit_addresses_def HOTSTUFF_def split: option.splits sum.splits)

lemma tidy_network [simp]: "tidy env (s\<lparr>bs_network := net\<rparr>) = tidy env s"
  by (simp add: tidy_def)

lemma tidy_register:
  assumes "tidy env s" and "map_of (bs_pending s) d = None"
  shows "tidy env (register (prims env) now d blk s)"
proof -
  have "d \<notin> bw_on ` set (bs_waiting s)"
    using assms by (auto simp: tidy_def)
  then show ?thesis
    using assms(1) by (auto simp: tidy_def register_def split: option.splits)
qed

lemma wp_handle_requests:
  "inv env c s \<Longrightarrow> \<forall>(author, d) \<in> set reqs. author \<in> set (members c) \<Longrightarrow>
   wp (handle_requests env now reqs blk) (\<lambda>_. inv env c) (\<lambda>_. False) s"
proof (induction env now reqs blk arbitrary: s rule: handle_requests.induct)
  case (2 env now author d reqs blk)
  show ?case
  proof (cases "\<not> has_block env d (bs_store s) \<and> map_of (bs_pending s) d = None")
    case True
    have "wp (request_block d (Some author)) (\<lambda>_. wp (handle_requests env now reqs blk) (\<lambda>_. inv env c) (\<lambda>_. False))
        (\<lambda>_. False) (register (prims env) now d blk s)"
    proof (rule wp_request_block)
      show "Some author = None \<or> the (Some author) \<in> set (members (bs_committee (register (prims env) now d blk s)))"
        using 2 by (simp add: register_def)
      show "wp (handle_requests env now reqs blk) (\<lambda>_. inv env c) (\<lambda>_. False)
          (register (prims env) now d blk s\<lparr>bs_network := net\<rparr>)" for net
        using 2 True tidy_register [of env s d now blk] by (intro 2(1)) (auto simp: register_def)
    qed
    with True show ?thesis by simp
  next
    case False
    with 2 show ?thesis by (auto simp del: not_None_eq)
  qed
qed simp

lemma wp_retry:
  "inv env c s \<Longrightarrow> wp (retry now ps) (\<lambda>_. inv env c) (\<lambda>_. False) s"
proof (induction now ps arbitrary: s rule: retry.induct)
  case (2 now d t blk ps)
  then show ?case by (auto intro!: wp_request_block)
qed simp

lemma remove_middle:
  "distinct (map f (xs @ x # ys)) \<Longrightarrow> set (xs @ ys) = {w \<in> set (xs @ x # ys). f w \<noteq> f x}"
  unfolding distinct_map inj_on_def by auto

lemma remove_nth:
  assumes "i < length ws" and "distinct (map f ws)"
  shows "distinct (map f (take i ws @ drop (Suc i) ws))"
    and "set (take i ws @ drop (Suc i) ws) = {w \<in> set ws. f w \<noteq> f (ws ! i)}"
proof -
  note ws = id_take_nth_drop [OF assms(1)]
  have d: "distinct (map f (take i ws @ ws ! i # drop (Suc i) ws))"
    using assms(2) ws by simp
  then show "distinct (map f (take i ws @ drop (Suc i) ws))" by auto
  show "set (take i ws @ drop (Suc i) ws) = {w \<in> set ws. f w \<noteq> f (ws ! i)}"
    using remove_middle [OF d] ws by simp
qed

text \<open>The waiter that is taken, and what is left of the state.\<close>

lemma wp_handle_arrival:
  assumes "tidy env s" and "i < length (bs_waiting s)" and "bs_waiting s ! i = w"
    and "block_digest (prims env) arrived = bw_on w" and "bs_committee s = c"
  shows "wp (handle_arrival env arrived (bw_block w)) (\<lambda>_. inv env c) (\<lambda>_. False)
    (s\<lparr>bs_waiting := take i (bs_waiting s) @ drop (Suc i) (bs_waiting s)\<rparr>)"
proof -
  let ?ws = "take i (bs_waiting s) @ drop (Suc i) (bs_waiting s)"
  have w: "w \<in> set (bs_waiting s)"
    using assms(2,3) by auto
  note T = tidyD [OF assms(1)]
  note rest = remove_nth [OF assms(2) T(1), unfolded assms(3)]
  have v: "v \<in> set (bs_waiting s)" "bw_on v \<noteq> bw_on w" if "v \<in> set ?ws" for v
    using that unfolding rest(2) by simp_all
  have taken: "tidy env t"
    if t: "bs_waiting t = ?ws" "bs_pending t = AList.delete (bw_on w) (bs_pending s)"
      and dem: "\<And>u b. u \<in> set ?ws \<Longrightarrow> bw_block u = Some b \<Longrightarrow>
        \<exists>ds. bs_demands t (block_digest (prims env) b) = Some ds \<and> bw_on u \<in> ds" for t
  proof (rule tidyI)
    show "distinct (map bw_on (bs_waiting t))" using rest(1) t(1) by simp
    show "map_of (bs_pending t) (bw_on u) \<noteq> None" if "u \<in> set (bs_waiting t)" for u
      using T(2) [OF v(1)] v(2) that t by (simp add: delete_conv)
    show "\<exists>ds. bs_demands t (block_digest (prims env) b) = Some ds \<and> bw_on u \<in> ds"
      if "u \<in> set (bs_waiting t)" "bw_block u = Some b" for u b
      using dem that t(1) by metis
    show "block_digest (prims env) arrived = bw_on u"
      if "u \<in> set (bs_waiting t)" "bw_answer u = Some (Inr bs)" "deserialize_block env bs = Inr arrived" for u bs arrived
      using T(4) [OF v(1) that(2,3)] that(1) t(1) by simp
  qed
  let ?s = "s\<lparr>bs_waiting := ?ws, bs_pending := AList.delete (bw_on w) (bs_pending s)\<rparr>"
  show ?thesis
  proof (cases "bw_block w")
    case None
    have "tidy env ?s"
      using T(3) v(1) by (intro taken) simp_all
    with None assms(4,5) show ?thesis by (simp add: handle_arrival_def)
  next
    case (Some b)
    let ?d = "block_digest (prims env) b"
    obtain ds where ds: "bs_demands s ?d = Some ds" "bw_on w \<in> ds"
      using T(3) [OF w Some] by blast
    have kept: "tidy env (?s\<lparr>bs_demands := (bs_demands s)(?d := x), bs_core_channel := ch\<rparr>)"
      if x: "ds - {bw_on w} \<noteq> {} \<Longrightarrow> x = Some (ds - {bw_on w})" for x ch
    proof (rule taken)
      fix u b' assume u: "u \<in> set ?ws" "bw_block u = Some b'"
      obtain es where es: "bs_demands s (block_digest (prims env) b') = Some es" "bw_on u \<in> es"
        using T(3) [OF v(1) [OF u(1)] u(2)] by blast
      show "\<exists>es. bs_demands (?s\<lparr>bs_demands := (bs_demands s)(?d := x), bs_core_channel := ch\<rparr>)
          (block_digest (prims env) b') = Some es \<and> bw_on u \<in> es"
      proof (cases "block_digest (prims env) b' = ?d")
        case True
        with es ds v(2) [OF u(1)] have "bw_on u \<in> ds - {bw_on w}" by simp
        with x True show ?thesis by auto
      next
        case False
        with es show ?thesis by simp
      qed
    qed simp_all
    show ?thesis
    proof (cases "ds - {bw_on w} = {}")
      case True
      with kept [of None "bs_core_channel s @ [LoopBack b]"] Some ds assms(4,5) show ?thesis
        by (simp add: handle_arrival_def Let_def)
    next
      case False
      with kept [of "Some (ds - {bw_on w})" "bs_core_channel s"] Some ds assms(4,5) show ?thesis
        by (simp add: handle_arrival_def Let_def)
    qed
  qed
qed

lemma wp_block_sync_step:
  assumes "inv env c s" and "honest_event env c e"
  shows "wp (block_sync_step env e) (\<lambda>_. inv env c) (\<lambda>_. False) s"
proof (cases e)
  case (Request reqs blk now)
  with assms show ?thesis by (simp add: honest_event_def wp_handle_requests)
next
  case (Answered d r)
  let ?f = "\<lambda>w. if bw_on w = d \<and> bw_answer w = None then w\<lparr>bw_answer := Some r\<rparr> else w"
  have on: "bw_on (?f w) = bw_on w" "bw_block (?f w) = bw_block w" for w by auto
  note T = tidyD [of env s]
  have "tidy env (s\<lparr>bs_waiting := map ?f (bs_waiting s)\<rparr>)"
  proof (rule tidyI)
    show "block_digest (prims env) arrived = bw_on u"
      if "u \<in> set (bs_waiting (s\<lparr>bs_waiting := map ?f (bs_waiting s)\<rparr>))" "bw_answer u = Some (Inr bs)"
        "deserialize_block env bs = Inr arrived" for u bs arrived
      using that T(4) assms Answered by (auto simp: honest_event_def split: if_splits)
  next
    have "map bw_on (map ?f (bs_waiting s)) = map bw_on (bs_waiting s)"
      using on(1) by (simp add: comp_def)
    then show "distinct (map bw_on (bs_waiting (s\<lparr>bs_waiting := map ?f (bs_waiting s)\<rparr>)))"
      using T(1) assms(1) by (simp del: map_map)
  qed (use T assms on in auto)
  with assms Answered show ?thesis by simp
next
  case (NextWaiter i)
  show ?thesis
  proof (cases "i < length (bs_waiting s) \<and> bw_answer (bs_waiting s ! i) \<noteq> None")
    case True
    then obtain answer where i: "i < length (bs_waiting s)" "bw_answer (bs_waiting s ! i) = Some answer"
      by auto
    let ?s = "s\<lparr>bs_waiting := take i (bs_waiting s) @ drop (Suc i) (bs_waiting s)\<rparr>"
    note T = tidyD [of env s]
    have t: "tidy env ?s"
      using T assms(1) remove_nth [OF i(1), of bw_on]
      by (intro tidyI) (auto simp del: set_append map_append)
    show ?thesis
    proof (cases "waiter_result env answer")
      case (Inl err)
      with i t assms(1) NextWaiter show ?thesis by simp
    next
      case (Inr arrived)
      then obtain bs where "answer = Inr bs" "deserialize_block env bs = Inr arrived"
        by (auto simp: waiter_result_def rbind_eq_Inr)
      then have "block_digest (prims env) arrived = bw_on (bs_waiting s ! i)"
        using T(4) assms(1) i by auto
      from wp_handle_arrival [OF _ i(1) refl this] Inr i assms(1) NextWaiter
      show ?thesis by simp
    qed
  next
    case False
    with assms NextWaiter show ?thesis by (auto split: option.split)
  qed
next
  case (RetryTimer now)
  with assms show ?thesis by (simp add: wp_retry)
next
  case (Written k v)
  with assms show ?thesis by (simp add: tidy_def)
qed

lemma wp_block_sync_run:
  "inv env c s \<Longrightarrow> \<forall>e \<in> set es. honest_event env c e \<Longrightarrow>
   wp (block_sync_run env es) (\<lambda>_. inv env c) (\<lambda>_. False) s"
proof (induction es arbitrary: s)
  case (Cons e es)
  then show ?case
    by (auto intro!: wp_mono [OF wp_block_sync_step])
qed simp

text \<open>
  C20. The background task of the consensus synchronizer never panics, whatever requests,
  arrivals, retries and writes it sees, as long as it asks authorities of the committee and a
  stored block has the digest it is stored under; and its waiters, pending digests and demand
  lists stay consistent: one waiter per digest, each pending, each on the demand list of the
  block that needs it.
\<close>

theorem block_sync_never_panics:
  assumes "\<forall>e \<in> set es. honest_event env c e"
  shows "\<exists>s. block_sync_run env es (block_sync_new nm c st delay) = (Ok (), s) \<and> tidy env s"
proof -
  have "wp (block_sync_run env es) (\<lambda>_. inv env c) (\<lambda>_. False) (block_sync_new nm c st delay)"
    by (rule wp_block_sync_run [OF _ assms]) (simp add: tidy_def block_sync_new_def)
  then show ?thesis
    by (auto simp: wp_def split: prod.splits outcome.splits)
qed

section \<open>A block that waits for what another block waits for\<close>

definition not_waited :: "block \<Rightarrow> nat \<Rightarrow> 'db block_sync \<Rightarrow> bool" where
  "not_waited b n s \<longleftrightarrow> (\<forall>w \<in> set (bs_waiting s). bw_block w \<noteq> Some b)
     \<and> count_list (bs_core_channel s) (LoopBack b) = n"

lemma pres_request_block [pres_rules]: "pres (not_waited b n) (request_block d to)"
  unfolding request_block_def
  by (intro pres_rules) (auto simp: not_waited_def intro!: pres_modify pres_panic split: sum.split)

lemma pres_handle_requests:
  "blk \<noteq> Some b \<Longrightarrow> pres (not_waited b n) (handle_requests env now reqs blk)"
  by (induction env now reqs blk rule: handle_requests.induct)
    (auto simp: not_waited_def register_def intro!: pres_rules pres_modify)

lemma pres_handle_arrival:
  "blk \<noteq> Some b \<Longrightarrow> pres (not_waited b n) (handle_arrival env arrived blk)"
  unfolding handle_arrival_def Let_def
  by (intro pres_rules pres_modify) (auto simp: not_waited_def)

lemma pres_retry: "pres (not_waited b n) (retry now ps)"
  by (induction now ps rule: retry.induct) (auto intro!: pres_rules)

lemma pres_block_sync_step:
  assumes "\<forall>reqs now. e \<noteq> Request reqs (Some b) now"
  shows "pres (not_waited b n) (block_sync_step env e)"
proof (cases e)
  case (Request reqs blk now)
  with assms show ?thesis by (auto intro!: pres_handle_requests)
next
  case (NextWaiter i)
  have "not_waited b n (snd (block_sync_step env (NextWaiter i) s))" if I: "not_waited b n s" for s
  proof (cases "i < length (bs_waiting s)")
    case True
    let ?w = "bs_waiting s ! i"
    let ?s = "s\<lparr>bs_waiting := take i (bs_waiting s) @ drop (Suc i) (bs_waiting s)\<rparr>"
    have "?w \<in> set (bs_waiting s)" using True by simp
    then have w: "bw_block ?w \<noteq> Some b" using I by (auto simp: not_waited_def)
    have "not_waited b n ?s"
      using I by (auto simp: not_waited_def dest: in_set_takeD in_set_dropD)
    with presD [OF pres_handle_arrival [OF w], of n ?s env] True I show ?thesis
      by (simp add: act_defs split: option.split sum.split)
  next
    case False
    with I show ?thesis by (simp add: act_defs)
  qed
  with NextWaiter show ?thesis by (simp add: pres_def)
qed (auto simp: not_waited_def intro!: pres_rules pres_modify pres_retry split: if_splits)

lemma pres_block_sync_run:
  "\<forall>e \<in> set es. \<forall>reqs now. e \<noteq> Request reqs (Some b) now \<Longrightarrow> pres (not_waited b n) (block_sync_run env es)"
  by (induction es) (auto intro!: pres_rules pres_block_sync_step)

lemma handle_requests_pending:
  "\<forall>(author, d) \<in> set reqs. map_of (bs_pending s) d \<noteq> None \<Longrightarrow> handle_requests env now reqs blk s = (Ok (), s)"
proof (induction env now reqs blk rule: handle_requests.induct)
  case (2 env now author d reqs blk)
  then have "map_of (bs_pending s) d \<noteq> None" by simp
  with 2 show ?case by (auto simp: act_defs simp del: not_None_eq)
qed (simp add: ret_def)

text \<open>
  C21. A block whose missing digests are all requested already for other blocks is not
  registered: whatever happens next, short of a new request for it, the task never hands it
  back to the core.
\<close>

theorem second_waiter_never_released:
  assumes "\<forall>(author, d) \<in> set reqs. map_of (bs_pending s) d \<noteq> None"
    and "\<forall>w \<in> set (bs_waiting s). bw_block w \<noteq> Some b"
    and "\<forall>e \<in> set es. \<forall>reqs now. e \<noteq> Request reqs (Some b) now"
    and "block_sync_run env (Request reqs (Some b) now # es) s = (r, s')"
  shows "count_list (bs_core_channel s') (LoopBack b) = count_list (bs_core_channel s) (LoopBack b)"
proof -
  have "block_sync_run env es s = (r, s')"
    using assms(4) handle_requests_pending [OF assms(1)] by (simp add: bind_def)
  moreover have "not_waited b (count_list (bs_core_channel s) (LoopBack b)) s"
    using assms(2) by (simp add: not_waited_def)
  ultimately have "not_waited b (count_list (bs_core_channel s) (LoopBack b)) s'"
    using presD [OF pres_block_sync_run [OF assms(3)]] by (metis snd_conv)
  then show ?thesis by (simp add: not_waited_def)
qed

text \<open>The first block to ask is released when the block it asked for arrives.\<close>

lemma first_waiter_released:
  assumes "bs_waiting s = []" and "bs_demands s (block_digest (prims env) b) = None"
    and "map_of (bs_pending s) d = None" and "\<not> has_block env d (bs_store s)"
    and "author \<in> set (members (bs_committee s))"
    and "deserialize_block env bs = Inr arrived" and "block_digest (prims env) arrived = d"
  shows "\<exists>s'. block_sync_run env [Request [(author, d)] (Some b) now, Answered d (Inr bs), NextWaiter 0] s = (Ok (), s')
     \<and> bs_core_channel s' = bs_core_channel s @ [LoopBack b]"
proof -
  obtain a where "address (bs_committee s) author = Inr a"
    using address_member [OF assms(5)] by blast
  with assms show ?thesis
    by (simp add: request_block_def transmit_addresses_def HOTSTUFF_def register_def waiter_result_def
        from_store_def from_bincode_def handle_arrival_def act_defs Let_def)
qed

section \<open>Examples\<close>

definition example_sync_env :: "(bytes \<rightharpoonup> bytes) env" where
  "example_sync_env = \<lparr>prims = example_primitives, db_put = default_put, db_get = default_get,
     serialize_block = (\<lambda>b. []), deserialize_block = (\<lambda>bs. Inr (example_block 1 1 [])),
     mempool_get = (\<lambda>sent mx. []), mempool_verify = (\<lambda>sent b. Accept), fuel = 0\<rparr>"

lemma example_block_digest [simp]: "block_digest example_primitives b = Digest 0"
  by (simp add: block_digest_def finalize32_def example_primitives_def)

lemma block_sync_never_panics_witness:
  "\<exists>s. block_sync_run example_sync_env
     [Request [(PublicKey 2, Digest 0)] (Some (example_block 3 2 [])) 0, RetryTimer 9,
      Answered (Digest 0) (Inr [1]), NextWaiter 0]
     (block_sync_new (PublicKey 1) example_committee Map.empty 5) = (Ok (), s)"
  using block_sync_never_panics [of "[Request [(PublicKey 2, Digest 0)] (Some (example_block 3 2 [])) 0,
      RetryTimer 9, Answered (Digest 0) (Inr [1]), NextWaiter 0]" example_sync_env example_committee "PublicKey 1" Map.empty 5]
  by (auto simp: honest_event_def example_sync_env_def)

lemma second_waiter_witness:
  "\<exists>s r s'. block_sync_run example_sync_env [Request [(PublicKey 2, Digest 0)] (Some (example_block 3 2 [])) 0]
       (block_sync_new (PublicKey 1) example_committee Map.empty 5) = (Ok (), s)
     \<and> block_sync_run example_sync_env
         [Request [(PublicKey 2, Digest 0)] (Some (example_block 4 2 [])) 0, Answered (Digest 0) (Inr [1]), NextWaiter 0] s = (r, s')
     \<and> LoopBack (example_block 4 2 []) \<notin> set (bs_core_channel s')"
proof -
  let ?s0 = "block_sync_new (PublicKey 1) example_committee Map.empty 5 :: (bytes \<rightharpoonup> bytes) block_sync"
  let ?s1 = "register (prims example_sync_env) 0 (Digest 0) (Some (example_block 3 2 [])) ?s0"
  have no: "\<not> has_block example_sync_env (Digest 0) (bs_store ?s0)"
    by (simp add: has_block_def example_sync_env_def block_sync_new_def default_get_def)
  obtain s where s: "block_sync_run example_sync_env [Request [(PublicKey 2, Digest 0)] (Some (example_block 3 2 [])) 0] ?s0 = (Ok (), s)"
    "bs_waiting s = bs_waiting ?s1" "bs_pending s = bs_pending ?s1" "bs_core_channel s = []"
    using no address_member [of "PublicKey 2" example_committee]
    by (auto simp: block_sync_new_def request_block_def transmit_addresses_def register_def HOTSTUFF_def act_defs)
  have ne: "example_block 3 2 [] \<noteq> example_block 4 2 []"
    by (simp add: example_block_def)
  obtain r s' where run: "block_sync_run example_sync_env
      [Request [(PublicKey 2, Digest 0)] (Some (example_block 4 2 [])) 0, Answered (Digest 0) (Inr [1]), NextWaiter 0] s = (r, s')"
    by (cases "block_sync_run example_sync_env
      [Request [(PublicKey 2, Digest 0)] (Some (example_block 4 2 [])) 0, Answered (Digest 0) (Inr [1]), NextWaiter 0] s")
  have "count_list (bs_core_channel s') (LoopBack (example_block 4 2 [])) =
      count_list (bs_core_channel s) (LoopBack (example_block 4 2 []))"
    using s ne by (intro second_waiter_never_released [OF _ _ _ run]) (auto simp: register_def block_sync_new_def)
  with s run show ?thesis
    by (auto simp: count_list_0_iff)
qed

end
