(* ===== verification/Network.thy ===== *)
theory Network
  imports Core_State Example_Setup "HOL-Library.Multiset"
begin

text \<open>
  \<^verbatim>\<open>network/src/lib.rs\<close>, \<^verbatim>\<open>mempool/src/front.rs\<close> and
  \<^verbatim>\<open>consensus/src/filter.rs\<close>: the task that spreads outgoing messages over one
  connection per address, the workers that read frames from a socket, and the filter that
  delays block proposals. TCP and the framing of the stream are the environment's: it says
  which connections have failed, which frames arrive and when a delay is over.
\<close>

section \<open>Sending\<close>

text \<open>
  A worker is known by its number; \<open>worker_queue\<close> is everything put into its channel.
  \<open>tx.send\<close> fails once the worker has returned.
\<close>

record worker =
  worker_address :: socket_addr
  worker_queue :: "bytes list"
  worker_alive :: bool

record net_sender =
  workers :: "worker list"
  net_senders :: "socket_addr \<rightharpoonup> nat"

definition net_sender_new :: net_sender where
  "net_sender_new = \<lparr>workers = [], net_senders = Map.empty\<rparr>"

definition worker_send :: "bytes \<Rightarrow> nat \<Rightarrow> net_sender \<Rightarrow> net_sender" where
  "worker_send bs i s = s\<lparr>workers := (workers s)[i := (workers s ! i)\<lparr>worker_queue := worker_queue (workers s ! i) @ [bs]\<rparr>]\<rparr>"

text \<open>
  One address of one message. \<open>up\<close>: the new worker has not failed before its first message
  is put into its channel.
\<close>

definition spawn_and_send :: "bool \<Rightarrow> bytes \<Rightarrow> socket_addr \<Rightarrow> net_sender \<Rightarrow> net_sender" where
  "spawn_and_send up bs a s =
     (let i = length (workers s);
          s1 = s\<lparr>workers := workers s @ [\<lparr>worker_address = a, worker_queue = [], worker_alive = up\<rparr>]\<rparr>
      in if up then (worker_send bs i s1)\<lparr>net_senders := (net_senders s)(a \<mapsto> i)\<rparr> else s1)"

definition send_to :: "bool \<Rightarrow> bytes \<Rightarrow> socket_addr \<Rightarrow> net_sender \<Rightarrow> net_sender" where
  "send_to up bs a s = (case net_senders s a of
     Some i \<Rightarrow> if worker_alive (workers s ! i) then worker_send bs i s else spawn_and_send up bs a s
   | None \<Rightarrow> spawn_and_send up bs a s)"

datatype net_event =
    Transmit bytes "(socket_addr \<times> bool) list"
  | WorkerFails nat

fun net_sender_step :: "net_event \<Rightarrow> net_sender \<Rightarrow> net_sender" where
  "net_sender_step (Transmit bs addresses) s = fold (\<lambda>(a, up). send_to up bs a) addresses s"
| "net_sender_step (WorkerFails i) s =
     (if i < length (workers s) then s\<lparr>workers := (workers s)[i := (workers s ! i)\<lparr>worker_alive := False\<rparr>]\<rparr> else s)"

definition net_sender_run :: "net_event list \<Rightarrow> net_sender \<Rightarrow> net_sender" where
  "net_sender_run es s = fold net_sender_step es s"

text \<open>
  The task of a worker: what it puts on the wire of the messages in its channel, when the
  environment says whether the connection and each sending succeed.
\<close>

fun worker_loop :: "(io_error + unit) list \<Rightarrow> bytes list \<Rightarrow> bytes list" where
  "worker_loop (Inr _ # rs) (bs # queue) = bs # worker_loop rs queue"
| "worker_loop rs queue = []"

definition worker_run :: "io_error + unit \<Rightarrow> (io_error + unit) list \<Rightarrow> bytes list \<Rightarrow> bytes list" where
  "worker_run connect results queue = (case connect of Inl e \<Rightarrow> [] | Inr _ \<Rightarrow> worker_loop results queue)"

lemma worker_loop_eq:
  "worker_loop results queue = take (length (takeWhile (\<lambda>r. r = Inr ()) results)) queue"
  by (induction results queue rule: worker_loop.induct) auto

section \<open>Receiving\<close>

text \<open>
  The worker of a socket delivers the frames it can read and stops at the first error of
  the stream or of \<open>bincode\<close>; the worker of the front end delivers the bytes themselves.
\<close>

fun receiver_worker :: "(bytes \<Rightarrow> bincode_error + 'msg) \<Rightarrow> (io_error + bytes) list \<Rightarrow> 'msg list" where
  "receiver_worker deserialize [] = []"
| "receiver_worker deserialize (frame # frames) = (case frame of
     Inl e \<Rightarrow> []
   | Inr bs \<Rightarrow> (case deserialize bs of
       Inl e \<Rightarrow> []
     | Inr m \<Rightarrow> m # receiver_worker deserialize frames))"

fun front_worker :: "(io_error + bytes) list \<Rightarrow> bytes list" where
  "front_worker [] = []"
| "front_worker (frame # frames) = (case frame of Inl e \<Rightarrow> [] | Inr bs \<Rightarrow> bs # front_worker frames)"

section \<open>The filter\<close>

type_synonym filter_input = "consensus_message \<times> socket_addr list"

text \<open>\<open>NetMessage\<close>: the bytes of a message and the addresses it goes to.\<close>

type_synonym net_message = "bytes \<times> socket_addr list"

text \<open>
  The two sets of inputs that are being delayed, each with the time in milliseconds at which
  its future is done, and the two networks.
\<close>

record filter_task =
  f_pending :: "(filter_input \<times> nat) list"
  f_pending_smvba :: "(filter_input \<times> nat) list"
  f_network :: "net_message list"
  f_network_smvba :: "net_message list"

definition filter_new :: filter_task where
  "filter_new = \<lparr>f_pending = [], f_pending_smvba = [], f_network = [], f_network_smvba = []\<rparr>"

type_synonym 'a filter_act = "(filter_task, unit, 'a) act"

text \<open>
  \<open>Filter::delay\<close>: how long, in milliseconds, an input is held. \<open>coin\<close> is what
  \<open>gen_bool\<close> draws; it panics on a probability above 1.
\<close>

definition filter_delay :: "parameters \<Rightarrow> committee \<Rightarrow> bool \<Rightarrow> filter_input \<Rightarrow> u64 filter_act" where
  "filter_delay params leaders coin input = (case fst input of
     Propose b \<Rightarrow>
       if random_ddos params \<and> 100 < random_ddos_chance params then panic ExpectFailed
       else if random_ddos params \<and> coin then ret (network_delay params)
       else if ddos params then (case get_leader leaders 0 of
           None \<Rightarrow> panic RemByZero
         | Some k \<Rightarrow> ret (if b_author b \<noteq> k then network_delay params else 0))
       else ret 0
   | _ \<Rightarrow> ret 0)"

text \<open>
  The first half of \<open>Filter::transmit\<close>; \<open>ser\<close> is \<open>bincode::serialize\<close>, with \<open>None\<close> for
  its errors. The other half appends the message to the network's channel.
\<close>

definition filter_transmit :: "(consensus_message \<Rightarrow> bytes option) \<Rightarrow> filter_input \<Rightarrow> net_message filter_act" where
  "filter_transmit ser input = (case input of (message, addresses) \<Rightarrow>
     (case ser message of
        None \<Rightarrow> panic ExpectFailed
      | Some bs \<Rightarrow> ret (bs, addresses)))"

text \<open>
  A round of the loop at the time \<open>now\<close>: an input of one of the two channels, or the future
  at position \<open>i\<close>, if it is done.
\<close>

datatype filter_event =
    FromCore filter_input bool nat
  | FromSmvba filter_input bool nat
  | Ready nat nat
  | ReadySmvba nat nat

fun filter_step :: "(consensus_message \<Rightarrow> bytes option) \<Rightarrow> parameters \<Rightarrow> committee \<Rightarrow> filter_event \<Rightarrow> unit filter_act" where
  "filter_step ser params leaders (FromCore input coin now) =
     bind (filter_delay params leaders coin input) (\<lambda>d.
     modify (\<lambda>s. s\<lparr>f_pending := f_pending s @ [(input, now + unat d)]\<rparr>))"
| "filter_step ser params leaders (FromSmvba input coin now) =
     bind (filter_delay params leaders coin input) (\<lambda>d.
     modify (\<lambda>s. s\<lparr>f_pending_smvba := f_pending_smvba s @ [(input, now + unat d)]\<rparr>))"
| "filter_step ser params leaders (Ready i now) = bind (gets f_pending) (\<lambda>ps.
     whenever (i < length ps \<and> snd (ps ! i) \<le> now)
       (bind (modify (\<lambda>s. s\<lparr>f_pending := take i ps @ drop (Suc i) ps\<rparr>)) (\<lambda>_.
        bind (filter_transmit ser (fst (ps ! i))) (\<lambda>msg.
        modify (\<lambda>s. s\<lparr>f_network := f_network s @ [msg]\<rparr>)))))"
| "filter_step ser params leaders (ReadySmvba i now) = bind (gets f_pending_smvba) (\<lambda>ps.
     whenever (i < length ps \<and> snd (ps ! i) \<le> now)
       (bind (modify (\<lambda>s. s\<lparr>f_pending_smvba := take i ps @ drop (Suc i) ps\<rparr>)) (\<lambda>_.
        bind (filter_transmit ser (fst (ps ! i))) (\<lambda>msg.
        modify (\<lambda>s. s\<lparr>f_network_smvba := f_network_smvba s @ [msg]\<rparr>)))))"

fun filter_run :: "(consensus_message \<Rightarrow> bytes option) \<Rightarrow> parameters \<Rightarrow> committee \<Rightarrow> filter_event list \<Rightarrow> unit filter_act" where
  "filter_run ser params leaders [] = ret ()"
| "filter_run ser params leaders (e # es) = bind (filter_step ser params leaders e) (\<lambda>_. filter_run ser params leaders es)"

section \<open>Messages reach the connections in order\<close>

text \<open>What was handed to the task for an address, and what its workers were given, in order.\<close>

definition sent_to :: "socket_addr \<Rightarrow> net_event list \<Rightarrow> bytes list" where
  "sent_to a es = concat (map (\<lambda>e. case e of
     Transmit bs addresses \<Rightarrow> map (\<lambda>_. bs) (filter (\<lambda>x. fst x = a) addresses) | WorkerFails i \<Rightarrow> []) es)"

definition queued_for :: "socket_addr \<Rightarrow> worker list \<Rightarrow> bytes list" where
  "queued_for a ws = concat (map worker_queue (filter (\<lambda>w. worker_address w = a) ws))"

lemma queued_for_simps [simp]:
  "queued_for a [] = []" "queued_for a (ws @ ws') = queued_for a ws @ queued_for a ws'"
  "queued_for a (w # ws) = (if worker_address w = a then worker_queue w else []) @ queued_for a ws"
  by (simp_all add: queued_for_def)

text \<open>The worker on file for an address is the last one for it, and every address in use has one.\<close>

definition last_for :: "socket_addr \<Rightarrow> nat \<Rightarrow> worker list \<Rightarrow> bool" where
  "last_for a i ws \<longleftrightarrow> i < length ws \<and> worker_address (ws ! i) = a
     \<and> (\<forall>j. i < j \<longrightarrow> j < length ws \<longrightarrow> worker_address (ws ! j) \<noteq> a)"

definition filed :: "net_sender \<Rightarrow> bool" where
  "filed s \<longleftrightarrow> (\<forall>a. case net_senders s a of
     None \<Rightarrow> \<forall>j < length (workers s). worker_address (workers s ! j) \<noteq> a
   | Some i \<Rightarrow> last_for a i (workers s))"

lemma filed_last: "filed s \<Longrightarrow> net_senders s a = Some i \<Longrightarrow> last_for a i (workers s)"
  unfolding filed_def by (drule spec [of _ a]) simp

lemma filed_none: "filed s \<Longrightarrow> net_senders s a = None \<Longrightarrow> j < length (workers s) \<Longrightarrow> worker_address (workers s ! j) \<noteq> a"
  unfolding filed_def by (drule spec [of _ a]) simp

lemma filedI:
  assumes "\<And>a j. net_senders s a = None \<Longrightarrow> j < length (workers s) \<Longrightarrow> worker_address (workers s ! j) \<noteq> a"
    and "\<And>a i. net_senders s a = Some i \<Longrightarrow> last_for a i (workers s)"
  shows "filed s"
  using assms by (auto simp: filed_def split: option.split)

lemma queued_for_none: "\<forall>v \<in> set ws. worker_address v \<noteq> a \<Longrightarrow> queued_for a ws = []"
  by (induction ws) auto

lemma queued_for_nth:
  assumes "i < length ws"
  shows "queued_for a ws = queued_for a (take i ws)
    @ (if worker_address (ws ! i) = a then worker_queue (ws ! i) else []) @ queued_for a (drop (Suc i) ws)"
  using arg_cong [OF id_take_nth_drop [OF assms], of "queued_for a"] by simp

text \<open>Replacing a worker by one of the same address.\<close>

lemma address_update:
  "worker_address w' = worker_address (ws ! i) \<Longrightarrow> i < length ws \<Longrightarrow>
   worker_address (ws[i := w'] ! j) = worker_address (ws ! j)"
  by (cases "j = i") simp_all

lemma last_for_update:
  "worker_address w' = worker_address (ws ! i) \<Longrightarrow> i < length ws \<Longrightarrow> last_for a j (ws[i := w']) = last_for a j ws"
  by (auto simp: last_for_def address_update)

lemma filed_update:
  "filed s \<Longrightarrow> i < length (workers s) \<Longrightarrow> worker_address w' = worker_address (workers s ! i) \<Longrightarrow>
   filed (s\<lparr>workers := (workers s)[i := w']\<rparr>)"
  by (rule filedI) (auto simp: last_for_update address_update dest: filed_last filed_none)

lemma queued_for_update:
  assumes "i < length ws" and "worker_address w' = worker_address (ws ! i)"
  shows "queued_for a (ws[i := w']) = queued_for a (take i ws)
    @ (if worker_address (ws ! i) = a then worker_queue w' else []) @ queued_for a (drop (Suc i) ws)"
  using assms queued_for_nth [of i "ws[i := w']" a] by simp

lemma worker_send_filed:
  assumes "filed s" and "net_senders s a = Some i"
  shows "filed (worker_send bs i s)"
    and "queued_for b (workers (worker_send bs i s)) = queued_for b (workers s) @ (if b = a then [bs] else [])"
proof -
  have i: "i < length (workers s)" "worker_address (workers s ! i) = a"
    and last: "\<And>j. i < j \<Longrightarrow> j < length (workers s) \<Longrightarrow> worker_address (workers s ! j) \<noteq> a"
    using filed_last [OF assms] by (auto simp: last_for_def)
  show "filed (worker_send bs i s)"
    unfolding worker_send_def using i by (intro filed_update [OF assms(1)]) simp_all
  have "queued_for a (drop (Suc i) (workers s)) = []"
  proof (intro queued_for_none ballI)
    fix v assume "v \<in> set (drop (Suc i) (workers s))"
    then obtain j where "v = workers s ! (Suc i + j)" "Suc i + j < length (workers s)"
      by (auto simp: in_set_conv_nth)
    with last [of "Suc i + j"] show "worker_address v \<noteq> a" by simp
  qed
  then show "queued_for b (workers (worker_send bs i s)) = queued_for b (workers s) @ (if b = a then [bs] else [])"
    using i queued_for_nth [OF i(1), of b] by (cases "b = a") (simp_all add: worker_send_def queued_for_update)
qed

lemma spawn_filed:
  assumes "filed s"
  shows "filed (spawn_and_send True bs a s)"
    and "queued_for b (workers (spawn_and_send True bs a s)) = queued_for b (workers s) @ (if b = a then [bs] else [])"
proof -
  let ?w = "\<lparr>worker_address = a, worker_queue = [bs], worker_alive = True\<rparr>"
  have e: "spawn_and_send True bs a s = s\<lparr>workers := workers s @ [?w], net_senders := (net_senders s)(a \<mapsto> length (workers s))\<rparr>"
    by (simp add: spawn_and_send_def worker_send_def Let_def)
  show "queued_for b (workers (spawn_and_send True bs a s)) = queued_for b (workers s) @ (if b = a then [bs] else [])"
    by (simp add: e)
  show "filed (spawn_and_send True bs a s)"
  proof (rule filedI)
    fix c j
    assume "net_senders (spawn_and_send True bs a s) c = None" "j < length (workers (spawn_and_send True bs a s))"
    then show "worker_address (workers (spawn_and_send True bs a s) ! j) \<noteq> c"
      using filed_none [OF assms, of c j] by (auto simp: e nth_append split: if_splits)
  next
    fix c i
    assume "net_senders (spawn_and_send True bs a s) c = Some i"
    then show "last_for c i (workers (spawn_and_send True bs a s))"
      using filed_last [OF assms, of c i] by (auto simp: e last_for_def nth_append split: if_splits)
  qed
qed

lemma send_to_filed:
  assumes "filed s"
  shows "filed (send_to True bs a s)"
    and "queued_for b (workers (send_to True bs a s)) = queued_for b (workers s) @ (if b = a then [bs] else [])"
  using spawn_filed [OF assms] worker_send_filed [OF assms]
  by (auto simp: send_to_def split: option.split)

definition all_up :: "net_event list \<Rightarrow> bool" where
  "all_up es \<longleftrightarrow> (\<forall>e \<in> set es. case e of
     Transmit bs addresses \<Rightarrow> \<forall>x \<in> set addresses. snd x | WorkerFails i \<Rightarrow> True)"

lemma transmit_filed:
  "filed s \<Longrightarrow> \<forall>x \<in> set addresses. snd x \<Longrightarrow>
   filed (net_sender_step (Transmit bs addresses) s) \<and>
   queued_for a (workers (net_sender_step (Transmit bs addresses) s)) =
     queued_for a (workers s) @ map (\<lambda>_. bs) (filter (\<lambda>x. fst x = a) addresses)"
proof (induction addresses arbitrary: s)
  case (Cons x addresses)
  obtain b up where "x = (b, up)" by (cases x)
  with Cons show ?case
    using Cons.IH [of "send_to True bs b s"] send_to_filed [OF Cons.prems(1)] by auto
qed simp

lemma net_sender_step_filed:
  assumes "filed s" and "all_up [e]"
  shows "filed (net_sender_step e s) \<and> queued_for a (workers (net_sender_step e s)) = queued_for a (workers s) @ sent_to a [e]"
proof (cases e)
  case (Transmit bs addresses)
  then show ?thesis
    using transmit_filed [OF assms(1), of addresses bs a] assms(2) by (simp add: sent_to_def all_up_def)
next
  case (WorkerFails i)
  then show ?thesis
    using assms(1) queued_for_nth [of i "workers s" a]
    by (simp add: sent_to_def filed_update queued_for_update)
qed

lemma net_run_queued:
  assumes "all_up es"
  shows "queued_for a (workers (net_sender_run es net_sender_new)) = sent_to a es"
proof -
  have "queued_for a (workers (net_sender_run es s)) = queued_for a (workers s) @ sent_to a es" if "filed s" for s
    using assms that
  proof (induction es arbitrary: s)
    case Nil
    then show ?case by (simp add: net_sender_run_def sent_to_def)
  next
    case (Cons e es)
    then have "all_up [e]" "all_up es" by (auto simp: all_up_def)
    with Cons net_sender_step_filed [of s e a] show ?case
      by (simp add: net_sender_run_def sent_to_def)
  qed
  from this [of net_sender_new] show ?thesis
    by (simp add: net_sender_new_def filed_def)
qed

text \<open>
  C33. The network task loses nothing and keeps the order: what its workers for an address
  have been given, one after the other, is exactly the sequence of messages sent to that
  address, whenever a new worker outlives its first message; connections that fail later are
  replaced.
\<close>

theorem network_keeps_order:
  assumes "all_up es"
  shows "queued_for a (workers (net_sender_run es net_sender_new)) = sent_to a es"
  by (rule net_run_queued [OF assms])

lemma network_keeps_order_witness:
  "queued_for (V4 1 2) (workers (net_sender_run [Transmit [7] [(V4 1 2, True), (V4 3 4, True)], WorkerFails 0,
     Transmit [8] [(V4 1 2, True)]] net_sender_new)) = [[7], [8]]"
  using network_keeps_order [of "[Transmit [7] [(V4 1 2, True), (V4 3 4, True)], WorkerFails 0,
     Transmit [8] [(V4 1 2, True)]]" "V4 1 2"]
  by (simp add: all_up_def sent_to_def)

section \<open>The filter keeps every message\<close>

definition from_core :: "filter_event \<Rightarrow> filter_input option" where
  "from_core e = (case e of FromCore x coin now \<Rightarrow> Some x | _ \<Rightarrow> None)"

definition from_smvba :: "filter_event \<Rightarrow> filter_input option" where
  "from_smvba e = (case e of FromSmvba x coin now \<Rightarrow> Some x | _ \<Rightarrow> None)"

text \<open>What an input is on the network; \<open>None\<close> for what cannot be serialized.\<close>

definition wire :: "(consensus_message \<Rightarrow> bytes option) \<Rightarrow> filter_input \<Rightarrow> net_message option" where
  "wire ser input = map_option (\<lambda>bs. (bs, snd input)) (ser (fst input))"

definition filter_total :: "(consensus_message \<Rightarrow> bytes option) \<Rightarrow> filter_task \<Rightarrow>
    net_message option multiset \<times> net_message option multiset" where
  "filter_total ser s =
     (image_mset Some (mset (f_network s)) + image_mset (wire ser) (image_mset fst (mset (f_pending s))),
      image_mset Some (mset (f_network_smvba s)) + image_mset (wire ser) (image_mset fst (mset (f_pending_smvba s))))"

definition delay_possible :: "parameters \<Rightarrow> committee \<Rightarrow> bool" where
  "delay_possible params leaders \<longleftrightarrow> (random_ddos params \<longrightarrow> random_ddos_chance params \<le> 100)
     \<and> (ddos params \<longrightarrow> get_leader leaders 0 \<noteq> None)"

lemma image_mset_take_drop:
  assumes "i < length xs"
  shows "add_mset (f (xs ! i)) (image_mset f (mset (take i xs)) + image_mset f (mset (drop (Suc i) xs))) =
    image_mset f (mset xs)"
  using arg_cong [OF id_take_nth_drop [OF assms], of "\<lambda>xs. image_mset f (mset xs)"] by simp

lemma map_filter_Cons: "List.map_filter f (e # es) = List.map_filter f [e] @ List.map_filter f es"
  by (simp add: map_filter_simps split: option.split)

lemma wp_filter_delay:
  "delay_possible params leaders \<Longrightarrow> (\<And>d. Q d s) \<Longrightarrow> wp (filter_delay params leaders coin input) Q E s"
  by (auto simp: filter_delay_def delay_possible_def split: consensus_message.split option.split)

lemma wp_returns: "wp m Q (\<lambda>_. False) s \<Longrightarrow> \<exists>x s'. m s = (Ok x, s') \<and> Q x s'"
  by (cases "fst (m s)") (auto simp: wp_def split: prod.splits)

lemma wp_filter_transmit:
  assumes "\<forall>m. ser m \<noteq> None" and "\<And>msg. wire ser input = Some msg \<Longrightarrow> Q msg s"
  shows "wp (filter_transmit ser input) Q E s"
proof -
  obtain bs where "ser (fst input) = Some bs"
    using assms(1) by auto
  with assms(2) show ?thesis
    by (cases input) (simp add: filter_transmit_def wire_def)
qed

lemma wp_filter_step:
  assumes "delay_possible params leaders" and "\<forall>m. ser m \<noteq> None"
  shows "wp (filter_step ser params leaders e) (\<lambda>_ s'. filter_total ser s' =
      (fst (filter_total ser s) + image_mset (wire ser) (mset (List.map_filter from_core [e])),
       snd (filter_total ser s) + image_mset (wire ser) (mset (List.map_filter from_smvba [e])))) (\<lambda>_. False) s"
proof (cases e)
  case (Ready i now)
  then show ?thesis
    using image_mset_take_drop [of i "f_pending s" "\<lambda>p. wire ser (fst p)"]
    by (auto intro!: wp_filter_transmit [OF assms(2)]
        simp: filter_total_def from_core_def from_smvba_def map_filter_def multiset.map_comp comp_def)
next
  case (ReadySmvba i now)
  then show ?thesis
    using image_mset_take_drop [of i "f_pending_smvba s" "\<lambda>p. wire ser (fst p)"]
    by (auto intro!: wp_filter_transmit [OF assms(2)]
        simp: filter_total_def from_core_def from_smvba_def map_filter_def multiset.map_comp comp_def)
qed (auto intro!: wp_filter_delay [OF assms(1)] simp: filter_total_def from_core_def from_smvba_def map_filter_def)

text \<open>
  With a probability of at most 100 in a hundred and, where a leader is asked for, a
  committee, the filter never panics, and what it has sent and what it still delays is,
  network by network, exactly what the core gave it.
\<close>

theorem filter_conserves:
  assumes "delay_possible params leaders" and "\<forall>m. ser m \<noteq> None"
  shows "wp (filter_run ser params leaders es) (\<lambda>_ s'. filter_total ser s' =
    (image_mset (wire ser) (mset (List.map_filter from_core es)),
     image_mset (wire ser) (mset (List.map_filter from_smvba es)))) (\<lambda>_. False) filter_new"
proof -
  have "wp (filter_run ser params leaders es) (\<lambda>_ s'. filter_total ser s' =
      (fst (filter_total ser s) + image_mset (wire ser) (mset (List.map_filter from_core es)),
       snd (filter_total ser s) + image_mset (wire ser) (mset (List.map_filter from_smvba es)))) (\<lambda>_. False) s" for s
  proof (induction es arbitrary: s)
    case Nil
    then show ?case by simp
  next
    case (Cons e es)
    show ?case
      unfolding filter_run.simps wp_bind map_filter_Cons [of _ e es]
      by (rule wp_mono [OF wp_filter_step [OF assms, where e = e and s = s]]) (rule wp_mono [OF Cons.IH], simp_all)
  qed
  from this [of filter_new] show ?thesis by (simp add: filter_new_def filter_total_def)
qed

section \<open>From the core to the connections\<close>

text \<open>The messages the network task takes from its channel, and the frames they are for an address.\<close>

definition transmitted :: "net_event list \<Rightarrow> net_message list" where
  "transmitted es = List.map_filter (\<lambda>e. case e of
     Transmit bs addresses \<Rightarrow> Some (bs, map fst addresses) | WorkerFails i \<Rightarrow> None) es"

definition frames_for :: "socket_addr \<Rightarrow> net_message option \<Rightarrow> bytes multiset" where
  "frames_for a msg = (case msg of None \<Rightarrow> {#}
   | Some (bs, addresses) \<Rightarrow> replicate_mset (count_list addresses a) bs)"

lemma frames_sent: "mset (map (\<lambda>_. bs) (filter (\<lambda>x. fst x = a) addresses)) = frames_for a (Some (bs, map fst addresses))"
  by (induction addresses) (auto simp: frames_for_def)

lemma frames_transmitted: "mset (sent_to a es) = (\<Sum>msg \<in># mset (transmitted es). frames_for a (Some msg))"
proof (induction es)
  case (Cons e es)
  then show ?case
    by (cases e) (simp_all add: sent_to_def transmitted_def map_filter_simps frames_sent del: mset_map mset_filter)
qed (simp add: sent_to_def transmitted_def map_filter_simps)

text \<open>
  C32. The filter never panics on the core's messages, with a random_ddos_chance of at most
  100, a committee to take the leader from and messages that can be serialized. Both ways,
  that of the chain's messages and that of the agreement's, then lose, repeat and misdirect
  nothing: for every address, the frames its connections of that network have been given and
  those the filter still holds back are, with their multiplicities, the serialized messages
  the core addressed to it, whatever the delays and however often connections fail, as long as
  a new one outlives its first message.
\<close>

theorem core_messages_reach_connections:
  assumes "delay_possible params leaders" and "\<forall>m. ser m \<noteq> None"
  shows "\<exists>s. filter_run ser params leaders es filter_new = (Ok (), s)
    \<and> (\<forall>net. all_up net \<and> transmitted net = f_network s \<longrightarrow>
        mset (queued_for a (workers (net_sender_run net net_sender_new)))
          + (\<Sum>p \<in># mset (f_pending s). frames_for a (wire ser (fst p)))
        = (\<Sum>input \<in># mset (List.map_filter from_core es). frames_for a (wire ser input)))
    \<and> (\<forall>net. all_up net \<and> transmitted net = f_network_smvba s \<longrightarrow>
        mset (queued_for a (workers (net_sender_run net net_sender_new)))
          + (\<Sum>p \<in># mset (f_pending_smvba s). frames_for a (wire ser (fst p)))
        = (\<Sum>input \<in># mset (List.map_filter from_smvba es). frames_for a (wire ser input)))"
proof -
  let ?frames = "\<lambda>M. \<Sum>\<^sub># (image_mset (frames_for a) M)"
  obtain s where s: "filter_run ser params leaders es filter_new = (Ok (), s)"
    and total: "image_mset Some (mset (f_network s)) + image_mset (wire ser) (image_mset fst (mset (f_pending s)))
        = image_mset (wire ser) (mset (List.map_filter from_core es))"
      "image_mset Some (mset (f_network_smvba s)) + image_mset (wire ser) (image_mset fst (mset (f_pending_smvba s)))
        = image_mset (wire ser) (mset (List.map_filter from_smvba es))"
    using wp_returns [OF filter_conserves [OF assms, where es = es]] by (auto simp: filter_total_def)
  have "mset (queued_for a (workers (net_sender_run net net_sender_new))) = ?frames (image_mset Some (mset (transmitted net)))"
    if "all_up net" for net
    by (simp add: net_run_queued [OF that(1)] frames_transmitted multiset.map_comp comp_def)
  with arg_cong [OF total(1), of ?frames] arg_cong [OF total(2), of ?frames] s show ?thesis
    by (simp add: multiset.map_comp comp_def)
qed

lemma core_messages_reach_connections_witness:
  "\<exists>s. filter_run (\<lambda>m. Some [case m of Propose b \<Rightarrow> 1 | _ \<Rightarrow> 2])
       (default_parameters\<lparr>ddos := False, random_ddos := False\<rparr>) example_committee
       [FromCore (Propose block_genesis, [V4 1 2, V4 3 4]) False 0, FromCore (SyncRequest (Digest 0) (PublicKey 1), [V4 1 2]) False 0,
        Ready 1 5, FromSmvba (SyncRequest (Digest 0) (PublicKey 1), [V4 1 2]) False 6, ReadySmvba 0 6] filter_new = (Ok (), s)
     \<and> f_pending s \<noteq> []
     \<and> mset (queued_for (V4 1 2) (workers (net_sender_run [Transmit [2] [(V4 1 2, True)]] net_sender_new))) + {#[1]#} = {#[1], [2]#}
     \<and> mset (queued_for (V4 1 2) (workers (net_sender_run [Transmit [2] [(V4 1 2, True)]] net_sender_new))) = {#[2]#}"
proof -
  let ?ser = "\<lambda>m. Some [case m of Propose b \<Rightarrow> 1 | _ \<Rightarrow> 2]" and ?net = "[Transmit [2] [(V4 1 2, True)]]"
  let ?es = "[FromCore (Propose block_genesis, [V4 1 2, V4 3 4]) False 0, FromCore (SyncRequest (Digest 0) (PublicKey 1), [V4 1 2]) False 0,
    Ready 1 5, FromSmvba (SyncRequest (Digest 0) (PublicKey 1), [V4 1 2]) False 6, ReadySmvba 0 6]"
  let ?params = "default_parameters\<lparr>ddos := False, random_ddos := False\<rparr>"
  have possible: "delay_possible ?params example_committee"
    by (simp add: delay_possible_def)
  let ?s = "\<lparr>f_pending = [((Propose block_genesis, [V4 1 2, V4 3 4]), 0)], f_pending_smvba = [], f_network = [([2], [V4 1 2])],
    f_network_smvba = [([2], [V4 1 2])]\<rparr>"
  have run: "filter_run ?ser ?params example_committee ?es filter_new = (Ok (), ?s)"
    by (simp add: filter_delay_def filter_transmit_def filter_new_def act_defs)
  have net: "all_up ?net" "transmitted ?net = [([2], [V4 1 2])]"
    by (simp_all add: all_up_def transmitted_def map_filter_simps)
  from core_messages_reach_connections [OF possible, where ser = ?ser and es = ?es and a = "V4 1 2"] run
  have "mset (queued_for (V4 1 2) (workers (net_sender_run ?net net_sender_new))) + frames_for (V4 1 2) (Some ([1], [V4 1 2, V4 3 4]))
      = frames_for (V4 1 2) (Some ([1], [V4 1 2, V4 3 4])) + frames_for (V4 1 2) (Some ([2], [V4 1 2]))
    \<and> mset (queued_for (V4 1 2) (workers (net_sender_run ?net net_sender_new))) = frames_for (V4 1 2) (Some ([2], [V4 1 2]))"
    using net by (auto simp: from_core_def from_smvba_def map_filter_simps wire_def)
  with run show ?thesis
    by (auto simp: frames_for_def)
qed

text \<open>A probability above one panics at the first proposal.\<close>

lemma filter_delay_panics:
  "random_ddos params \<Longrightarrow> 100 < random_ddos_chance params \<Longrightarrow>
   fst (filter_step ser params leaders (FromCore (Propose b, addrs) coin now) s) = Panic ExpectFailed"
  by (simp add: filter_delay_def act_defs)

end
