(* ===== verification/Network_Link.thy ===== *)
theory Network_Link
  imports Network "HOL-Library.Sublist"
begin

text \<open>
  The listening side of \<^verbatim>\<open>network/src/lib.rs\<close> and \<^verbatim>\<open>mempool/src/front.rs\<close>:
  the loop that accepts connections and the workers it spawns, all delivering into one
  channel, and a connection from the sender's worker to the receiver's.
\<close>

section \<open>Accepting\<close>

text \<open>
  A worker is known by the number of its connection; the channel holds each message with the
  connection it came from. An event is the result of \<open>accept\<close>, the next item of a worker's
  stream, or its end.
\<close>

record 'msg receiver =
  rcv_alive :: "bool list"
  rcv_delivered :: "(nat \<times> 'msg) list"

definition receiver_new :: "'msg receiver" where
  "receiver_new = \<lparr>rcv_alive = [], rcv_delivered = []\<rparr>"

datatype receiver_event =
    Accepted "io_error + unit"
  | Frame nat "io_error + bytes"
  | Closed nat

definition worker_ends :: "nat \<Rightarrow> 'msg receiver \<Rightarrow> 'msg receiver" where
  "worker_ends i s = s\<lparr>rcv_alive := (rcv_alive s)[i := False]\<rparr>"

definition worker_lives :: "nat \<Rightarrow> 'msg receiver \<Rightarrow> bool" where
  "worker_lives i s \<longleftrightarrow> i < length (rcv_alive s) \<and> rcv_alive s ! i"

fun receiver_step :: "(bytes \<Rightarrow> bincode_error + 'msg) \<Rightarrow> receiver_event \<Rightarrow> 'msg receiver \<Rightarrow> 'msg receiver" where
  "receiver_step deserialize (Accepted (Inl e)) s = s"
| "receiver_step deserialize (Accepted (Inr _)) s = s\<lparr>rcv_alive := rcv_alive s @ [True]\<rparr>"
| "receiver_step deserialize (Frame i frame) s = (if \<not> worker_lives i s then s else
     (case frame of
        Inl e \<Rightarrow> worker_ends i s
      | Inr bs \<Rightarrow> (case deserialize bs of
          Inl e \<Rightarrow> worker_ends i s
        | Inr m \<Rightarrow> s\<lparr>rcv_delivered := rcv_delivered s @ [(i, m)]\<rparr>)))"
| "receiver_step deserialize (Closed i) s = worker_ends i s"

text \<open>\<open>NetReceiver::run\<close>; it panics if it cannot bind.\<close>

definition receiver_run :: "(bytes \<Rightarrow> bincode_error + 'msg) \<Rightarrow> io_error + unit \<Rightarrow> receiver_event list \<Rightarrow>
    (unit, 'msg receiver) outcome" where
  "receiver_run deserialize bound es = (case bound of
     Inl e \<Rightarrow> Panic ExpectFailed
   | Inr _ \<Rightarrow> Ok (fold (receiver_step deserialize) es receiver_new))"

text \<open>\<open>Front::run\<close>: the same loop, with workers that deliver the bytes of a frame as they are.\<close>

definition front_run :: "io_error + unit \<Rightarrow> receiver_event list \<Rightarrow> (unit, bytes receiver) outcome" where
  "front_run bound es = receiver_run Inr bound es"

section \<open>Each connection keeps its order\<close>

text \<open>The items of the stream of connection \<open>i\<close>, when \<open>n\<close> connections have been accepted before.\<close>

fun stream_of :: "nat \<Rightarrow> nat \<Rightarrow> receiver_event list \<Rightarrow> (io_error + bytes) list" where
  "stream_of i n [] = []"
| "stream_of i n (Accepted (Inl e) # es) = stream_of i n es"
| "stream_of i n (Accepted (Inr u) # es) = stream_of i (Suc n) es"
| "stream_of i n (Frame j frame # es) = (if j = i \<and> i < n then frame # stream_of i n es else stream_of i n es)"
| "stream_of i n (Closed j # es) = (if j = i \<and> i < n then [] else stream_of i n es)"

definition delivered_by :: "nat \<Rightarrow> 'msg receiver \<Rightarrow> 'msg list" where
  "delivered_by i s = map snd (filter (\<lambda>x. fst x = i) (rcv_delivered s))"

lemma receiver_simps [simp]:
  "delivered_by i (worker_ends j s) = delivered_by i s" "length (rcv_alive (worker_ends j s)) = length (rcv_alive s)"
  "delivered_by i (s\<lparr>rcv_alive := al\<rparr>) = delivered_by i s"
  "delivered_by i (s\<lparr>rcv_delivered := rcv_delivered s @ [(j, m)]\<rparr>) = delivered_by i s @ (if j = i then [m] else [])"
  "worker_lives i (s\<lparr>rcv_delivered := ds\<rparr>) = worker_lives i s"
  "worker_lives i (worker_ends j s) \<longleftrightarrow> worker_lives i s \<and> i \<noteq> j"
  by (auto simp: delivered_by_def worker_ends_def worker_lives_def)
    (cases "j < length (rcv_alive s)"; simp add: nth_list_update split: if_splits)

lemma worker_lives_length: "worker_lives i s \<Longrightarrow> i < length (rcv_alive s)"
  by (simp add: worker_lives_def)

lemma worker_lives_append:
  "worker_lives i (s\<lparr>rcv_alive := rcv_alive s @ [True]\<rparr>) \<longleftrightarrow> worker_lives i s \<or> i = length (rcv_alive s)"
  by (auto simp: worker_lives_def nth_append less_Suc_eq)

lemma delivered_ended:
  "i < length (rcv_alive s) \<Longrightarrow> \<not> worker_lives i s \<Longrightarrow>
     delivered_by i (fold (receiver_step deserialize) es s) = delivered_by i s"
proof (induction es arbitrary: s)
  case (Cons e es)
  have "\<not> worker_lives i (receiver_step deserialize e s) \<and> i < length (rcv_alive (receiver_step deserialize e s))
      \<and> delivered_by i (receiver_step deserialize e s) = delivered_by i s"
    using Cons.prems
    by (cases "(deserialize, e, s)" rule: receiver_step.cases)
      (auto simp: nth_append worker_lives_append split: sum.splits)
  with Cons.IH [of "receiver_step deserialize e s"] show ?case by simp
qed simp

lemma delivered_run:
  assumes "worker_lives i s \<or> length (rcv_alive s) \<le> i"
  shows "delivered_by i (fold (receiver_step deserialize) es s)
    = delivered_by i s @ receiver_worker deserialize (stream_of i (length (rcv_alive s)) es)"
  using assms
proof (induction es arbitrary: s)
  case (Cons e es)
  show ?case
  proof (cases "(deserialize, e, s)" rule: receiver_step.cases)
    case (2 d u s')
    have "worker_lives i (s\<lparr>rcv_alive := rcv_alive s @ [True]\<rparr>) \<or> Suc (length (rcv_alive s)) \<le> i"
      using Cons.prems by (auto simp: worker_lives_def nth_append not_le less_Suc_eq_le)
    with Cons.IH [of "s\<lparr>rcv_alive := rcv_alive s @ [True]\<rparr>"] 2 show ?thesis by simp
  next
    case (3 d j frame s')
    show ?thesis
    proof (cases "j = i \<and> worker_lives i s")
      case True
      then have i: "i < length (rcv_alive s)" by (simp add: worker_lives_def)
      have ended: "delivered_by i (fold (receiver_step deserialize) es (worker_ends i s)) = delivered_by i s"
        using delivered_ended [of i "worker_ends i s"] i by simp
      from True i ended 3 Cons.IH show ?thesis
        by (auto split: sum.split)
    next
      case False
      then have s1: "delivered_by i (receiver_step deserialize e s) = delivered_by i s"
        "length (rcv_alive (receiver_step deserialize e s)) = length (rcv_alive s)"
        "worker_lives i (receiver_step deserialize e s) = worker_lives i s"
        using 3 by (auto split: sum.split)
      have "\<not> (j = i \<and> i < length (rcv_alive s))"
        using False Cons.prems by auto
      with s1 Cons.IH [of "receiver_step deserialize e s"] Cons.prems 3 show ?thesis
        by auto
    qed
  next
    case (4 d j s')
    show ?thesis
    proof (cases "j = i \<and> i < length (rcv_alive s)")
      case True
      with delivered_ended [of i "worker_ends i s"] 4 show ?thesis by simp
    next
      case False
      with Cons.IH [of "worker_ends j s"] Cons.prems 4 show ?thesis
        by (auto dest: worker_lives_length)
    qed
  qed (use Cons in simp)
qed simp

text \<open>
  C34. Whatever connections a node accepts and however their frames interleave: when the
  stream of a connection carries the first frames its sender's worker has written, and perhaps
  an error after them, the channel gets from that connection exactly the messages of these
  frames, in order; and all the sender's messages, when no write failed and the stream is
  whole.
\<close>

theorem messages_arrive_in_order:
  assumes "receiver_run deserialize bound es = Ok s"
    and "\<And>m. deserialize (serialize m) = Inr m"
    and "stream_of i 0 es = map Inr (take n (worker_run connect results (map serialize ms))) @ broken"
    and "broken = [] \<or> (\<exists>e rest. broken = Inl e # rest)"
  shows "delivered_by i s = take n (take (length (worker_run connect results (map serialize ms))) ms)
    \<and> ((\<forall>r \<in> set results. r = Inr ()) \<and> connect = Inr () \<and> length ms \<le> length results \<and> length ms \<le> n \<longrightarrow>
        delivered_by i s = ms)"
proof (intro conjI impI)
  have s: "s = fold (receiver_step deserialize) es receiver_new"
    using assms(1) by (simp add: receiver_run_def split: sum.splits)
  have worker: "receiver_worker deserialize (map Inr (map serialize xs) @ broken) = xs" for xs
    using assms(2,4) by (induction xs) auto
  obtain k where k: "worker_run connect results (map serialize ms) = map serialize (take k ms)"
    using that [of 0] that [of "length (takeWhile (\<lambda>r. r = Inr ()) results)"]
    by (cases connect) (auto simp: worker_run_def worker_loop_eq take_map)
  have "delivered_by i s = receiver_worker deserialize (stream_of i 0 es)"
    using delivered_run [of i receiver_new deserialize es] by (simp add: s receiver_new_def delivered_by_def)
  also have "\<dots> = take n (take k ms)"
    unfolding assms(3) k using worker [of "take n (take k ms)"] by (simp add: take_map)
  finally show first: "delivered_by i s = take n (take (length (worker_run connect results (map serialize ms))) ms)"
    by (simp add: k min_def)
  show "delivered_by i s = ms"
    if that: "(\<forall>r \<in> set results. r = Inr ()) \<and> connect = Inr () \<and> length ms \<le> length results \<and> length ms \<le> n"
  proof -
    have "takeWhile (\<lambda>r. r = Inr ()) results = results"
      using that by (simp add: takeWhile_eq_all_conv)
    with that first show ?thesis
      by (simp add: worker_run_def worker_loop_eq)
  qed
qed

text \<open>
  Two connections of which the second is cut off after its first message; the first one's
  messages arrive whole, interleaved with the other's.
\<close>

definition interleaved :: "receiver_event list" where
  "interleaved = [Accepted (Inr ()), Frame 0 (Inr [1]), Accepted (Inr ()), Frame 1 (Inr [7]), Accepted (Inl (IoError ''refused'')),
     Frame 0 (Inr [2]), Frame 1 (Inl (IoError ''reset'')), Frame 1 (Inr [8]), Closed 0]"

lemma messages_arrive_in_order_witness:
  "\<exists>s. front_run (Inr ()) interleaved = Ok s \<and> delivered_by 0 s = [[1], [2]] \<and> delivered_by 1 s = [[7]]"
proof -
  obtain s where s: "receiver_run Inr (Inr ()) interleaved = Ok s"
    by (simp add: receiver_run_def)
  have "delivered_by 0 s = [[1], [2]]"
    by (rule messages_arrive_in_order [where serialize = id and n = 2 and connect = "Inr ()"
          and results = "[Inr (), Inr ()]" and broken = "[]", THEN conjunct2, rule_format, OF s])
      (simp_all add: interleaved_def worker_run_def)
  moreover have "delivered_by 1 s = take 1 (take (length (worker_run (Inr ()) [Inr ()] (map id [[7::8 word]]))) [[7]])"
    by (rule messages_arrive_in_order [where serialize = id and broken = "[Inl (IoError ''reset''), Inr [8]]", THEN conjunct1, OF s])
      (simp_all add: interleaved_def worker_run_def)
  ultimately show ?thesis
    using s by (simp add: front_run_def worker_run_def)
qed

end
