(* ===== verification/Text_Forms.thy ===== *)
theory Text_Forms
  imports Encoding Mempool_Types
begin

text \<open>
  The text forms of the data: \<open>Display\<close> and \<open>Debug\<close> of \<^verbatim>\<open>crypto/src/lib.rs\<close>,
  \<^verbatim>\<open>consensus/src/messages.rs\<close> and \<^verbatim>\<open>mempool/src/messages.rs\<close>, which the logs are made of and the benchmark reads, the
  serde form of keys, and the decimal numbers of the standard library, printed and parsed.
  Base64 is a crate: \<open>encode\<close> and \<open>decode\<close> are parameters.
\<close>

section \<open>Decimal numbers\<close>

definition digit :: "nat \<Rightarrow> char" where
  "digit n = char_of (48 + n)"

fun decimal :: "nat \<Rightarrow> string" where
  "decimal n = (if n < 10 then [digit n] else decimal (n div 10) @ [digit (n mod 10)])"

declare decimal.simps [simp del]

definition to_digit :: "char \<Rightarrow> nat option" where
  "to_digit c = (let n = of_char c :: nat in if 48 \<le> n \<and> n \<le> 57 then Some (n - 48) else None)"

text \<open>
  \<open>str::parse\<close> for an unsigned type with \<open>m\<close> values: an optional \<open>+\<close>, then at least one
  digit; the checked multiplication and addition refuse what does not fit.
\<close>

fun parse_digits :: "nat \<Rightarrow> nat \<Rightarrow> string \<Rightarrow> nat option" where
  "parse_digits m acc [] = Some acc"
| "parse_digits m acc (c # cs) = (case to_digit c of
     None \<Rightarrow> None
   | Some x \<Rightarrow> if m \<le> acc * 10 + x then None else parse_digits m (acc * 10 + x) cs)"

definition parse_unsigned :: "nat \<Rightarrow> string \<Rightarrow> nat option" where
  "parse_unsigned m s = (case s of
     [] \<Rightarrow> None
   | c # cs \<Rightarrow> if c = CHR ''+'' then (if cs = [] then None else parse_digits m 0 cs) else parse_digits m 0 s)"

definition parse_u64 :: "string \<Rightarrow> u64 option" where
  "parse_u64 s = map_option of_nat (parse_unsigned (2 ^ 64) s)"

section \<open>Keys and digests\<close>

text \<open>The text of a digest or key is its base64 form; for \<open>Display\<close> \<open>.get(0..16).unwrap()\<close> of it.\<close>

definition digest_debug :: "(bytes \<Rightarrow> string) \<Rightarrow> digest \<Rightarrow> string" where
  "digest_debug encode d = encode (digest_to_vec d)"

definition first16 :: "string \<Rightarrow> string option" where
  "first16 s = (if 16 \<le> length s then Some (take 16 s) else None)"

definition digest_display :: "(bytes \<Rightarrow> string) \<Rightarrow> digest \<Rightarrow> string option" where
  "digest_display encode d = first16 (encode (digest_to_vec d))"

definition key_debug :: "(bytes \<Rightarrow> string) \<Rightarrow> public_key \<Rightarrow> string" where
  "key_debug encode k = to_base64 encode k"

definition key_display :: "(bytes \<Rightarrow> string) \<Rightarrow> public_key \<Rightarrow> string option" where
  "key_display encode k = first16 (to_base64 encode k)"

text \<open>The serde form; the string \<open>String::deserialize\<close> finds is \<open>None\<close> where it fails.\<close>

definition key_serialize :: "(bytes \<Rightarrow> string) \<Rightarrow> public_key \<Rightarrow> string" where
  "key_serialize encode k = to_base64 encode k"

definition key_deserialize :: "(string \<Rightarrow> bytes option) \<Rightarrow> string option \<Rightarrow> (unit, public_key) outcome" where
  "key_deserialize decode found = (case found of None \<Rightarrow> Err () | Some s \<Rightarrow> from_base64 decode s)"

definition secret_serialize :: "(bytes \<Rightarrow> string) \<Rightarrow> secret_key \<Rightarrow> string" where
  "secret_serialize encode k = secret_to_base64 encode k"

definition secret_deserialize :: "(string \<Rightarrow> bytes option) \<Rightarrow> string option \<Rightarrow> (unit, secret_key) outcome" where
  "secret_deserialize decode found = (case found of None \<Rightarrow> Err () | Some s \<Rightarrow> secret_from_base64 decode s)"

text \<open>\<open>drop\<close> overwrites the bytes of a secret key.\<close>

fun secret_drop :: "secret_key \<Rightarrow> secret_key" where
  "secret_drop (SecretKey w) = SecretKey (word_of_bytes (map (\<lambda>x. 0) (be_bytes 64 w)))"

section \<open>Messages\<close>

text \<open>\<open>write!\<close> of a list of pieces, of which one may panic.\<close>

definition write_fmt :: "string option list \<Rightarrow> string option" where
  "write_fmt pieces = map_option concat (those pieces)"

definition number :: "'a::len word \<Rightarrow> string option" where
  "number n = Some (decimal (unat n))"

definition qc_debug :: "(bytes \<Rightarrow> string) \<Rightarrow> qc \<Rightarrow> string option" where
  "qc_debug encode q = write_fmt [Some ''QC(hash '', digest_display encode (qc_hash q),
     Some '', epoch '', number (qc_epoch q), Some '', height '', number (qc_height q), Some '')'']"

definition block_debug :: "primitives \<Rightarrow> (bytes \<Rightarrow> string) \<Rightarrow> block \<Rightarrow> string option" where
  "block_debug cr encode b = write_fmt [digest_display encode (block_digest cr b),
     Some '': B(author '', key_display encode (b_author b), Some '', height '', number (b_height b),
     Some '', epoch '', number (b_epoch b), Some '', qc '', qc_debug encode (b_qc b),
     Some '', payload_len '', number (sum_list (map (\<lambda>x. of_nat (digest_size x)) (b_payload b)) :: usize),
     Some '', references_len '', number (of_nat (length (b_references b)) :: usize), Some '')'']"

definition payload_debug :: "primitives \<Rightarrow> (bytes \<Rightarrow> string) \<Rightarrow> payload \<Rightarrow> string option" where
  "payload_debug cr encode p = write_fmt [Some ''Payload('', digest_display encode (payload_digest cr p), Some '', '',
     number (of_nat (payload_size p) :: usize), Some '')'']"

definition block_display :: "block \<Rightarrow> string option" where
  "block_display b = write_fmt [Some ''B'', number (b_height b)]"

definition vote_debug :: "(bytes \<Rightarrow> string) \<Rightarrow> vote \<Rightarrow> string option" where
  "vote_debug encode v = write_fmt [Some ''Vote(blockhash '', digest_display encode (v_hash v),
     Some '', proposer '', key_display encode (v_proposer v), Some '', height '', number (v_height v),
     Some '', epoch '', number (v_epoch v), Some '', voter '', key_display encode (v_author v), Some '')'']"

definition vote_display :: "(bytes \<Rightarrow> string) \<Rightarrow> vote \<Rightarrow> string option" where
  "vote_display encode v = write_fmt [Some ''Vote hash '', digest_display encode (v_hash v)]"

definition timeout_debug :: "(bytes \<Rightarrow> string) \<Rightarrow> timeout \<Rightarrow> string option" where
  "timeout_debug encode t = write_fmt [Some ''TV(author '', key_display encode (t_author t),
     Some '', epoch '', number (t_epoch t), Some '', high_qc '', qc_debug encode (t_high_qc t), Some '')'']"

text \<open>\<open>{:?}\<close> of a vector of numbers.\<close>

fun joined :: "string list \<Rightarrow> string" where
  "joined [] = []"
| "joined [s] = s"
| "joined (s # ss) = s @ '', '' @ joined ss"

definition tc_debug :: "tc \<Rightarrow> string option" where
  "tc_debug t = write_fmt [Some ''TC(epoch '', number (tc_epoch t), Some '', high_qc_rounds '',
     Some (''['' @ joined (map (\<lambda>r. decimal (unat r)) (high_qc_rounds t)) @ '']''), Some '')'']"

definition aba_val_debug :: "aba_val \<Rightarrow> string option" where
  "aba_val_debug v = write_fmt [Some ''ABAVal(epoch '', number (av_epoch v), Some '', round '', number (av_round v),
     Some '', phase '', number (av_phase v), Some '', val '', number (av_val v), Some '')'']"

definition aba_proof_debug :: "aba_proof \<Rightarrow> string option" where
  "aba_proof_debug v = write_fmt [Some ''ABAProof(epoch '', number (ap_epoch v), Some '', round '', number (ap_round v),
     Some '', phase '', number (ap_phase v), Some '', val '', number (ap_val v), Some '')'']"

definition share_debug :: "(bytes \<Rightarrow> string) \<Rightarrow> randomness_share \<Rightarrow> string option" where
  "share_debug encode r = write_fmt [Some ''RandomnessShare(author '', key_display encode (rs_author r),
     Some '', epoch '', number (rs_epoch r), Some '', round '', number (rs_round r), Some '')'']"

definition coin_debug :: "random_coin \<Rightarrow> string option" where
  "coin_debug r = write_fmt [Some ''RandomCoin(epoch '', number (rc_epoch r), Some '', round '', number (rc_round r), Some '')'']"

section \<open>Numbers read back\<close>

definition number_of :: "nat \<Rightarrow> string \<Rightarrow> nat" where
  "number_of acc s = foldl (\<lambda>a c. a * 10 + the (to_digit c)) acc s"

definition is_digits :: "string \<Rightarrow> bool" where
  "is_digits s \<longleftrightarrow> (\<forall>c \<in> set s. to_digit c \<noteq> None)"

lemma number_of_simps [simp]:
  "number_of acc [] = acc" "number_of acc (c # cs) = number_of (acc * 10 + the (to_digit c)) cs"
  "number_of acc (s @ s') = number_of (number_of acc s) s'"
  by (simp_all add: number_of_def)

lemma is_digits_simps [simp]:
  "is_digits []" "is_digits (c # cs) \<longleftrightarrow> to_digit c \<noteq> None \<and> is_digits cs"
  "is_digits (s @ s') \<longleftrightarrow> is_digits s \<and> is_digits s'"
  by (auto simp: is_digits_def)

lemma to_digit_digit [simp]: "n < 10 \<Longrightarrow> to_digit (digit n) = Some n"
  by (simp add: to_digit_def digit_def)

lemma to_digit_marks [simp]: "to_digit (CHR ''+'') = None" "to_digit (CHR '','') = None" "to_digit (CHR '')'') = None"
  by (simp_all add: to_digit_def)

lemma number_of_mono: "acc \<le> number_of acc s"
proof (induction s arbitrary: acc)
  case (Cons c cs)
  from Cons [of "acc * 10 + the (to_digit c)"] show ?case by simp
qed simp

lemma decimal_facts: "is_digits (decimal n) \<and> decimal n \<noteq> [] \<and> number_of 0 (decimal n) = n"
proof (induction n rule: decimal.induct)
  case (1 n)
  then show ?case by (cases "n < 10") (simp_all add: decimal.simps [of n])
qed

lemma decimal_digits [simp]: "is_digits (decimal n)" "decimal n \<noteq> []" "number_of 0 (decimal n) = n"
  using decimal_facts by auto

lemma parse_digits_iff:
  "acc < m \<Longrightarrow> parse_digits m acc s = Some n \<longleftrightarrow> is_digits s \<and> number_of acc s = n \<and> n < m"
proof (induction s arbitrary: acc)
  case Nil
  then show ?case by auto
next
  case (Cons c cs)
  show ?case
  proof (cases "to_digit c")
    case (Some x)
    then show ?thesis
      using Cons.IH [of "acc * 10 + x"] number_of_mono [of "acc * 10 + x" cs] by auto
  qed simp
qed

lemma parse_unsigned_iff:
  assumes "0 < m"
  shows "parse_unsigned m s = Some n \<longleftrightarrow>
    (\<exists>ds. (s = ds \<or> s = CHR ''+'' # ds) \<and> ds \<noteq> [] \<and> is_digits ds \<and> number_of 0 ds = n \<and> n < m)"
proof (cases s)
  case (Cons c cs)
  then have "parse_unsigned m s = (if c = CHR ''+'' then (if cs = [] then None else parse_digits m 0 cs) else parse_digits m 0 s)"
    by (simp add: parse_unsigned_def)
  with assms Cons show ?thesis
    by (cases "c = CHR ''+''") (auto simp: parse_digits_iff simp del: parse_digits.simps)
qed (simp add: parse_unsigned_def)

lemma parse_u64_iff:
  "parse_u64 s = Some w \<longleftrightarrow>
    (\<exists>ds. (s = ds \<or> s = CHR ''+'' # ds) \<and> ds \<noteq> [] \<and> is_digits ds \<and> number_of 0 ds = unat w)"
proof -
  have word: "of_nat n = w \<longleftrightarrow> n = unat w" if "n < 2 ^ 64" for n
    using that by (auto simp: unsigned_of_nat take_bit_nat_eq_self)
  have "unat w < 2 ^ 64"
    using unsigned_less [of w] by simp
  moreover have "parse_u64 s = Some w \<longleftrightarrow> (\<exists>n < 2 ^ 64. (\<exists>ds. (s = ds \<or> s = CHR ''+'' # ds) \<and> ds \<noteq> []
      \<and> is_digits ds \<and> number_of 0 ds = n) \<and> of_nat n = w)"
    by (auto simp: parse_u64_def parse_unsigned_iff)
  ultimately show ?thesis using word by blast
qed

lemma parse_u64_decimal: "parse_u64 (decimal (unat w)) = Some w"
  unfolding parse_u64_iff by (rule exI [of _ "decimal (unat w)"]) simp

text \<open>
  A printed number reads back as itself, and a text is read as a number exactly if it is an optional plus
  followed by digits whose value fits.
\<close>

theorem number_text_exact:
  "parse_u64 (decimal (unat w)) = Some w"
  "parse_u64 s = Some w \<longleftrightarrow>
    (\<exists>ds. (s = ds \<or> s = CHR ''+'' # ds) \<and> ds \<noteq> [] \<and> is_digits ds \<and> number_of 0 ds = unat w)"
  by (rule parse_u64_decimal parse_u64_iff)+

section \<open>Texts that tell values apart\<close>

text \<open>
  What the base64 encoding promises (RFC 4648, with padding): three bytes become four
  characters, one group after the other, and different bytes have different texts.
\<close>

definition base64_laws :: "(bytes \<Rightarrow> string) \<Rightarrow> bool" where
  "base64_laws encode \<longleftrightarrow> inj encode \<and> (\<forall>bs. length (encode bs) = 4 * ((length bs + 2) div 3))
     \<and> (\<forall>bs rest. 3 dvd length bs \<longrightarrow> encode (bs @ rest) = encode bs @ encode rest)"

lemma three_twelve: "(3 :: nat) dvd 12"
  by simp

lemma first16_encode:
  assumes "base64_laws encode" and "12 \<le> length bs"
  shows "first16 (encode bs) = Some (encode (take 12 bs))" "length (encode (take 12 bs)) = 16"
proof -
  show len: "length (encode (take 12 bs)) = 16"
    using assms by (simp add: base64_laws_def)
  have "encode (take 12 bs @ drop 12 bs) = encode (take 12 bs) @ encode (drop 12 bs)"
    using assms unfolding base64_laws_def by (metis length_take min.absorb2 three_twelve)
  then have "encode bs = encode (take 12 bs) @ encode (drop 12 bs)"
    by simp
  with len show "first16 (encode bs) = Some (encode (take 12 bs))"
    by (simp add: first16_def)
qed

lemma prefix16:
  "length a = 16 \<Longrightarrow> length a' = 16 \<Longrightarrow> a @ r = a' @ r' \<longleftrightarrow> a = a' \<and> r = r'"
  by simp

lemma decimal_comma:
  assumes "to_digit x = None" and "to_digit y = None"
  shows "decimal m @ x # r = decimal n @ y # r' \<longleftrightarrow> m = n \<and> x = y \<and> r = r'"
proof
  assume eq: "decimal m @ x # r = decimal n @ y # r'"
  have first: "takeWhile (\<lambda>c. to_digit c \<noteq> None) (decimal k @ z # q) = decimal k" if "to_digit z = None" for k z q
    using that decimal_digits(1) [of k] by (simp add: is_digits_def takeWhile_append2)
  have "decimal m = decimal n"
    using arg_cong [OF eq, of "takeWhile (\<lambda>c. to_digit c \<noteq> None)"] first assms by simp
  with eq show "m = n \<and> x = y \<and> r = r'"
    by (metis append_same_eq decimal_digits(3) list.inject same_append_eq)
qed auto

text \<open>
  The text of a vote never panics, and two votes have the same text exactly if their heights and epochs are
  equal and the first 12 bytes of their block digests, proposers and authors are.
\<close>

theorem vote_text_exact:
  assumes "base64_laws encode"
  shows "vote_debug encode v \<noteq> None"
    and "vote_debug encode v = vote_debug encode v' \<longleftrightarrow>
      take 12 (digest_to_vec (v_hash v)) = take 12 (digest_to_vec (v_hash v'))
      \<and> take 12 (key_bytes (v_proposer v)) = take 12 (key_bytes (v_proposer v'))
      \<and> v_height v = v_height v' \<and> v_epoch v = v_epoch v'
      \<and> take 12 (key_bytes (v_author v)) = take 12 (key_bytes (v_author v'))"
proof -
  have digest: "digest_display encode d = Some (encode (take 12 (digest_to_vec d)))"
    and key: "key_display encode k = Some (encode (take 12 (key_bytes k)))"
    and len: "length (encode (take 12 (digest_to_vec d))) = 16" "length (encode (take 12 (key_bytes k))) = 16" for d k
    using first16_encode [OF assms] by (simp_all add: digest_display_def key_display_def to_base64_def)
  have inj: "encode bs = encode bs' \<longleftrightarrow> bs = bs'" for bs bs'
    using assms by (auto simp: base64_laws_def dest: injD)
  show "vote_debug encode v \<noteq> None"
    by (simp add: vote_debug_def write_fmt_def digest key number_def)
  show "vote_debug encode v = vote_debug encode v' \<longleftrightarrow>
      take 12 (digest_to_vec (v_hash v)) = take 12 (digest_to_vec (v_hash v'))
      \<and> take 12 (key_bytes (v_proposer v)) = take 12 (key_bytes (v_proposer v'))
      \<and> v_height v = v_height v' \<and> v_epoch v = v_epoch v'
      \<and> take 12 (key_bytes (v_author v)) = take 12 (key_bytes (v_author v'))"
    by (simp add: vote_debug_def write_fmt_def digest key number_def prefix16 len inj decimal_comma word_unat_eq_iff
        del: append_eq_append_conv)
qed


text \<open>An encoding with these laws, and two votes it prints alike.\<close>

definition byte_char :: "u8 \<Rightarrow> char" where
  "byte_char a = char_of (unat a)"

lemma byte_char_inj [simp]: "byte_char a = byte_char b \<longleftrightarrow> a = b"
proof
  assume "byte_char a = byte_char b"
  then have "of_char (byte_char a) = (of_char (byte_char b) :: nat)" by simp
  moreover have "unat a < 256" "unat b < 256"
    using unsigned_less [of a] unsigned_less [of b] by simp_all
  ultimately show "a = b"
    by (simp add: byte_char_def word_unat_eq_iff)
qed simp

fun example_encode :: "bytes \<Rightarrow> string" where
  "example_encode [] = []"
| "example_encode [a] = [byte_char a, CHR ''='', CHR ''='', CHR ''='']"
| "example_encode [a, b] = [byte_char a, byte_char b, CHR ''-'', CHR ''-'']"
| "example_encode (a # b # c # bs) = [byte_char a, byte_char b, byte_char c, CHR ''+''] @ example_encode bs"

lemma example_encode_laws: "base64_laws example_encode"
  unfolding base64_laws_def
proof (intro conjI allI impI)
  have "bs = bs'" if "example_encode bs = example_encode bs'" for bs bs'
    using that
  proof (induction bs arbitrary: bs' rule: example_encode.induct)
    case 1
    then show ?case by (cases bs' rule: example_encode.cases) auto
  next
    case 2
    then show ?case by (cases bs' rule: example_encode.cases) auto
  next
    case 3
    then show ?case by (cases bs' rule: example_encode.cases) auto
  next
    case (4 a b c bs)
    then show ?case by (cases bs' rule: example_encode.cases) auto
  qed
  then show "inj example_encode" by (rule injI)
  show "length (example_encode bs) = 4 * ((length bs + 2) div 3)" for bs
  proof (induction bs rule: example_encode.induct)
    case (4 a b c bs)
    then show ?case
      using div_add_self2 [of 3 "length bs + 2"] by simp
  qed simp_all
  show "example_encode (bs @ rest) = example_encode bs @ example_encode rest" if "3 dvd length bs" for bs rest
    using that
  proof (induction bs rule: example_encode.induct)
    case (4 a b c bs)
    then show ?case
      using dvd_diff_nat [of 3 "length (a # b # c # bs)" 3] by simp
  qed (simp_all add: nat_dvd_not_less)
qed

lemma vote_text_witness:
  "vote_debug example_encode (\<lparr>v_hash = Digest 1, v_epoch = 0, v_height = 12, v_author = PublicKey 2, v_proposer = PublicKey 1,
      v_signature = default_signature\<rparr>) =
   vote_debug example_encode (\<lparr>v_hash = Digest 2, v_epoch = 0, v_height = 12, v_author = PublicKey 3, v_proposer = PublicKey 4,
      v_signature = default_signature\<rparr>)"
proof -
  have "take 12 (be_bytes 32 (w :: 256 word)) = [0, 0, 0, 0, 0, 0, 0, 0, 0, 0, 0, 0]" if "w \<in> {1, 2, 3, 4}" for w
    using that by (auto simp: be_bytes_def le_bytes_def upt_rec)
  then show ?thesis
    unfolding vote_text_exact(2) [OF example_encode_laws]
    by (simp add: digest_to_vec_def key_bytes_def)
qed

section \<open>Keys read back\<close>

text \<open>
  C37. A public or secret key that is serialized reads back as itself; a text is read as a
  public key exactly if base64 decodes it to bytes that begin with the key's 32, so anything
  may follow them; and reading a text that decodes to fewer bytes panics.
\<close>

theorem key_text_round_trip:
  assumes "\<And>bs. decode (encode bs) = Some bs"
  shows "key_deserialize decode (Some (key_serialize encode k)) = Ok k
    \<and> secret_deserialize decode (Some (secret_serialize encode sk)) = Ok sk
    \<and> (key_deserialize decode (Some s) = Ok k \<longleftrightarrow> (\<exists>rest. decode s = Some (key_bytes k @ rest)))
    \<and> (key_deserialize decode (Some s) = Panic SliceRange \<longleftrightarrow> (\<exists>bs. decode s = Some bs \<and> length bs < 32))"
proof (intro conjI)
  have key: "word_of_bytes (take 32 bs) = key_bits k \<longleftrightarrow> take 32 bs = key_bytes k" if "32 \<le> length bs" for bs
    using be_bytes_word_of_bytes [of "take 32 bs", where ?'a = 256] that
    by (auto simp: key_bytes_def word_of_be_bytes)
  show "key_deserialize decode (Some (key_serialize encode k)) = Ok k"
    using key [of "key_bytes k"]
    by (simp add: key_deserialize_def key_serialize_def from_base64_def to_base64_def assms)
  show "secret_deserialize decode (Some (secret_serialize encode sk)) = Ok sk"
    by (cases sk) (simp add: secret_deserialize_def secret_serialize_def secret_from_base64_def assms word_of_be_bytes)
  have "take 32 bs = key_bytes k \<longleftrightarrow> (\<exists>rest. bs = key_bytes k @ rest)" if "32 \<le> length bs" for bs
    using that by (metis append_eq_conv_conj append_take_drop_id length_key_bytes)
  then show "key_deserialize decode (Some s) = Ok k \<longleftrightarrow> (\<exists>rest. decode s = Some (key_bytes k @ rest))"
    using key
    by (cases k) (auto simp: key_deserialize_def from_base64_def split: option.splits)
  show "key_deserialize decode (Some s) = Panic SliceRange \<longleftrightarrow> (\<exists>bs. decode s = Some bs \<and> length bs < 32)"
    by (auto simp: key_deserialize_def from_base64_def split: option.splits)
qed

text \<open>The decoder of the example encoding; a text of a shorter value is not a key.\<close>

definition char_byte :: "char \<Rightarrow> u8" where
  "char_byte c = of_nat (of_char c)"

fun example_decode :: "string \<Rightarrow> bytes option" where
  "example_decode [] = Some []"
| "example_decode (a # b # c # d # cs) =
     (if d = CHR ''='' then Some [char_byte a] else if d = CHR ''-'' then Some [char_byte a, char_byte b]
      else map_option (\<lambda>bs. char_byte a # char_byte b # char_byte c # bs) (example_decode cs))"
| "example_decode cs = None"

lemma example_decode_encode: "example_decode (example_encode bs) = Some bs"
proof -
  have "char_byte (byte_char a) = a" for a
  proof -
    have "unat a < 256" using unsigned_less [of a] by simp
    then show ?thesis by (simp add: char_byte_def byte_char_def)
  qed
  then show ?thesis
    by (induction bs rule: example_encode.induct) simp_all
qed

lemma key_text_witness:
  "key_deserialize example_decode (Some (key_serialize example_encode (PublicKey 7))) = Ok (PublicKey 7)
   \<and> secret_deserialize example_decode (Some (secret_serialize example_encode (SecretKey 7))) = Ok (SecretKey 7)
   \<and> key_deserialize example_decode (Some ''A==='') = Panic SliceRange"
proof -
  note round = key_text_round_trip [of example_decode example_encode, OF example_decode_encode]
  have "key_deserialize example_decode (Some ''A==='') = Panic SliceRange"
    using round [where s = "''A===''"] by simp
  with round show ?thesis by blast
qed

end
