(* ===== verification/Client.thy ===== *)
theory Client
  imports Mempool_Core Encoding
begin

text \<open>
  \<^verbatim>\<open>node/src/client.rs\<close>: the benchmark client, which sends bursts of transactions
  to a node. Whether the target accepts the connection and which sends fail are the
  environment's; the model is the sequence of transactions sent in the first rounds of the loop.
\<close>

section \<open>Transactions\<close>

definition PRECISION :: u64 where "PRECISION = 20"

text \<open>\<open>put_u8\<close>, \<open>put_u64\<close> and \<open>resize\<close>: a tag, a number and zeros up to the size.\<close>

definition client_tx :: "nat \<Rightarrow> u8 \<Rightarrow> u64 \<Rightarrow> transaction" where
  "client_tx sz tag n = (let bs = tag # be_bytes 8 n in take sz bs @ replicate (sz - length bs) 0)"

text \<open>
  The inner loop over \<open>x\<close>: the sample carries the counter, the others the next value of
  \<open>r\<close>, which wraps. \<open>ok i\<close> says whether the i-th send of the connection succeeds; at the
  first that fails the client leaves both loops, which is the second result \<open>None\<close>.
\<close>

fun send_burst :: "(nat \<Rightarrow> bool) \<Rightarrow> nat \<Rightarrow> u64 \<Rightarrow> u64 \<Rightarrow> u64 list \<Rightarrow> nat \<Rightarrow> u64 \<Rightarrow> transaction list \<times> u64 option" where
  "send_burst ok sz burst counter [] i r = ([], Some r)"
| "send_burst ok sz burst counter (x # xs) i r =
     (let sample = (x = counter mod burst);
          r1 = (if sample then r else r + 1);
          tx = (if sample then client_tx sz 0 counter else client_tx sz 1 r1)
      in if ok i then (case send_burst ok sz burst counter xs (Suc i) r1 of (txs, next) \<Rightarrow> (tx # txs, next))
         else ([], None))"

text \<open>\<open>for x in 0..burst\<close> and the loop around it, for a number of rounds.\<close>

definition client_xs :: "u64 \<Rightarrow> u64 list" where
  "client_xs burst = map of_nat [0..<unat burst]"

fun send_rounds :: "(nat \<Rightarrow> bool) \<Rightarrow> nat \<Rightarrow> nat \<Rightarrow> u64 \<Rightarrow> u64 \<Rightarrow> nat \<Rightarrow> u64 \<Rightarrow> transaction list \<times> bool" where
  "send_rounds ok 0 sz burst counter i r = ([], True)"
| "send_rounds ok (Suc n) sz burst counter i r =
     (case send_burst ok sz burst counter (client_xs burst) i r of
        (txs, None) \<Rightarrow> (txs, False)
      | (txs, Some r') \<Rightarrow> (case send_rounds ok n sz burst (counter + 1) (i + length txs) r' of
          (txs', sending) \<Rightarrow> (txs @ txs', sending)))"

text \<open>
  \<open>Client::send\<close>: what it has sent after \<open>n\<close> rounds, and whether it goes on sending; when it
  does not, the call has come back with \<open>Ok\<close>.
\<close>

definition client_send :: "nat \<Rightarrow> u64 \<Rightarrow> string \<Rightarrow> bool \<Rightarrow> (nat \<Rightarrow> bool) \<Rightarrow> u64 \<Rightarrow> nat \<Rightarrow> string + transaction list \<times> bool" where
  "client_send sz rate target connects ok r n =
     (if sz < 9 then Inl ''Transaction size must be at least 9 bytes''
      else if \<not> connects then Inl (''failed to connect to '' @ target)
      else Inr (send_rounds ok n sz (rate div PRECISION) 0 0 r))"

section \<open>What a failing connection leaves out\<close>

text \<open>The transactions of a connection that does not fail.\<close>

fun client_burst :: "nat \<Rightarrow> u64 \<Rightarrow> u64 \<Rightarrow> u64 list \<Rightarrow> u64 \<Rightarrow> transaction list \<times> u64" where
  "client_burst sz burst counter [] r = ([], r)"
| "client_burst sz burst counter (x # xs) r =
     (if x = counter mod burst
      then (case client_burst sz burst counter xs r of (txs, r') \<Rightarrow> (client_tx sz 0 counter # txs, r'))
      else (case client_burst sz burst counter xs (r + 1) of (txs, r') \<Rightarrow> (client_tx sz 1 (r + 1) # txs, r')))"

fun client_rounds :: "nat \<Rightarrow> nat \<Rightarrow> u64 \<Rightarrow> u64 \<Rightarrow> u64 \<Rightarrow> transaction list" where
  "client_rounds 0 sz burst counter r = []"
| "client_rounds (Suc n) sz burst counter r =
     (case client_burst sz burst counter (client_xs burst) r of
        (txs, r') \<Rightarrow> txs @ client_rounds n sz burst (counter + 1) r')"

text \<open>How many of the sends \<open>i\<close>, \<open>i + 1\<close> and so on succeed before the first that fails.\<close>

fun succeed :: "(nat \<Rightarrow> bool) \<Rightarrow> nat \<Rightarrow> nat \<Rightarrow> nat" where
  "succeed ok i 0 = 0"
| "succeed ok i (Suc m) = (if ok i then Suc (succeed ok (Suc i) m) else 0)"

lemma succeed_le [simp]: "succeed ok i m \<le> m"
  by (induction m arbitrary: i) auto

lemma succeed_all: "succeed ok i m = m \<longleftrightarrow> (\<forall>j. i \<le> j \<and> j < i + m \<longrightarrow> ok j)"
proof (induction m arbitrary: i)
  case (Suc m)
  have "(\<forall>j. i \<le> j \<and> j < i + Suc m \<longrightarrow> ok j) \<longleftrightarrow> ok i \<and> (\<forall>j. Suc i \<le> j \<and> j < Suc i + m \<longrightarrow> ok j)"
    by (auto simp: Suc_le_eq) (metis Suc_leI le_neq_implies_less)
  with Suc [of "Suc i"] show ?case by simp
qed auto

lemma succeed_add:
  "succeed ok i (a + b) = (if succeed ok i a = a then a + succeed ok (i + a) b else succeed ok i a)"
  by (induction a arbitrary: i) auto

lemma send_burst_part:
  "client_burst sz burst counter xs r = (txs, r') \<Longrightarrow>
   send_burst ok sz burst counter xs i r =
     (take (succeed ok i (length txs)) txs, if succeed ok i (length txs) = length txs then Some r' else None)"
proof (induction xs arbitrary: i r txs)
  case (Cons x xs)
  then show ?case
    by (cases "x = counter mod burst") (fastforce simp: Let_def split: prod.splits if_splits)+
qed simp

lemma send_rounds_part:
  "send_rounds ok n sz burst counter i r =
     (let txs = client_rounds n sz burst counter r
      in (take (succeed ok i (length txs)) txs, succeed ok i (length txs) = length txs))"
proof (induction n arbitrary: counter i r)
  case (Suc n)
  obtain txs r' where b: "client_burst sz burst counter (client_xs burst) r = (txs, r')"
    by (cases "client_burst sz burst counter (client_xs burst) r")
  let ?rest = "client_rounds n sz burst (counter + 1) r'"
  have le: "succeed ok i (length txs) \<le> length txs" "succeed ok (i + length txs) (length ?rest) \<le> length ?rest"
    by simp_all
  show ?case
  proof (cases "succeed ok i (length txs) = length txs")
    case True
    then show ?thesis
      by (simp add: b send_burst_part [OF b] Suc Let_def succeed_add)
  next
    case False
    with le(1) have "succeed ok i (length txs) < length txs" by linarith
    with False show ?thesis
      by (simp add: b send_burst_part [OF b] Let_def succeed_add)
  qed
qed simp

section \<open>What the transactions say\<close>

lemma from_be_bytes_word: "from_be_bytes bs = word_of_bytes bs"
  by (simp add: from_be_bytes_def word_of_bytes_def)

lemma from_be_bytes_be_bytes [simp]: "from_be_bytes (be_bytes 8 n) = n"
  using word_of_be_bytes [where ?'a = 64 and n = 8 and w = n] by (simp add: from_be_bytes_word)

lemma client_tx_size [simp]: "length (client_tx sz tag n) = sz"
  by (simp add: client_tx_def Let_def)

lemma client_tx_parts:
  "9 \<le> sz \<Longrightarrow> hd (client_tx sz tag n) = tag \<and> take 8 (drop 1 (client_tx sz tag n)) = be_bytes 8 n"
  by (cases sz) (auto simp: client_tx_def Let_def take_Cons')

lemma client_tx_inj:
  assumes "9 \<le> sz" and "client_tx sz tag n = client_tx sz tag' n'"
  shows "tag = tag' \<and> n = n'"
  using client_tx_parts [OF assms(1), of tag n] client_tx_parts [OF assms(1), of tag' n'] assms(2)
  by (metis from_be_bytes_be_bytes)

lemma sample_id_client_tx:
  "9 \<le> sz \<Longrightarrow> sample_id (client_tx sz tag n) = (if tag = 0 then Some n else None)"
  using client_tx_parts [of sz tag n] by (auto simp: sample_id_def)

definition is_sample :: "transaction \<Rightarrow> bool" where
  "is_sample tx \<longleftrightarrow> sample_id tx \<noteq> None"

text \<open>One burst: the samples, and the other transactions with consecutive numbers.\<close>

lemma client_burst_parts:
  assumes "9 \<le> sz" and "client_burst sz burst counter xs r = (txs, r')"
  shows "filter is_sample txs = map (\<lambda>x. client_tx sz 0 counter) (filter (\<lambda>x. x = counter mod burst) xs)"
    and "filter (\<lambda>tx. \<not> is_sample tx) txs = map (\<lambda>i. client_tx sz 1 (r + of_nat i))
           [1..<Suc (length (filter (\<lambda>x. x \<noteq> counter mod burst) xs))]"
    and "r' = r + of_nat (length (filter (\<lambda>x. x \<noteq> counter mod burst) xs))"
    and "length txs = length xs"
    and "\<forall>tx \<in> set txs. length tx = sz"
proof -
  let ?m = "\<lambda>xs. length (filter (\<lambda>x. x \<noteq> counter mod burst) xs)"
  have "filter is_sample txs = map (\<lambda>x. client_tx sz 0 counter) (filter (\<lambda>x. x = counter mod burst) xs)
    \<and> filter (\<lambda>tx. \<not> is_sample tx) txs = map (\<lambda>i. client_tx sz 1 (r + of_nat i)) [1..<Suc (?m xs)]
    \<and> r' = r + of_nat (?m xs) \<and> length txs = length xs \<and> (\<forall>tx \<in> set txs. length tx = sz)"
    using assms(2)
  proof (induction xs arbitrary: r txs r')
    case Nil
    then show ?case by simp
  next
    case (Cons x xs)
    have s: "is_sample (client_tx sz 0 n)" "\<not> is_sample (client_tx sz 1 n)" for n
      using assms(1) by (simp_all add: is_sample_def sample_id_client_tx)
    show ?case
    proof (cases "x = counter mod burst")
      case True
      with Cons s show ?thesis by (auto split: prod.splits)
    next
      case False
      obtain ts t where b: "client_burst sz burst counter xs (r + 1) = (ts, t)"
        by (cases "client_burst sz burst counter xs (r + 1)")
      have up: "map (\<lambda>i. client_tx sz 1 (r + of_nat i)) [1..<Suc (Suc k)] =
          client_tx sz 1 (r + 1) # map (\<lambda>i. client_tx sz 1 (r + 1 + of_nat i)) [1..<Suc k]" for k
      proof -
        have "[1..<Suc (Suc k)] = 1 # map Suc [1..<Suc k]"
          by (simp add: map_Suc_upt upt_conv_Cons del: upt_Suc)
        then show ?thesis by (simp add: algebra_simps del: upt_Suc)
      qed
      from Cons.IH [OF b] Cons.prems False b s show ?thesis
        using up [of "?m xs"] by (auto simp: algebra_simps simp del: upt_Suc)
    qed
  qed
  then show "filter is_sample txs = map (\<lambda>x. client_tx sz 0 counter) (filter (\<lambda>x. x = counter mod burst) xs)"
    and "filter (\<lambda>tx. \<not> is_sample tx) txs = map (\<lambda>i. client_tx sz 1 (r + of_nat i)) [1..<Suc (?m xs)]"
    and "r' = r + of_nat (?m xs)" and "length txs = length xs" and "\<forall>tx \<in> set txs. length tx = sz"
    by blast+
qed

text \<open>Exactly one position of a burst is the sample's.\<close>

lemma unat_below:
  fixes burst :: u64
  assumes "i < unat burst"
  shows "unat (of_nat i :: u64) = i"
proof -
  have "unat burst < 2 ^ LENGTH(64)" by (rule unsigned_less)
  with assms show ?thesis by (simp add: unsigned_of_nat take_bit_nat_eq_self)
qed

lemma client_xs_facts [simp]:
  "length (client_xs burst) = unat burst" "distinct (client_xs burst)" "set (client_xs burst) = {x. x < burst}"
proof -
  show "length (client_xs burst) = unat burst" by (simp add: client_xs_def)
  have "inj_on (of_nat :: nat \<Rightarrow> u64) {0..<unat burst}"
    by (rule inj_onI) (metis atLeastLessThan_iff unat_below)
  then show "distinct (client_xs burst)" by (simp add: client_xs_def distinct_map)
  show "set (client_xs burst) = {x. x < burst}"
  proof (intro equalityI subsetI)
    fix x assume "x \<in> set (client_xs burst)"
    then obtain i where "i < unat burst" "x = of_nat i" by (auto simp: client_xs_def)
    then show "x \<in> {x. x < burst}" by (simp add: word_less_nat_alt unat_below)
  next
    fix x assume "x \<in> {x. x < burst}"
    then have "unat x < unat burst" by (simp add: word_less_nat_alt)
    then have "(of_nat (unat x) :: u64) \<in> of_nat ` {0..<unat burst}" by (intro imageI) simp
    then show "x \<in> set (client_xs burst)" by (simp add: client_xs_def)
  qed
qed

lemma filter_eq_distinct: "distinct xs \<Longrightarrow> y \<in> set xs \<Longrightarrow> filter (\<lambda>x. x = y) xs = [y]"
  by (induction xs) (auto simp: filter_empty_conv)

lemma one_sample:
  assumes "burst \<noteq> 0"
  shows "filter (\<lambda>x. x = counter mod burst) (client_xs burst) = [counter mod burst]"
    and "length (filter (\<lambda>x. x \<noteq> counter mod burst) (client_xs burst)) = unat burst - 1"
proof -
  have "counter mod burst < burst"
    using assms by (simp add: word_less_nat_alt unat_mod unat_gt_0)
  then show one: "filter (\<lambda>x. x = counter mod burst) (client_xs burst) = [counter mod burst]"
    by (intro filter_eq_distinct) simp_all
  show "length (filter (\<lambda>x. x \<noteq> counter mod burst) (client_xs burst)) = unat burst - 1"
    using sum_length_filter_compl [of "\<lambda>x. x = counter mod burst" "client_xs burst"] one by simp
qed

text \<open>All rounds together.\<close>

lemma upt_append_shift: "map f [0..<m] @ map (\<lambda>i. f (m + i)) [0..<n] = map f [0..<m + n]"
proof -
  have "map (\<lambda>i. f (m + i)) [0..<n] = map f (map (\<lambda>i. i + m) [0..<n])" by (simp add: comp_def add.commute)
  also have "\<dots> = map f [m..<m + n]" by (simp only: map_add_upt add.commute)
  finally show ?thesis by (simp add: upt_add_eq_append [of 0 m n])
qed

lemma client_rounds_parts:
  assumes "9 \<le> sz" and "burst \<noteq> 0"
  shows "filter is_sample (client_rounds n sz burst counter r) = map (\<lambda>i. client_tx sz 0 (counter + of_nat i)) [0..<n]
    \<and> filter (\<lambda>tx. \<not> is_sample tx) (client_rounds n sz burst counter r) =
        map (\<lambda>i. client_tx sz 1 (r + 1 + of_nat i)) [0..<n * (unat burst - 1)]
    \<and> length (client_rounds n sz burst counter r) = n * unat burst
    \<and> (\<forall>tx \<in> set (client_rounds n sz burst counter r). length tx = sz)"
proof (induction n arbitrary: counter r)
  case 0
  then show ?case by simp
next
  case (Suc n)
  obtain txs r' where b: "client_burst sz burst counter (client_xs burst) r = (txs, r')"
    by (cases "client_burst sz burst counter (client_xs burst) r")
  note P = client_burst_parts [OF assms(1) b]
  define k where "k = unat burst - 1"
  have s: "filter is_sample txs = [client_tx sz 0 counter]"
    using P(1) one_sample(1) [OF assms(2), of counter] by simp
  have o: "filter (\<lambda>tx. \<not> is_sample tx) txs = map (\<lambda>i. client_tx sz 1 (r + 1 + of_nat i)) [0..<k]"
  proof -
    have "[1..<Suc k] = map Suc [0..<k]" by (simp add: map_Suc_upt)
    then show ?thesis
      unfolding P(2) one_sample(2) [OF assms(2), of counter] k_def [symmetric]
      by (simp add: algebra_simps del: upt_Suc)
  qed
  have r': "r' = r + of_nat k"
    using P(3) one_sample(2) [OF assms(2), of counter] by (simp add: k_def)
  have "map (\<lambda>i. client_tx sz 0 (counter + of_nat i)) [0..<Suc n] =
      client_tx sz 0 counter # map (\<lambda>i. client_tx sz 0 (counter + 1 + of_nat i)) [0..<n]"
    using upt_append_shift [of "\<lambda>i. client_tx sz 0 (counter + of_nat i)" 1 n] by (simp add: algebra_simps upt_conv_Cons del: upt_Suc)
  moreover have "map (\<lambda>i. client_tx sz 1 (r + 1 + of_nat i)) [0..<Suc n * k] =
      map (\<lambda>i. client_tx sz 1 (r + 1 + of_nat i)) [0..<k] @ map (\<lambda>i. client_tx sz 1 (r' + 1 + of_nat i)) [0..<n * k]"
    using upt_append_shift [of "\<lambda>i. client_tx sz 1 (r + 1 + of_nat i)" k "n * k"]
    by (simp add: r' algebra_simps)
  ultimately show ?case
    using Suc [of "counter + 1" r', folded k_def] s o P(4,5) b unfolding k_def [symmetric] by (auto simp del: upt_Suc mult_Suc) (simp_all add: algebra_simps)
qed

lemma distinct_parts: "distinct (filter P xs) \<Longrightarrow> distinct (filter (\<lambda>x. \<not> P x) xs) \<Longrightarrow> distinct xs"
  by (induction xs) (auto split: if_splits)

lemma distinct_numbers:
  assumes "9 \<le> sz" and "n \<le> 2 ^ 64"
  shows "distinct (map (\<lambda>i. client_tx sz tag (c + of_nat i)) [0..<n])"
proof -
  have "i = j" if "i < n" "j < n" "client_tx sz tag (c + of_nat i) = client_tx sz tag (c + of_nat j)" for i j
  proof -
    have "(of_nat i :: u64) = of_nat j"
      using client_tx_inj [OF assms(1) that(3)] by simp
    then have "unat (of_nat i :: u64) = unat (of_nat j :: u64)" by simp
    moreover have "i < 2 ^ 64" "j < 2 ^ 64" using that(1,2) assms(2) by simp_all
    ultimately show ?thesis by (simp add: unsigned_of_nat take_bit_nat_eq_self)
  qed
  then show ?thesis by (auto simp: distinct_map inj_on_def)
qed

lemma map_filter_sample: "List.map_filter sample_id txs = map (\<lambda>tx. the (sample_id tx)) (filter is_sample txs)"
  by (induction txs) (auto simp: map_filter_def is_sample_def)

text \<open>
  C39. With transactions of at least 9 bytes the client sends, in n rounds, n times rate/20
  transactions of that size, all different up to 2^64 of them, whose samples the mempool logs
  as 0, 1, 2 and so on, up to the first send that fails, where it returns; below a rate of 20
  it sends nothing.
\<close>

theorem client_transactions:
  assumes "9 \<le> sz"
  shows "\<exists>txs. client_send sz rate target True ok r n =
      Inr (take (succeed ok 0 (length txs)) txs, \<forall>i < length txs. ok i) \<and>
    (if rate < PRECISION then txs = []
     else length txs = n * unat (rate div PRECISION)
       \<and> (\<forall>tx \<in> set txs. length tx = sz)
       \<and> fst (log_samples txs s) = Ok (map of_nat [0..<n])
       \<and> (length txs \<le> 2 ^ 64 \<longrightarrow> distinct txs))"
proof -
  let ?burst = "rate div PRECISION"
  let ?txs = "client_rounds n sz ?burst 0 r"
  have send: "client_send sz rate target True ok r n =
      Inr (take (succeed ok 0 (length ?txs)) ?txs, \<forall>i < length ?txs. ok i)"
    using assms by (simp add: client_send_def send_rounds_part Let_def succeed_all)
  have zero: "?burst = 0 \<longleftrightarrow> rate < PRECISION"
    by (simp add: PRECISION_def word_less_nat_alt unat_eq_0 [symmetric] unat_div_distrib div_eq_0_iff del: unat_eq_0)
  show ?thesis
  proof (cases "rate < PRECISION")
    case True
    have "client_rounds n sz 0 c q = []" for c q
      by (induction n arbitrary: c q) (simp_all add: client_xs_def)
    with True zero send show ?thesis by simp
  next
    case False
    then have b: "?burst \<noteq> 0" using zero by simp
    note P = client_rounds_parts [OF assms b, of n 0 r]
    have ids: "List.map_filter sample_id ?txs = map of_nat [0..<n]"
      using P assms by (simp add: map_filter_sample comp_def sample_id_client_tx)
    have ne: "[] \<notin> set ?txs" using P assms by fastforce
    have log: "fst (log_samples ?txs s) = Ok (map of_nat [0..<n])"
      using ids ne by (simp add: log_samples_eq)
    have "distinct ?txs" if "length ?txs \<le> 2 ^ 64"
    proof -
      have len: "n * unat ?burst \<le> 2 ^ 64" using that P by simp
      have "0 < unat ?burst" using b by (simp add: unat_gt_0)
      then have "n \<le> n * unat ?burst" "n * (unat ?burst - 1) \<le> n * unat ?burst" by simp_all
      with len have "n \<le> 2 ^ 64" "n * (unat ?burst - 1) \<le> 2 ^ 64" by linarith+
      then have "distinct (filter is_sample ?txs)" "distinct (filter (\<lambda>tx. \<not> is_sample tx) ?txs)"
        unfolding P [THEN conjunct1] P [THEN conjunct2, THEN conjunct1]
        by (simp_all only: distinct_numbers [OF assms])
      then show ?thesis by (rule distinct_parts)
    qed
    with False P log show ?thesis
      by (intro exI [of _ ?txs]) (simp add: send)
  qed
qed

lemma client_transactions_witness:
  "\<exists>txs. client_send 9 40 [] True (\<lambda>i. i \<noteq> 3) 0 2 = Inr (take 3 txs, False) \<and> length txs = 4 \<and> distinct txs"
proof -
  have "unat ((40 :: u64) div PRECISION) = 2" "\<not> (40 :: u64) < PRECISION"
    by (simp_all add: PRECISION_def)
  moreover have "succeed (\<lambda>i. i \<noteq> 3) 0 4 = 3"
    by (simp add: eval_nat_numeral)
  ultimately show ?thesis
    using client_transactions [of 9 40 "[]" "\<lambda>i. i \<noteq> 3" 0 2] by fastforce
qed

end
