(* ===== verification/Node.thy ===== *)
theory Node
  imports Mempool_Queues Mempool_Waiting Block_Sync
begin

text \<open>
  \<^verbatim>\<open>node/src/config.rs\<close>, \<^verbatim>\<open>node/src/node.rs\<close> and the committees that
  \<^verbatim>\<open>node/src/main.rs\<close> deploys, with the wiring of \<^verbatim>\<open>mempool/src/mempool.rs\<close>
  and \<^verbatim>\<open>consensus/src/consensus.rs\<close>: reading and writing configuration files, the
  threshold keys, and the start of a node. \<open>serde_json\<close>, the file system's refusals, the
  generation of keys and RocksDB's opening are parameters; files are byte strings under
  their paths.
\<close>

section \<open>Configuration files\<close>

datatype node_error =
    ReadError string string
  | WriteError string string
  | NStoreError store_error
  | NConsensusError consensus_error
  | NMempoolError mempool_error

type_synonym 'a node_result = "node_error + 'a"
type_synonym files = "string \<rightharpoonup> bytes"

text \<open>\<open>Export::read\<close>; \<open>parse\<close> is \<open>serde_json::from_slice\<close> with the text of its errors.\<close>

definition export_read :: "(bytes \<Rightarrow> string + 'a) \<Rightarrow> files \<Rightarrow> string \<Rightarrow> 'a node_result" where
  "export_read parse fs path = (case fs path of
     None \<Rightarrow> Inl (ReadError path ''No such file or directory (os error 2)'')
   | Some data \<Rightarrow> map_error (ReadError path) (parse data))"

text \<open>
  \<open>Export::write\<close>: the file is opened with \<open>create\<close> and \<open>write\<close> but without \<open>truncate\<close>,
  so what an older file has beyond the new bytes stays. \<open>refused\<close> says why a path cannot be
  opened for writing.
\<close>

definition overwrite :: "bytes \<Rightarrow> bytes \<Rightarrow> bytes" where
  "overwrite new old = new @ drop (length new) old"

definition export_write :: "('a \<Rightarrow> bytes) \<Rightarrow> (string \<Rightarrow> string option) \<Rightarrow> 'a \<Rightarrow> string \<Rightarrow> files \<Rightarrow>
    unit node_result \<times> files" where
  "export_write pretty refused x path fs = (case refused path of
     Some msg \<Rightarrow> (Inl (WriteError path msg), fs)
   | None \<Rightarrow> (Inr (), fs(path \<mapsto> overwrite (pretty x @ [10]) (case fs path of None \<Rightarrow> [] | Some old \<Rightarrow> old))))"

record secret_file =
  sf_name :: public_key
  sf_secret :: secret_key

text \<open>
  \<open>Secret::new\<close>, with the pair the system's random generator gives, and \<open>Secret::default\<close>,
  with that of a generator whose seed is 32 zeros.
\<close>

definition secret_new :: "256 word \<times> 512 word \<Rightarrow> secret_file" where
  "secret_new keypair = (case generate_keypair id keypair of (nm, sec) \<Rightarrow> \<lparr>sf_name = nm, sf_secret = sec\<rparr>)"

definition secret_default :: "(bytes \<Rightarrow> 256 word \<times> 512 word) \<Rightarrow> secret_file" where
  "secret_default generate = (case generate_keypair generate (replicate 32 0) of
     (nm, sec) \<Rightarrow> \<lparr>sf_name = nm, sf_secret = sec\<rparr>)"

definition print_key_file :: "(secret_file \<Rightarrow> bytes) \<Rightarrow> (string \<Rightarrow> string option) \<Rightarrow> 256 word \<times> 512 word \<Rightarrow>
    string \<Rightarrow> files \<Rightarrow> unit node_result \<times> files" where
  "print_key_file pretty refused keypair path fs = export_write pretty refused (secret_new keypair) path fs"

section \<open>Threshold keys\<close>

text \<open>A \<open>SecretKeySet\<close>, known by the bytes of its shares and of its public part.\<close>

record secret_key_set =
  secret_key_share :: "usize \<Rightarrow> bytes"
  public_key_share :: "usize \<Rightarrow> bytes"
  public_keys :: bytes

record secret_share =
  sh_id :: usize
  sh_name :: bytes
  sh_secret :: bytes
  sh_pkset :: bytes

definition secret_share_new :: "usize \<Rightarrow> bytes \<Rightarrow> bytes \<Rightarrow> bytes \<Rightarrow> secret_share" where
  "secret_share_new i nm sec pks = \<lparr>sh_id = i, sh_name = nm, sh_secret = sec, sh_pkset = pks\<rparr>"

text \<open>\<open>SecretShare::default\<close>: the first share of a fresh set of threshold 0.\<close>

definition secret_share_default :: "(usize \<Rightarrow> secret_key_set) \<Rightarrow> secret_share" where
  "secret_share_default random = (let sks = random 0 in
     secret_share_new 0 (public_key_share sks 0) (secret_key_share sks 0) (public_keys sks))"

definition tss_threshold :: "usize \<Rightarrow> usize" where
  "tss_threshold sz = (sz - 1) div 3"

fun write_shares :: "(secret_share \<Rightarrow> bytes) \<Rightarrow> (string \<Rightarrow> string option) \<Rightarrow> secret_key_set \<Rightarrow>
    usize \<Rightarrow> string list \<Rightarrow> files \<Rightarrow> unit node_result \<times> files" where
  "write_shares pretty refused sks i [] fs = (Inr (), fs)"
| "write_shares pretty refused sks i (path # paths) fs =
     (case export_write pretty refused
         (secret_share_new i (public_key_share sks i) (secret_key_share sks i) (public_keys sks)) path fs of
        (Inl e, fs1) \<Rightarrow> (Inl e, fs1)
      | (Inr _, fs1) \<Rightarrow> write_shares pretty refused sks (i + 1) paths fs1)"

definition print_threshold_key_file :: "(secret_share \<Rightarrow> bytes) \<Rightarrow> (string \<Rightarrow> string option) \<Rightarrow>
    (usize \<Rightarrow> secret_key_set) \<Rightarrow> string list \<Rightarrow> files \<Rightarrow> unit node_result \<times> files" where
  "print_threshold_key_file pretty refused random filenames fs =
     write_shares pretty refused (random (tss_threshold (of_nat (length filenames)))) 0 filenames fs"

section \<open>Start of a node\<close>

record node_committee =
  nc_consensus :: committee
  nc_mempool :: mempool_committee

record node_parameters =
  np_consensus :: parameters
  np_mempool :: mempool_parameters
  np_protocol :: u8

definition default_node_parameters :: node_parameters where
  "default_node_parameters = \<lparr>np_consensus = default_parameters, np_mempool = default_mempool_parameters,
     np_protocol = 0\<rparr>"

text \<open>\<open>set_ip("0.0.0.0")\<close>: the port stays.\<close>

fun any_ip :: "socket_addr \<Rightarrow> socket_addr" where
  "any_ip (V4 ip port) = V4 0 port"
| "any_ip (V6 ip port) = V4 0 port"

text \<open>\<open>Mempool::run\<close>: the addresses it listens on and the tasks it starts.\<close>

definition mempool_boot :: "public_key \<Rightarrow> mempool_committee \<Rightarrow> mempool_parameters \<Rightarrow> 'db \<Rightarrow> signature_service \<Rightarrow>
    (socket_addr \<times> socket_addr \<times> 'db mempool \<times> mempool_sync) mempool_result" where
  "mempool_boot nm c params st svc =
     rbind (front_address c nm) (\<lambda>front. rbind (mempool_address c nm) (\<lambda>adr.
       Inr (any_ip front, any_ip adr, mempool_new nm c params st svc,
            mempool_sync_new nm c (mp_sync_retry_delay params))))"

text \<open>\<open>Consensus::run\<close>; the leaders are elected from the committee itself.\<close>

definition consensus_boot :: "public_key \<Rightarrow> committee \<Rightarrow> parameters \<Rightarrow> 'db \<Rightarrow> signature_service \<Rightarrow> public_key_set \<Rightarrow>
    (socket_addr \<times> socket_addr \<times> 'db block_sync \<times> 'db core) consensus_result" where
  "consensus_boot nm c params st svc pks =
     rbind (address c nm) (\<lambda>adr. rbind (smvba_address c nm) (\<lambda>sadr.
       Inr (any_ip adr, any_ip sadr, block_sync_new nm c st (sync_retry_delay params),
            core_new nm c params svc pks st c)))"

record 'db node =
  node_mempool :: "socket_addr \<times> socket_addr \<times> 'db mempool \<times> mempool_sync"
  node_consensus :: "socket_addr \<times> socket_addr \<times> 'db block_sync \<times> 'db core"

text \<open>
  The parameters of \<open>Node::new\<close>: the parsers of the four files, the opening of the store,
  and what a threshold share and a public key set do once loaded.
\<close>

record 'db node_env =
  parse_committee :: "bytes \<Rightarrow> string + node_committee"
  parse_secret :: "bytes \<Rightarrow> string + secret_file"
  parse_share :: "bytes \<Rightarrow> string + secret_share"
  parse_parameters :: "bytes \<Rightarrow> string + node_parameters"
  open_store :: "string \<Rightarrow> store_error + 'db"
  share_signer :: "bytes \<Rightarrow> digest \<Rightarrow> signature_share"
  load_key_set :: "bytes \<Rightarrow> public_key_set"

definition node_new :: "'db node_env \<Rightarrow> files \<Rightarrow> string \<Rightarrow> string \<Rightarrow> string \<Rightarrow> string \<Rightarrow> string option \<Rightarrow>
    'db node node_result" where
  "node_new env fs committee_file key_file tss_file store_path parameters_file =
     rbind (export_read (parse_committee env) fs committee_file) (\<lambda>c.
     rbind (export_read (parse_secret env) fs key_file) (\<lambda>secret.
     rbind (export_read (parse_share env) fs tss_file) (\<lambda>share.
     rbind (case parameters_file of
         Some path \<Rightarrow> export_read (parse_parameters env) fs path
       | None \<Rightarrow> Inr default_node_parameters) (\<lambda>params.
     rbind (map_error NStoreError (open_store env store_path)) (\<lambda>st.
     let svc = signature_service_new (sf_secret secret) (Some (share_signer env (sh_secret share))) in
     rbind (map_error NMempoolError (mempool_boot (sf_name secret) (nc_mempool c) (np_mempool params) st svc)) (\<lambda>mp.
     rbind (map_error NConsensusError (consensus_boot (sf_name secret) (nc_consensus c) (np_consensus params) st svc
         (load_key_set env (sh_pkset share)))) (\<lambda>cs.
     Inr \<lparr>node_mempool = mp, node_consensus = cs\<rparr>)))))))"

section \<open>The local test bed\<close>

text \<open>\<open>format!("127.0.0.1:{}", port).parse().unwrap()\<close>.\<close>

definition local_address :: "nat \<Rightarrow> socket_addr option" where
  "local_address port = (if port < 65536 then Some (V4 0x7F000001 (of_nat port)) else None)"

text \<open>The committees of \<open>deploy_testbed\<close>; \<open>None\<close> where an \<open>unwrap\<close> panics.\<close>

definition testbed_committees :: "public_key list \<Rightarrow> (mempool_committee \<times> committee) option" where
  "testbed_committees keys =
     (if \<forall>i < length keys. \<forall>base \<in> {7000, 7100, 7200, 7300}. local_address (base + i) \<noteq> None
      then Some
        (mempool_committee_new (map (\<lambda>(i, k). (k, the (local_address (7000 + i)), the (local_address (7100 + i))))
           (enumerate 0 keys)) 1,
         committee_new (map (\<lambda>(i, k). (k, 0, 1, the (local_address (7200 + i)), the (local_address (7300 + i))))
           (enumerate 0 keys)) 1)
      else None)"

section \<open>Files read back\<close>

definition json_space :: "u8 \<Rightarrow> bool" where
  "json_space b \<longleftrightarrow> b = 32 \<or> b = 9 \<or> b = 10 \<or> b = 13"

text \<open>
  What \<open>serde_json\<close> documents of a struct: it reads back what it wrote, allows white space
  after it and refuses anything else, with some message.
\<close>

definition json_laws :: "('a \<Rightarrow> bytes) \<Rightarrow> (bytes \<Rightarrow> string + 'a) \<Rightarrow> bool" where
  "json_laws pretty parse \<longleftrightarrow> (\<forall>x rest.
     if \<forall>b \<in> set rest. json_space b then parse (pretty x @ rest) = Inr x
     else \<exists>e. parse (pretty x @ rest) = Inl e)"

text \<open>
  C35. A configuration file written by Export::write and read by Export::read gives back the
  value exactly if what an older, longer file leaves behind the new bytes is white space;
  otherwise the node refuses the file with a ReadError, since write does not truncate.
\<close>

theorem export_round_trip:
  assumes "json_laws pretty parse" and "refused path = None"
  shows "if \<forall>old. fs path = Some old \<longrightarrow> (\<forall>b \<in> set (drop (Suc (length (pretty x))) old). json_space b)
    then export_read parse (snd (export_write pretty refused x path fs)) path = Inr x
    else \<exists>e. export_read parse (snd (export_write pretty refused x path fs)) path = Inl (ReadError path e)"
proof -
  have "if \<forall>b \<in> set rest. json_space b then parse (pretty x @ 10 # rest) = Inr x
      else \<exists>e. parse (pretty x @ 10 # rest) = Inl e" for rest
    using assms(1) [unfolded json_laws_def, rule_format, of "10 # rest" x] by (simp add: json_space_def)
  from this [of "[]"] this [of "drop (Suc (length (pretty x))) (the (fs path))"] show ?thesis
    using assms(2) by (auto simp: export_write_def export_read_def overwrite_def split: option.split if_splits)
qed

definition example_parse :: "bytes \<Rightarrow> string + unit" where
  "example_parse bs = (if take 2 bs \<noteq> [123, 125] then Inl ''expected value''
     else if list_all json_space (drop 2 bs) then Inr () else Inl ''trailing characters'')"

lemma export_round_trip_witness:
  "export_read example_parse (snd (export_write (\<lambda>_. [123, 125]) (\<lambda>_. None) () ''f'' Map.empty)) ''f'' = Inr ()
   \<and> (\<exists>e. export_read example_parse (snd (export_write (\<lambda>_. [123, 125]) (\<lambda>_. None) () ''f'' [''f'' \<mapsto> [123, 10, 10, 125]])) ''f''
       = Inl (ReadError ''f'' e))"
proof -
  have "json_laws (\<lambda>_. [123, 125]) example_parse"
    by (auto simp: json_laws_def example_parse_def list_all_iff)
  note round = export_round_trip [OF this, of "\<lambda>_. None" "''f''" _ "()"]
  from round [of Map.empty] round [of "[''f'' \<mapsto> [123, 10, 10, 125]]"] show ?thesis
    by (simp add: json_space_def)
qed

section \<open>Threshold keys fit the coin\<close>

definition share_of :: "secret_key_set \<Rightarrow> nat \<Rightarrow> secret_share" where
  "share_of sks i = secret_share_new (of_nat i) (public_key_share sks (of_nat i)) (secret_key_share sks (of_nat i))
     (public_keys sks)"

lemma write_shares_files:
  assumes "\<forall>f. refused f = None" and "distinct paths" and "\<forall>f \<in> set paths. fs f = None"
  shows "\<exists>fs'. write_shares pretty refused sks (of_nat k) paths fs = (Inr (), fs')
    \<and> (\<forall>i < length paths. fs' (paths ! i) = Some (pretty (share_of sks (k + i)) @ [10]))
    \<and> (\<forall>f. f \<notin> set paths \<longrightarrow> fs' f = fs f)"
  using assms
proof (induction paths arbitrary: k fs)
  case Nil
  then show ?case by simp
next
  case (Cons p ps)
  define share where "share = (\<lambda>i. pretty (share_of sks i) @ [10])"
  define fs1 where "fs1 = fs(p \<mapsto> share k)"
  have "\<exists>fs'. write_shares pretty refused sks (of_nat (Suc k)) ps fs1 = (Inr (), fs')
    \<and> (\<forall>i < length ps. fs' (ps ! i) = Some (pretty (share_of sks (Suc k + i)) @ [10]))
    \<and> (\<forall>f. f \<notin> set ps \<longrightarrow> fs' f = fs1 f)"
    by (rule Cons.IH) (use Cons.prems in \<open>auto simp: fs1_def\<close>)
  then obtain fs' where run: "write_shares pretty refused sks (of_nat (Suc k)) ps fs1 = (Inr (), fs')"
      and rest: "\<forall>i < length ps. fs' (ps ! i) = Some (share (Suc k + i))"
      and frame: "\<forall>f. f \<notin> set ps \<longrightarrow> fs' f = fs1 f"
    unfolding share_def by blast
  have "export_write pretty refused (share_of sks k) p fs = (Inr (), fs1)"
    using Cons.prems by (simp add: export_write_def overwrite_def fs1_def share_def)
  then have "write_shares pretty refused sks (of_nat k) (p # ps) fs = (Inr (), fs')"
    using run by (simp add: share_of_def add.commute)
  moreover have "\<forall>i < length (p # ps). fs' ((p # ps) ! i) = Some (share (k + i))"
  proof (intro allI impI)
    fix i
    assume "i < length (p # ps)"
    then show "fs' ((p # ps) ! i) = Some (share (k + i))"
      using rest frame Cons.prems(2) by (cases i) (auto simp: fs1_def)
  qed
  moreover have "\<forall>f. f \<notin> set (p # ps) \<longrightarrow> fs' f = fs f"
    using frame by (simp add: fs1_def)
  ultimately show ?case unfolding share_def by blast
qed

lemma unat_tss_threshold:
  assumes "0 < n" and "n < 2 ^ 64"
  shows "unat (tss_threshold (of_nat n)) = (n - 1) div 3"
proof -
  have "unat (of_nat n :: usize) = n"
    using assms(2) by (simp add: unsigned_of_nat take_bit_nat_eq_self)
  then have "unat ((of_nat n :: usize) - 1) = n - 1"
    using assms(1) by (metis One_nat_def less_numeral_extra(3) unat_0 unat_minus_one)
  then show ?thesis by (simp add: tss_threshold_def unat_div_distrib)
qed

text \<open>
  C36. print_threshold_key_file writes to the i-th of distinct new files the share with index
  i of one key set, and the number of shares that key set needs for a coin is the one the coin
  makers of a committee of as many stakes wait for.
\<close>

theorem threshold_keys_fit_coin:
  assumes "\<forall>f. refused f = None" and "distinct filenames" and "\<forall>f \<in> set filenames. fs f = None"
    and "stakes_fit c" and "total_stake c = length filenames"
  shows "\<exists>fs'. print_threshold_key_file pretty refused random filenames fs = (Inr (), fs')
    \<and> (\<forall>i < length filenames. fs' (filenames ! i) =
         Some (pretty (share_of (random (tss_threshold (of_nat (length filenames)))) i) @ [10]))
    \<and> unat (tss_threshold (of_nat (length filenames))) + 1 = unat (random_coin_threshold c)"
proof -
  have "0 < length filenames" "length filenames < 2 ^ 64"
    using assms(4,5) by (auto simp: stakes_fit_def)
  from unat_tss_threshold [OF this]
  have "unat (tss_threshold (of_nat (length filenames))) + 1 = unat (random_coin_threshold c)"
    using unat_random_coin_threshold [OF assms(4)] assms(5) by simp
  then show ?thesis
    using write_shares_files [OF assms(1,2,3), of pretty "random (tss_threshold (of_nat (length filenames)))" 0]
    by (auto simp: print_threshold_key_file_def)
qed

definition example_key_set_bytes :: secret_key_set where
  "example_key_set_bytes = \<lparr>secret_key_share = (\<lambda>i. [ucast i]), public_key_share = (\<lambda>i. [ucast i]), public_keys = []\<rparr>"

lemma threshold_keys_fit_coin_witness:
  "\<exists>fs. print_threshold_key_file sh_secret (\<lambda>_. None) (\<lambda>t. example_key_set_bytes)
       [''a'', ''b'', ''c'', ''d''] Map.empty = (Inr (), fs)
     \<and> fs ''c'' = Some [2, 10] \<and> unat (tss_threshold 4) + 1 = unat (random_coin_threshold example_committee)"
proof -
  from example_ok(2,3) obtain fs where fs: "print_threshold_key_file sh_secret (\<lambda>_. None) (\<lambda>t. example_key_set_bytes)
       [''a'', ''b'', ''c'', ''d''] Map.empty = (Inr (), fs)"
    "\<forall>i < 4. fs ([''a'', ''b'', ''c'', ''d''] ! i) = Some (sh_secret (share_of example_key_set_bytes i) @ [10])"
    "unat (tss_threshold 4) + 1 = unat (random_coin_threshold example_committee)"
    using threshold_keys_fit_coin [of "\<lambda>_. None" "[''a'', ''b'', ''c'', ''d'']" Map.empty example_committee
        sh_secret "\<lambda>t. example_key_set_bytes"] by auto
  have "fs ''c'' = Some [2, 10]"
    using spec [OF fs(2), of 2] by (simp add: share_of_def secret_share_new_def example_key_set_bytes_def)
  with fs(1,3) show ?thesis by blast
qed

section \<open>Which nodes start\<close>

lemma map_error_eq: "map_error f r = Inl e \<longleftrightarrow> (\<exists>x. r = Inl x \<and> e = f x)"
  by (cases r) auto

lemma mempool_boot_iff: "(\<exists>b. mempool_boot nm c params st svc = Inr b) \<longleftrightarrow> committee_exists c nm"
  by (auto simp: mempool_boot_def rbind_eq_Inr committee_exists_def front_address_def mempool_address_def
      split: option.split)

lemma consensus_boot_iff: "(\<exists>b. consensus_boot nm c params st svc pks = Inr b) \<longleftrightarrow> nm \<in> set (members c)"
proof -
  have "(\<exists>a. map_of (authorities c) nm = Some a) \<longleftrightarrow> nm \<in> set (members c)"
    by (metis map_of_eq_None_iff members_def not_None_eq set_map)
  then show ?thesis
    by (auto simp: consensus_boot_def rbind_eq_Inr address_def smvba_address_def split: option.split)
qed

text \<open>
  A node starts exactly if its four files are read, the store opens and the node is in both
  committees. The share file need not be the node's own: nothing compares the index of the
  share with the committee.
\<close>

theorem node_starts_iff:
  "(\<exists>n. node_new env fs committee_file key_file tss_file store_path (Some parameters_file) = Inr n) \<longleftrightarrow>
   (\<exists>c secret share params st.
      export_read (parse_committee env) fs committee_file = Inr c
      \<and> export_read (parse_secret env) fs key_file = Inr secret
      \<and> export_read (parse_share env) fs tss_file = Inr share
      \<and> export_read (parse_parameters env) fs parameters_file = Inr params
      \<and> open_store env store_path = Inr st
      \<and> committee_exists (nc_mempool c) (sf_name secret)
      \<and> sf_name secret \<in> set (members (nc_consensus c)))"
  using mempool_boot_iff consensus_boot_iff
  by (fastforce simp: node_new_def rbind_eq_Inr Let_def)

text \<open>In the committee of the test bed every authority has the share index 0.\<close>

lemma committee_new_ids:
  assumes "\<forall>(nm, i, st, adr, sadr) \<in> set info. i = 0"
  shows "\<forall>(k, a) \<in> set (authorities (committee_new info ep)). a_id a = 0"
proof -
  let ?upd = "\<lambda>(nm, i, st, adr, sadr). AList.update nm
        \<lparr>a_name = nm, a_id = i, a_stake = st, a_address = adr, a_smvba_address = sadr\<rparr>"
  have "\<forall>(k, a) \<in> set (fold ?upd info acc). a_id a = 0" if "\<forall>(k, a) \<in> set acc. a_id a = 0" for acc
    using assms that
  proof (induction info arbitrary: acc)
    case (Cons x info)
    obtain nm i st adr sadr where x: "x = (nm, i, st, adr, sadr)" by (cases x)
    have "\<forall>(k, a) \<in> set (?upd x acc). a_id a = 0"
      using Cons.prems set_AList_update
      by (fastforce simp: x)
    with Cons show ?case by simp
  qed simp
  from this [of "[]"] show ?thesis by (simp add: committee_new_def)
qed

lemma testbed_ids_zero:
  assumes "testbed_committees keys = Some (mc, cc)" and "committee_id cc k = Some i"
  shows "i = 0"
proof -
  let ?info = "map (\<lambda>(i, k). (k, 0 :: usize, 1, the (local_address (7200 + i)), the (local_address (7300 + i))))
     (enumerate 0 keys)"
  have "cc = committee_new ?info 1"
    using assms(1) by (simp add: testbed_committees_def split: if_splits)
  moreover have "\<forall>(nm, i, st, adr, sadr) \<in> set ?info. i = 0" by auto
  ultimately have "\<forall>(k, a) \<in> set (authorities cc). a_id a = 0"
    using committee_new_ids by blast
  then show ?thesis
    using assms(2) by (auto simp: committee_id_def dest: map_of_SomeD)
qed

end
