(* ===== verification/Command_Line.thy ===== *)
theory Command_Line
  imports Node Client Text_Forms
begin

text \<open>
  The two programs of \<^verbatim>\<open>node/src\<close>: the commands of \<^verbatim>\<open>main.rs\<close> with the local test
  bed, and the start of the benchmark client in \<^verbatim>\<open>client.rs\<close>. The matching of the
  command line (\<open>clap\<close>), the logger, the parser of socket addresses and what can be reached
  over TCP are parameters.
\<close>

section \<open>The benchmark client\<close>

record client =
  cl_target :: socket_addr
  cl_size :: usize
  cl_rate :: u64
  cl_timeout :: u64
  cl_synctime :: u64
  cl_nodes :: "socket_addr list"

text \<open>The arguments \<open>clap\<close> has found; all but the list of nodes are required.\<close>

record client_args =
  arg_addr :: string
  arg_timeout :: string
  arg_synctime :: string
  arg_size :: string
  arg_rate :: string
  arg_nodes :: "string list"

text \<open>\<open>.context(message)?\<close>; an error is known by its outermost message.\<close>

definition with_context :: "string \<Rightarrow> 'a option \<Rightarrow> string + 'a" where
  "with_context msg r = (case r of None \<Rightarrow> Inl msg | Some x \<Rightarrow> Inr x)"

definition client_of_args :: "(string \<Rightarrow> socket_addr option) \<Rightarrow> client_args \<Rightarrow> string + client" where
  "client_of_args parse_addr args =
     rbind (with_context ''Invalid socket address format'' (parse_addr (arg_addr args))) (\<lambda>target.
     rbind (with_context ''The size of transactions must be a non-negative integer'' (parse_u64 (arg_size args))) (\<lambda>sz.
     rbind (with_context ''The rate of transactions must be a non-negative integer'' (parse_u64 (arg_rate args))) (\<lambda>rate.
     rbind (with_context ''The timeout value must be a non-negative integer'' (parse_u64 (arg_timeout args))) (\<lambda>timeout.
     rbind (with_context ''The timeout value must be a non-negative integer'' (parse_u64 (arg_synctime args))) (\<lambda>synctime.
     rbind (with_context ''Invalid socket address format'' (those (map parse_addr (arg_nodes args)))) (\<lambda>nodes.
     Inr \<lparr>cl_target = target, cl_size = sz, cl_rate = rate, cl_timeout = timeout, cl_synctime = synctime,
          cl_nodes = nodes\<rparr>))))))"

text \<open>
  \<open>Client::wait\<close>: a task per node tries to connect every 10 milliseconds until it succeeds;
  \<open>up address n\<close> says whether the n-th attempt does. The result is the number of attempts of
  the slowest task.
\<close>

partial_function (option) connect_loop :: "(nat \<Rightarrow> bool) \<Rightarrow> nat \<Rightarrow> nat option" where
  "connect_loop up n = (if up n then Some n else connect_loop up (n + 1))"

definition client_wait :: "(socket_addr \<Rightarrow> nat \<Rightarrow> bool) \<Rightarrow> client \<Rightarrow> nat option" where
  "client_wait up c = map_option (\<lambda>ns. foldr max ns 0) (those (map (\<lambda>a. connect_loop (up a) 0) (cl_nodes c)))"

text \<open>
  \<open>main\<close> of the client: what it has sent \<open>n\<close> rounds after the waiting and whether it goes on, or
  its error; \<open>None\<close> while it waits forever. \<open>conn\<close> says which addresses accept the connection,
  \<open>ok\<close> which sends over it succeed; \<open>r\<close> is the random start of the counter and
  \<open>show_addr\<close> prints an address.
\<close>

definition client_main :: "(string \<Rightarrow> socket_addr option) \<Rightarrow> (socket_addr \<Rightarrow> string) \<Rightarrow> (socket_addr \<Rightarrow> nat \<Rightarrow> bool) \<Rightarrow>
    (socket_addr \<Rightarrow> bool) \<Rightarrow> (nat \<Rightarrow> bool) \<Rightarrow> u64 \<Rightarrow> nat \<Rightarrow> client_args \<Rightarrow> (string + transaction list \<times> bool) option" where
  "client_main parse_addr show_addr up conn ok r n args = (case client_of_args parse_addr args of
     Inl e \<Rightarrow> Some (Inl e)
   | Inr c \<Rightarrow> Option.bind (client_wait up c) (\<lambda>_.
       Some (map_error (\<lambda>_. ''Failed to submit transactions'')
         (client_send (unat (cl_size c)) (cl_rate c) (show_addr (cl_target c)) (conn (cl_target c)) ok r n))))"

section \<open>The local test bed\<close>

text \<open>
  The parameters of the commands: how \<open>serde_json\<close> prints the three kinds of files, which
  paths cannot be written or removed, and the random keys. The directories of old stores are
  removed before; what \<open>open_store\<close> of the node finds is a parameter in any case.
\<close>

record 'db main_env =
  node_env :: "'db node_env"
  pretty_secret :: "secret_file \<Rightarrow> bytes"
  pretty_share :: "secret_share \<Rightarrow> bytes"
  pretty_committee :: "node_committee \<Rightarrow> bytes"
  refused :: "string \<Rightarrow> string option"
  locked :: "string \<Rightarrow> bool"
  keypair :: "nat \<Rightarrow> 256 word \<times> 512 word"
  key_set :: "usize \<Rightarrow> secret_key_set"

text \<open>\<open>let _ = fs::remove_file(path)\<close>.\<close>

definition remove_file :: "'db main_env \<Rightarrow> string \<Rightarrow> files \<Rightarrow> files" where
  "remove_file env path fs = (if locked env path then fs else fs(path := None))"

definition node_file :: "nat \<Rightarrow> string" where
  "node_file i = ''node_'' @ decimal i @ ''.json''"

definition store_dir :: "nat \<Rightarrow> string" where
  "store_dir i = ''db_'' @ decimal i"

text \<open>
  The spawned tasks, each known by the files and the directory it starts a node with, and the
  loop over the keys, which stops at the first key file that cannot be written.
\<close>

record spawned =
  sp_committee :: string
  sp_keys :: string
  sp_threshold :: string
  sp_store :: string

fun spawn_nodes :: "'db main_env \<Rightarrow> nat \<Rightarrow> secret_file list \<Rightarrow> files \<Rightarrow> spawned list node_result \<times> files" where
  "spawn_nodes env i [] fs = (Inr [], fs)"
| "spawn_nodes env i (key # keys) fs =
     (case export_write (pretty_secret env) (refused env) key (node_file i) (remove_file env (node_file i) fs) of
        (Inl e, fs1) \<Rightarrow> (Inl e, fs1)
      | (Inr _, fs1) \<Rightarrow> (case spawn_nodes env (i + 1) keys fs1 of
          (Inl e, fs2) \<Rightarrow> (Inl e, fs2)
        | (Inr handles, fs2) \<Rightarrow> (Inr (\<lparr>sp_committee = ''committee.json'', sp_keys = node_file i,
              sp_threshold = node_file i, sp_store = store_dir i\<rparr> # handles), fs2)))"

definition deploy_testbed :: "'db main_env \<Rightarrow> nat \<Rightarrow> files \<Rightarrow> (node_error, spawned list) outcome \<times> files" where
  "deploy_testbed env n fs =
     (let keys = map (\<lambda>i. secret_new (keypair env i)) [0..<n] in
      case testbed_committees (map sf_name keys) of
        None \<Rightarrow> (Panic UnwrapNone, fs)
      | Some (mempool, consensus) \<Rightarrow>
          (case export_write (pretty_committee env) (refused env) \<lparr>nc_consensus = consensus, nc_mempool = mempool\<rparr>
              ''committee.json'' (remove_file env ''committee.json'' fs) of
             (Inl e, fs1) \<Rightarrow> (Err e, fs1)
           | (Inr _, fs1) \<Rightarrow> (case spawn_nodes env 0 keys fs1 of
               (Inl e, fs2) \<Rightarrow> (Err e, fs2)
             | (Inr handles, fs2) \<Rightarrow> (Ok handles, fs2))))"

text \<open>What a spawned task does first.\<close>

definition spawned_node :: "'db main_env \<Rightarrow> files \<Rightarrow> spawned \<Rightarrow> 'db node node_result" where
  "spawned_node env fs sp = node_new (node_env env) fs (sp_committee sp) (sp_keys sp) (sp_threshold sp) (sp_store sp) None"

section \<open>The commands\<close>

datatype command =
    Keys string
  | ThresholdKeys "string list"
  | Run string string string "string option" string
  | Deploy string

text \<open>What the program does after the files: nothing more, an error in the log, a node, a test bed.\<close>

datatype 'db main_result =
    Finished
  | Logged node_error
  | BadCount
  | DeployFailed node_error
  | Running "'db node"
  | TestBed "spawned list"
  | MainPanic

text \<open>\<open>node_main\<close>: the match over the subcommands; \<open>clap\<close> lets no other one through.\<close>

fun node_main :: "'db main_env \<Rightarrow> command \<Rightarrow> files \<Rightarrow> 'db main_result \<times> files" where
  "node_main env (Keys filename) fs =
     (case print_key_file (pretty_secret env) (refused env) (keypair env 0) filename fs of
        (Inl e, fs1) \<Rightarrow> (Logged e, fs1) | (Inr _, fs1) \<Rightarrow> (Finished, fs1))"
| "node_main env (ThresholdKeys filenames) fs =
     (case print_threshold_key_file (pretty_share env) (refused env) (key_set env) filenames fs of
        (Inl e, fs1) \<Rightarrow> (Logged e, fs1) | (Inr _, fs1) \<Rightarrow> (Finished, fs1))"
| "node_main env (Run key_file threshold_key_file committee_file parameters_file store_path) fs =
     (case node_new (node_env env) fs committee_file key_file threshold_key_file store_path parameters_file of
        Inl e \<Rightarrow> (Logged e, fs) | Inr node \<Rightarrow> (Running node, fs))"
| "node_main env (Deploy nodes) fs =
     (case parse_u64 nodes of
        None \<Rightarrow> (BadCount, fs)
      | Some n \<Rightarrow> if 0 < n then
          (case deploy_testbed env (unat n) fs of
             (Ok handles, fs1) \<Rightarrow> (TestBed handles, fs1)
           | (Err e, fs1) \<Rightarrow> (DeployFailed e, fs1)
           | (_, fs1) \<Rightarrow> (MainPanic, fs1))
          else (BadCount, fs))"

section \<open>When the client starts\<close>

lemma connect_loop_Some: "up m \<Longrightarrow> n \<le> m \<Longrightarrow> \<exists>k. connect_loop up n = Some k"
proof (induction "m - n" arbitrary: n)
  case 0
  then show ?case by (subst connect_loop.simps) auto
next
  case (Suc d)
  show ?case
  proof (cases "up n")
    case False
    with Suc.prems have "Suc n \<le> m" by (metis le_eq_less_or_eq Suc_leI)
    moreover have "connect_loop up n = connect_loop up (Suc n)"
      using False by (subst connect_loop.simps) simp
    ultimately show ?thesis
      using Suc.hyps(1) [of "Suc n"] Suc.hyps(2) Suc.prems(1) by simp
  qed (simp add: connect_loop.simps)
qed

lemma connect_loop_up:
  assumes "connect_loop up n = Some k"
  shows "up k"
  by (rule connect_loop.raw_induct [where P = "\<lambda>up n k. up k", OF _ assms]) (auto split: if_splits)

lemma connect_loop_iff: "connect_loop up 0 \<noteq> None \<longleftrightarrow> (\<exists>n. up n)"
  using connect_loop_Some [of up _ 0] connect_loop_up [of up 0] by blast

lemma those_iff: "those xs \<noteq> None \<longleftrightarrow> None \<notin> set xs"
  by (induction xs) (auto split: option.splits)

text \<open>
  The client comes back from its waiting exactly if its arguments are refused or every node it waits for can
  be reached at some time; it then sends what the arguments say.
\<close>

theorem client_main_returns:
  "client_main parse_addr show_addr up conn ok r n args \<noteq> None \<longleftrightarrow>
     (\<forall>c. client_of_args parse_addr args = Inr c \<longrightarrow> (\<forall>a \<in> set (cl_nodes c). \<exists>k. up a k))"
  "client_main parse_addr show_addr up conn ok r n args = Some result \<Longrightarrow>
     result = rbind (client_of_args parse_addr args) (\<lambda>c.
       map_error (\<lambda>_. ''Failed to submit transactions'')
         (client_send (unat (cl_size c)) (cl_rate c) (show_addr (cl_target c)) (conn (cl_target c)) ok r n))"
proof -
  have wait: "client_wait up c \<noteq> None \<longleftrightarrow> (\<forall>a \<in> set (cl_nodes c). \<exists>k. up a k)" for c
  proof -
    have "client_wait up c \<noteq> None \<longleftrightarrow> None \<notin> (\<lambda>a. connect_loop (up a) 0) ` set (cl_nodes c)"
      using those_iff [of "map (\<lambda>a. connect_loop (up a) 0) (cl_nodes c)"] by (simp add: client_wait_def)
    also have "\<dots> \<longleftrightarrow> (\<forall>a \<in> set (cl_nodes c). connect_loop (up a) 0 \<noteq> None)"
      by (metis (no_types, lifting) image_iff)
    finally show ?thesis by (simp only: connect_loop_iff)
  qed
  show "client_main parse_addr show_addr up conn ok r n args \<noteq> None \<longleftrightarrow>
     (\<forall>c. client_of_args parse_addr args = Inr c \<longrightarrow> (\<forall>a \<in> set (cl_nodes c). \<exists>k. up a k))"
  proof (cases "client_of_args parse_addr args")
    case (Inr c)
    then show ?thesis
      using wait [of c] by (cases "client_wait up c") (simp_all add: client_main_def)
  qed (simp add: client_main_def)
  show "client_main parse_addr show_addr up conn ok r n args = Some result \<Longrightarrow>
     result = rbind (client_of_args parse_addr args) (\<lambda>c.
       map_error (\<lambda>_. ''Failed to submit transactions'')
         (client_send (unat (cl_size c)) (cl_rate c) (show_addr (cl_target c)) (conn (cl_target c)) ok r n))"
    by (auto simp: client_main_def split: sum.splits bind_splits)
qed

definition example_args :: client_args where
  "example_args = \<lparr>arg_addr = ''a'', arg_timeout = ''1000'', arg_synctime = ''+5'', arg_size = ''16'', arg_rate = ''200'',
     arg_nodes = [''a'']\<rparr>"

lemma client_main_witness:
  "client_main (\<lambda>s. if s = ''a'' then Some (V4 1 2) else None) (\<lambda>a. []) (\<lambda>a k. k = 2)
     (\<lambda>a. a = V4 1 2) (\<lambda>i. True) 0 0 example_args = Some (Inr ([], True))"
proof -
  let ?parse = "\<lambda>s. if s = ''a'' then Some (V4 1 2) else None" and ?up = "\<lambda>a k :: nat. k = 2"
    and ?conn = "\<lambda>a. a = V4 1 2" and ?ok = "\<lambda>i :: nat. True" and ?show = "\<lambda>a :: socket_addr. [] :: string"
  have args: "client_of_args ?parse example_args = Inr \<lparr>cl_target = V4 1 2, cl_size = 16, cl_rate = 200, cl_timeout = 1000,
      cl_synctime = 5, cl_nodes = [V4 1 2]\<rparr>"
    by (simp add: client_of_args_def example_args_def with_context_def parse_u64_def parse_unsigned_def to_digit_def)
  obtain result where result: "client_main ?parse ?show ?up ?conn ?ok 0 0 example_args = Some result"
    using client_main_returns(1) [of ?parse ?show ?up ?conn ?ok 0 0 example_args] by blast
  from client_main_returns(2) [OF this] show ?thesis
    unfolding result args by (simp add: client_send_def)
qed

section \<open>The test bed fails\<close>

lemma decimal_eq [simp]: "decimal m = decimal n \<longleftrightarrow> m = n"
  by (metis decimal_digits(3))

lemma node_file_eq [simp]: "node_file i = node_file j \<longleftrightarrow> i = j" "node_file i \<noteq> ''committee.json''"
  by (simp_all add: node_file_def)

lemma spawn_nodes_files:
  assumes "\<forall>f. refused env f = None" and "\<forall>f. \<not> locked env f"
  shows "\<exists>fs'. spawn_nodes env i keys fs = (Inr (map (\<lambda>j. \<lparr>sp_committee = ''committee.json'', sp_keys = node_file j,
      sp_threshold = node_file j, sp_store = store_dir j\<rparr>) [i..<i + length keys]), fs')
    \<and> (\<forall>j < length keys. fs' (node_file (i + j)) = Some (pretty_secret env (keys ! j) @ [10]))
    \<and> (\<forall>f. (\<forall>j \<ge> i. f \<noteq> node_file j) \<longrightarrow> fs' f = fs f)"
proof (induction keys arbitrary: i fs)
  case (Cons key keys)
  define fs1 where "fs1 = fs(node_file i \<mapsto> pretty_secret env key @ [10])"
  have wrote: "export_write (pretty_secret env) (refused env) key (node_file i) (remove_file env (node_file i) fs) = (Inr (), fs1)"
    using assms by (simp add: export_write_def remove_file_def overwrite_def fs1_def)
  from Cons.IH [of "i + 1" fs1] obtain fs'
    where run: "spawn_nodes env (i + 1) keys fs1 = (Inr (map (\<lambda>j. \<lparr>sp_committee = ''committee.json'', sp_keys = node_file j,
        sp_threshold = node_file j, sp_store = store_dir j\<rparr>) [Suc i..<Suc i + length keys]), fs')"
      and files: "\<forall>j < length keys. fs' (node_file (Suc i + j)) = Some (pretty_secret env (keys ! j) @ [10])"
      and frame: "\<forall>f. (\<forall>j \<ge> Suc i. f \<noteq> node_file j) \<longrightarrow> fs' f = fs1 f"
    by auto
  have "fs' (node_file (i + j)) = Some (pretty_secret env ((key # keys) ! j) @ [10])" if "j < length (key # keys)" for j
    using that files frame by (cases j) (auto simp: fs1_def)
  moreover have "fs' f = fs f" if "\<forall>j \<ge> i. f \<noteq> node_file j" for f
    using that frame by (auto simp: fs1_def)
  moreover have "[i..<i + length (key # keys)] = i # [Suc i..<Suc i + length keys]"
    by (simp add: upt_rec)
  ultimately show ?case
    using run wrote by auto
qed simp

lemma local_address_None [simp]: "local_address port = None \<longleftrightarrow> 65536 \<le> port"
  by (simp add: local_address_def)

lemma testbed_committees_iff: "testbed_committees keys \<noteq> None \<longleftrightarrow> length keys \<le> 58236"
proof -
  have "(\<forall>i < length keys. 7300 + i < 65536) \<longleftrightarrow> length keys \<le> 58236"
    by (cases "length keys") auto
  moreover have "(\<forall>base \<in> {7000, 7100, 7200, 7300}. local_address (base + i) \<noteq> None) \<longleftrightarrow> 7300 + i < 65536" for i
    by auto
  ultimately show ?thesis
    by (auto simp: testbed_committees_def simp del: local_address_None)
qed

text \<open>
  C38. The deploy command for 1 to 58236 nodes, on a file system that refuses nothing, ends
  with that many tasks, and every one of them, whenever it runs, ends with a ReadError for its
  key file, which it is also given as the file of its threshold share.
\<close>

theorem testbed_nodes_fail:
  assumes "\<forall>f. refused env f = None" and "\<forall>f. \<not> locked env f"
    and committee: "\<And>c. \<exists>c'. parse_committee (node_env env) (pretty_committee env c @ [10]) = Inr c'"
    and secret: "\<And>s. \<exists>s'. parse_secret (node_env env) (pretty_secret env s @ [10]) = Inr s'"
    and share: "\<And>s. \<exists>msg. parse_share (node_env env) (pretty_secret env s @ [10]) = Inl msg"
    and n: "0 < n" "n \<le> 58236"
  shows "\<exists>handles fs'. node_main env (Deploy (decimal n)) fs = (TestBed handles, fs') \<and> length handles = n
    \<and> (\<forall>i < n. \<forall>fs''. fs'' ''committee.json'' = fs' ''committee.json'' \<and> fs'' (node_file i) = fs' (node_file i) \<longrightarrow>
         (\<exists>msg. spawned_node env fs'' (handles ! i) = Inl (ReadError (node_file i) msg)))"
proof -
  define keys where "keys = map (\<lambda>i. secret_new (keypair env i)) [0..<n]"
  obtain mc cc where cs: "testbed_committees (map sf_name keys) = Some (mc, cc)"
    using testbed_committees_iff [of "map sf_name keys"] n by (auto simp: keys_def)
  define fs1 where "fs1 = fs(''committee.json'' \<mapsto> pretty_committee env \<lparr>nc_consensus = cc, nc_mempool = mc\<rparr> @ [10])"
  have wrote: "export_write (pretty_committee env) (refused env) \<lparr>nc_consensus = cc, nc_mempool = mc\<rparr> ''committee.json''
      (remove_file env ''committee.json'' fs) = (Inr (), fs1)"
    using assms(1,2) by (simp add: export_write_def remove_file_def overwrite_def fs1_def)
  let ?sp = "\<lambda>j. \<lparr>sp_committee = ''committee.json'', sp_keys = node_file j, sp_threshold = node_file j, sp_store = store_dir j\<rparr>"
  obtain fs' where spawn: "spawn_nodes env 0 keys fs1 = (Inr (map ?sp [0..<n]), fs')"
    and files: "\<And>j. j < n \<Longrightarrow> fs' (node_file j) = Some (pretty_secret env (keys ! j) @ [10])"
    and frame: "\<And>f. \<forall>j. f \<noteq> node_file j \<Longrightarrow> fs' f = fs1 f"
    using spawn_nodes_files [OF assms(1,2), of 0 keys fs1] by (auto simp: keys_def)
  have unat: "unat (of_nat n :: u64) = n"
    using n by (simp add: unsigned_of_nat take_bit_nat_eq_self)
  then have "parse_u64 (decimal n) = Some (of_nat n)" "of_nat n \<noteq> (0 :: u64)"
    using parse_u64_decimal [of "of_nat n"] n by auto
  moreover have "deploy_testbed env n fs = (Ok (map ?sp [0..<n]), fs')"
    using cs wrote spawn by (simp add: deploy_testbed_def Let_def keys_def)
  ultimately have run: "node_main env (Deploy (decimal n)) fs = (TestBed (map ?sp [0..<n]), fs')"
    by (simp add: unat word_neq_0_conv)
  have "\<exists>msg. spawned_node env fs'' (?sp i) = Inl (ReadError (node_file i) msg)"
    if i: "i < n" and fs'': "fs'' ''committee.json'' = fs' ''committee.json''" "fs'' (node_file i) = fs' (node_file i)" for i fs''
  proof -
    have "fs' ''committee.json'' = fs1 ''committee.json''"
      by (rule frame) (metis node_file_eq(2))
    then obtain c where "export_read (parse_committee (node_env env)) fs'' ''committee.json'' = Inr c"
      using committee [of "\<lparr>nc_consensus = cc, nc_mempool = mc\<rparr>"] fs''(1) by (auto simp: export_read_def fs1_def)
    moreover obtain sec where "export_read (parse_secret (node_env env)) fs'' (node_file i) = Inr sec"
      using secret [of "keys ! i"] fs''(2) files [OF i] by (auto simp: export_read_def)
    moreover obtain msg where "parse_share (node_env env) (pretty_secret env (keys ! i) @ [10]) = Inl msg"
      using share by blast
    then have "export_read (parse_share (node_env env)) fs'' (node_file i) = Inl (ReadError (node_file i) msg)"
      using fs''(2) files [OF i] by (simp add: export_read_def)
    ultimately show ?thesis
      by (simp add: spawned_node_def node_new_def)
  qed
  with run show ?thesis by simp
qed

definition example_main_env :: "unit main_env" where
  "example_main_env = \<lparr>node_env = \<lparr>parse_committee = (\<lambda>bs. Inr \<lparr>nc_consensus = example_committee, nc_mempool = mempool_committee_new [] 1\<rparr>),
       parse_secret = (\<lambda>bs. Inr \<lparr>sf_name = PublicKey 1, sf_secret = SecretKey 7\<rparr>),
       parse_share = (\<lambda>bs. Inl ''missing field `id`''), parse_parameters = (\<lambda>bs. Inr default_node_parameters),
       open_store = (\<lambda>path. Inr ()), share_signer = (\<lambda>bs d. SignatureShare []), load_key_set = (\<lambda>bs. example_key_set)\<rparr>,
     pretty_secret = (\<lambda>s. [123, 125]), pretty_share = (\<lambda>s. [123, 125]), pretty_committee = (\<lambda>c. [123, 125]),
     refused = (\<lambda>f. None), locked = (\<lambda>f. False), keypair = (\<lambda>i. (of_nat i, of_nat i)),
     key_set = (\<lambda>t. example_key_set_bytes)\<rparr>"

lemma testbed_nodes_fail_witness:
  "\<exists>handles fs'. node_main example_main_env (Deploy ''4'') Map.empty = (TestBed handles, fs') \<and> length handles = 4
    \<and> (\<forall>i < 4. \<exists>msg. spawned_node example_main_env fs' (handles ! i) = Inl (ReadError (node_file i) msg))"
proof -
  have "\<exists>handles fs'. node_main example_main_env (Deploy (decimal 4)) Map.empty = (TestBed handles, fs') \<and> length handles = 4
    \<and> (\<forall>i < 4. \<forall>fs''. fs'' ''committee.json'' = fs' ''committee.json'' \<and> fs'' (node_file i) = fs' (node_file i) \<longrightarrow>
         (\<exists>msg. spawned_node example_main_env fs'' (handles ! i) = Inl (ReadError (node_file i) msg)))"
    by (rule testbed_nodes_fail) (simp_all add: example_main_env_def)
  moreover have "decimal 4 = ''4''"
    by code_simp
  ultimately show ?thesis by auto
qed

section \<open>Its addresses\<close>

lemma map_of_fold_update_other:
  "k \<notin> f ` set xs \<Longrightarrow> map_of (fold (\<lambda>x. AList.update (f x) (g x)) xs al) k = map_of al k"
  by (induction xs arbitrary: al) auto

lemma map_of_fold_update:
  "x \<in> set xs \<Longrightarrow> distinct (map f xs) \<Longrightarrow> map_of (fold (\<lambda>x. AList.update (f x) (g x)) xs al) (f x) = Some (g x)"
proof (induction xs arbitrary: al)
  case (Cons y ys)
  then show ?case
    by (cases "x \<in> set ys") (auto simp: map_of_fold_update_other)
qed simp

text \<open>The four addresses a node of the test bed listens on.\<close>

definition listens :: "mempool_committee \<Rightarrow> committee \<Rightarrow> public_key \<Rightarrow> socket_addr list" where
  "listens mc cc k = (case (front_address mc k, mempool_address mc k, address cc k, smvba_address cc k) of
     (Inr a, Inr b, Inr c, Inr d) \<Rightarrow> [a, b, c, d] | _ \<Rightarrow> [])"

lemma listens_testbed:
  assumes "testbed_committees keys = Some (mc, cc)" and "distinct keys" and "i < length keys"
  shows "listens mc cc (keys ! i) = map (\<lambda>base. V4 0x7F000001 (of_nat (base + i))) [7000, 7100, 7200, 7300]"
proof -
  let ?mi = "\<lambda>(i, k). (k, the (local_address (7000 + i)), the (local_address (7100 + i)))"
  let ?ci = "\<lambda>(i, k). (k, 0 :: usize, 1 :: u32, the (local_address (7200 + i)), the (local_address (7300 + i)))"
  have bound: "length keys \<le> 58236"
    using assms(1) testbed_committees_iff [of keys] by simp
  have mem: "(i, keys ! i) \<in> set (enumerate 0 keys)"
    using assms(3) by (auto simp: in_set_enumerate_eq)
  have dist: "distinct (map snd (enumerate 0 keys))"
    using assms(2) by simp
  have "mc = mempool_committee_new (map ?mi (enumerate 0 keys)) 1" "cc = committee_new (map ?ci (enumerate 0 keys)) 1"
    using assms(1) by (simp_all add: testbed_committees_def split: if_splits)
  then have "map_of (mc_authorities mc) (keys ! i) = Some \<lparr>ma_name = keys ! i, ma_front_address = the (local_address (7000 + i)),
      ma_mempool_address = the (local_address (7100 + i))\<rparr>"
    and "map_of (authorities cc) (keys ! i) = Some \<lparr>a_name = keys ! i, a_id = 0, a_stake = 1,
      a_address = the (local_address (7200 + i)), a_smvba_address = the (local_address (7300 + i))\<rparr>"
    by (simp_all add: mempool_committee_new_def committee_new_def fold_map comp_def case_prod_beta'
        map_of_fold_update [OF mem dist, simplified])
  with bound assms(3) show ?thesis
    by (simp add: listens_def front_address_def mempool_address_def address_def smvba_address_def local_address_def)
qed

text \<open>
  The addresses on which the nodes of a test bed with different keys are told to listen
  are all different exactly if there are at most 100 nodes.
\<close>

theorem testbed_addresses_clash:
  assumes "testbed_committees keys = Some (mc, cc)" and "distinct keys"
  shows "distinct (concat (map (listens mc cc) keys)) \<longleftrightarrow> length keys \<le> 100"
proof -
  let ?g = "\<lambda>(i, base). V4 0x7F000001 (of_nat (base + i))" and ?bases = "[7000, 7100, 7200, 7300 :: nat]"
  let ?n = "length keys"
  have bound: "?n \<le> 58236"
    using assms(1) testbed_committees_iff [of keys] by simp
  have "map (listens mc cc) keys = map (\<lambda>i. map (\<lambda>base. ?g (i, base)) ?bases) [0..<?n]"
    using listens_testbed [OF assms] by (intro nth_equalityI) simp_all
  then have "concat (map (listens mc cc) keys) = map ?g (List.product [0..<?n] ?bases)"
    by (simp add: product_concat_map map_concat comp_def)
  then have "distinct (concat (map (listens mc cc) keys)) \<longleftrightarrow> inj_on ?g ({0..<?n} \<times> set ?bases)"
    by (simp add: distinct_map distinct_product)
  also have "\<dots> \<longleftrightarrow> ?n \<le> 100"
  proof
    show "?n \<le> 100" if inj: "inj_on ?g ({0..<?n} \<times> set ?bases)"
    proof (rule ccontr)
      assume "\<not> ?n \<le> 100"
      then show False
        using inj_onD [OF inj, of "(100, 7000)" "(0, 7100)"] by (cases keys) auto
    qed
    have word: "(of_nat a :: 16 word) = of_nat b \<longleftrightarrow> a = b" if "a < 65536" "b < 65536" for a b
    proof -
      have "unat (of_nat a :: 16 word) = a" "unat (of_nat b :: 16 word) = b"
        using that by (simp_all add: unsigned_of_nat take_bit_nat_eq_self)
      then show ?thesis by metis
    qed
    show "inj_on ?g ({0..<?n} \<times> set ?bases)" if n: "?n \<le> 100"
    proof (rule inj_onI, clarify)
      fix i base j base'
      assume i: "i \<in> {0..<?n}" "base \<in> set ?bases" and j: "j \<in> {0..<?n}" "base' \<in> set ?bases"
        and eq: "(of_nat (base + i) :: 16 word) = of_nat (base' + j)"
      have "base + i = base' + j"
        using word [THEN iffD1, OF _ _ eq] i j n by auto
      with i j n show "i = j \<and> base = base'" by auto
    qed
  qed
  finally show ?thesis .
qed

lemma testbed_addresses_witness:
  "\<exists>mc cc. testbed_committees (map (PublicKey \<circ> of_nat) [0..<4]) = Some (mc, cc)
    \<and> distinct (concat (map (listens mc cc) (map (PublicKey \<circ> of_nat) [0..<4])))"
proof -
  let ?keys = "map (PublicKey \<circ> of_nat) [0..<4]"
  obtain mc cc where cs: "testbed_committees ?keys = Some (mc, cc)"
    using testbed_committees_iff [of ?keys] by auto
  moreover have "distinct ?keys"
    by (simp add: upt_rec)
  ultimately show ?thesis
    using testbed_addresses_clash [OF cs] by auto
qed

end
