(* ===== verification/Vote_Recursion.thy ===== *)
theory Vote_Recursion
  imports Chain_Frame Examples
begin

text \<open>
  The recursion of \<open>handle_vote\<close>: a vote that completes a certificate makes the node propose
  and vote for the next block of its chain, and its own vote is handled in turn. It comes back
  after at most as many rounds as there are heights with votes on file, since a certificate
  clears its height.
\<close>

section \<open>Votes on file\<close>

text \<open>No votes but for the heights \<open>D\<close>, and makers for the committee \<open>c\<close>.\<close>

definition votes_within :: "committee \<Rightarrow> u64 set \<Rightarrow> chain \<Rightarrow> bool" where
  "votes_within c D ch \<longleftrightarrow> ag_committee (ch_aggregator ch) = c \<and> dom (votes_aggregators (ch_aggregator ch)) \<subseteq> D"

abbreviation within :: "committee \<Rightarrow> u64 set \<Rightarrow> 'db core \<times> chain \<Rightarrow> bool" where
  "within c D sc \<equiv> votes_within c D (snd sc)"

lemma votes_within_update [simp]:
  "votes_within c D (ch\<lparr>ch_last_voted_height := h\<rparr>) = votes_within c D ch"
  "votes_within c D (ch\<lparr>ch_last_committed_height := h\<rparr>) = votes_within c D ch"
  "votes_within c D (ch\<lparr>ch_height := h\<rparr>) = votes_within c D ch"
  "votes_within c D (ch\<lparr>ch_high_qc := q\<rparr>) = votes_within c D ch"
  "votes_within c D (ch\<lparr>ch_height_to_digest := m\<rparr>) = votes_within c D ch"
  by (simp_all add: votes_within_def)

lemma within_core [pres_rules]: "pres (\<lambda>s. within c D (s, ch)) m"
  by (simp add: pres_def)

lemma within_commit_prev_block: "pres (within c D) (commit_prev_block env n b to_commit)"
proof (induction n arbitrary: b to_commit)
  case 0
  then show ?case by (simp add: pres_rules)
next
  case (Suc n)
  show ?case
    unfolding commit_prev_block.simps
    by (intro pres_rules pres_modify_chain Suc.IH) simp
qed

lemma within_steps [pres_rules]:
  "pres (within c D) (commit env b)" "pres (within c D) (make_vote env b)"
  "pres (within c D) (generate_proposal env tag)" "pres (within c D) (update_high_qc q)"
  unfolding commit_def make_vote_def generate_proposal_def increase_last_voted_round_def update_high_qc_def Let_def
  by (intro pres_rules within_commit_prev_block pres_modify_chain; simp)+

lemma within_process_block_commit [pres_rules]: "pres (within c D) (process_block_commit env b0 b1)"
  unfolding process_block_commit_def by (intro pres_rules)

text \<open>A certificate for a height clears the votes up to it.\<close>

lemma process_qc_clears:
  assumes "within c D (s, ch)" and "\<not> qc_height q < ch_height ch" and "process_qc q (s, ch) = (Ok (), sc)"
  shows "within c {h \<in> D. qc_height q + 1 \<le> h} sc"
proof -
  obtain leader where "leader_of (epoch s) s = (Ok leader, s)" 
    and eq: "sc = snd (update_high_qc q (s, ch\<lparr>ch_height := qc_height q + 1,
        ch_aggregator := cleanup (epoch s) (qc_height q + 1) (ch_aggregator ch)\<rparr>))"
    using assms(2,3)
    by (auto simp: process_qc_def advance_height_def act_defs plumbing_defs split: option.splits)
  have "within c {h \<in> D. qc_height q + 1 \<le> h} (s, ch\<lparr>ch_height := qc_height q + 1,
      ch_aggregator := cleanup (epoch s) (qc_height q + 1) (ch_aggregator ch)\<rparr>)"
    using assms(1) by (auto simp: votes_within_def cleanup_def dom_retain)
  then show ?thesis unfolding eq by (rule presD [OF within_steps(4)])
qed

section \<open>The rounds of the recursion\<close>

text \<open>Two continuations that agree on the states a computation can leave behind.\<close>

lemma bind_cong_Ok: "(\<And>x s'. m s = (Ok x, s') \<Longrightarrow> f x s' = g x s') \<Longrightarrow> bind m f s = bind m g s"
  by (auto simp: bind_def split: prod.split outcome.split)

lemma bind_cong_pres:
  "pres I m \<Longrightarrow> I s \<Longrightarrow> (\<And>x s'. I s' \<Longrightarrow> f x s' = g x s') \<Longrightarrow> bind m f s = bind m g s"
  by (rule bind_cong_Ok) (metis presD snd_conv)

lemma process_block_vote_cong:
  assumes "within c D sc" and "\<And>v sc. within c D sc \<Longrightarrow> hv v sc = hv' v sc"
  shows "process_block_vote env hv b sc = process_block_vote env hv' b sc"
  unfolding process_block_vote_def
  by (rule bind_cong_pres [of "within c D", OF _ assms(1)], intro pres_rules)
    (auto intro!: bind_cong_pres [of "within c D", OF within_steps(2)] simp: assms(2) split: option.split)

lemma broadcast_propose_cong:
  assumes "within c D sc" and "\<And>v sc. within c D sc \<Longrightarrow> hv v sc = hv' v sc"
  shows "broadcast_propose env hv b sc = broadcast_propose env hv' b sc"
  unfolding broadcast_propose_def process_block_def
  by (intro bind_cong_pres [of "within c D"] process_block_vote_cong [OF _ assms(2)] assms(1) pres_rules
      | assumption | clarify)+

lemma add_vote_none:
  assumes "votes_within c D ch" and "v_height v \<notin> D" and "stake c (v_author v) < quorum_threshold c"
  shows "fst (add_vote v (ch_aggregator ch)) = Inr None"
  using assms by (auto simp: add_vote_def qc_maker_append_def qc_maker_new_def entry_or_def votes_within_def
      not_le [symmetric] Let_def split: option.splits prod.splits)

lemma add_vote_within:
  "votes_within c D ch \<Longrightarrow> v_height v \<in> D \<Longrightarrow> add_vote v (ch_aggregator ch) = (r, ag) \<Longrightarrow>
   votes_within c D (ch\<lparr>ch_aggregator := ag\<rparr>)"
  by (auto simp: add_vote_def votes_within_def subset_iff dom_def split: prod.splits if_splits)

lemma add_vote_height: "add_vote v ag = (Inr (Some q), ag') \<Longrightarrow> qc_height q = v_height v"
  by (auto simp: add_vote_def qc_maker_append_def Let_def split: prod.splits if_splits)

text \<open>One round, up to the certificate.\<close>

lemma bind_steps:
  "bind (gets get) f s = f (get s) s" "bind (lift (Inl e)) f' s = (Err e, s)" "bind (lift (Inr x)) f s = f x s"
  "bind (chain_aggregate agg) k (t, ch) = (case agg (ch_aggregator ch) of
     (Inl e, ag) \<Rightarrow> (Err e, (t, ch\<lparr>ch_aggregator := ag\<rparr>))
   | (Inr y, ag) \<Rightarrow> k y (t, ch\<lparr>ch_aggregator := ag\<rparr>))"
  by (auto simp: act_defs chain_aggregate_def split: prod.split sum.split)

lemma handle_vote_rec_round:
  "handle_vote_rec env (Suc n) v (s, ch) =
    (if v_height v < ch_height ch then (Ok (), (s, ch))
     else case vote_verify (prims env) (core_committee s) v of
       Inl e \<Rightarrow> (Err e, (s, ch))
     | Inr _ \<Rightarrow> (case add_vote v (ch_aggregator ch) of
         (Inl e, ag) \<Rightarrow> (Err e, (s, ch\<lparr>ch_aggregator := ag\<rparr>))
       | (Inr None, ag) \<Rightarrow> (Ok (), (s, ch\<lparr>ch_aggregator := ag\<rparr>))
       | (Inr (Some q), ag) \<Rightarrow> bind (process_qc q) (\<lambda>_. bind (generate_proposal env False) (\<lambda>b.
           broadcast_propose env (handle_vote_rec env n) b)) (s, ch\<lparr>ch_aggregator := ag\<rparr>)))"
  by (cases "vote_verify (prims env) (core_committee s) v")
    (auto simp: bind_steps ret_def split: option.split prod.split sum.split)

text \<open>
  C26. When no authority is a quorum alone and there are no votes for the last height, the
  recursion of Core::handle_vote (a completed certificate makes the node propose, vote and
  handle its own vote) ends: any two recursion bounds above the number of heights with votes
  on file give the same outcome and the same state.
\<close>

theorem vote_recursion_ends:
  fixes env :: "'db env" and s :: "'db core"
  assumes "\<forall>k. stake (ag_committee (ch_aggregator ch)) k < quorum_threshold (ag_committee (ch_aggregator ch))"
    and "finite (dom (votes_aggregators (ch_aggregator ch)))"
    and "votes_aggregators (ch_aggregator ch) (- 1) = None"
    and "card (dom (votes_aggregators (ch_aggregator ch))) < n"
    and "card (dom (votes_aggregators (ch_aggregator ch))) < m"
  shows "handle_vote_rec env n v (s, ch) = handle_vote_rec env m v (s, ch)"
proof -
  let ?c = "ag_committee (ch_aggregator ch)"
  have "handle_vote_rec env n v (s, ch) = handle_vote_rec env m v (s, ch)"
    if "votes_within ?c D ch" "finite D" "- 1 \<notin> D" "card D < n" "card D < m" for D n m v s ch
    using that
  proof (induction n arbitrary: D m v s ch)
    case (Suc n)
    then obtain m' where m: "m = Suc m'" by (cases m) auto
    let ?next = "\<lambda>k q. bind (process_qc q) (\<lambda>_. bind (generate_proposal env False) (\<lambda>b.
      broadcast_propose env (handle_vote_rec env k) b))"
    have step: "?next n q (s, ch1) = ?next m' q (s, ch1)"
      if v: "\<not> v_height v < ch_height ch" and agg: "add_vote v (ch_aggregator ch) = (Inr (Some q), ag)"
        and ch1: "ch1 = ch\<lparr>ch_aggregator := ag\<rparr>" for q ag ch1
    proof (rule bind_cong_Ok)
      fix x sc
      assume qc: "process_qc q (s, ch1) = (Ok x, sc)"
      let ?D = "{h \<in> D. v_height v + 1 \<le> h}"
      have h: "v_height v \<in> D"
        using add_vote_none [OF Suc.prems(1)] assms(1) agg by force
      then have "v_height v \<noteq> - 1" using Suc.prems(3) by auto
      then have "\<not> v_height v + 1 \<le> v_height v"
        using unatSuc [of "v_height v"] by (auto simp: word_le_nat_alt add.commute add_eq_0_iff)
      then have "?D \<subset> D" using h by auto
      then have "card ?D < card D"
        by (rule psubset_card_mono [OF Suc.prems(2)])
      then have card: "card ?D < n" "card ?D < m'"
        using Suc.prems(4,5) unfolding m by linarith+
      have "within ?c ?D sc"
        using process_qc_clears [of ?c D s ch1 q sc] add_vote_within [OF Suc.prems(1) h agg] add_vote_height [OF agg] v qc
        by (simp add: ch1)
      then show "bind (generate_proposal env False) (\<lambda>b. broadcast_propose env (handle_vote_rec env n) b) sc =
          bind (generate_proposal env False) (\<lambda>b. broadcast_propose env (handle_vote_rec env m') b) sc"
      proof (rule bind_cong_pres [OF within_steps(3)])
        fix b and sc' :: "'db core \<times> chain"
        assume "within ?c ?D sc'"
        then show "broadcast_propose env (handle_vote_rec env n) b sc' = broadcast_propose env (handle_vote_rec env m') b sc'"
        proof (rule broadcast_propose_cong)
          fix v1 and sc1 :: "'db core \<times> chain"
          assume "within ?c ?D sc1"
          moreover have "finite ?D" "- 1 \<notin> ?D"
            using Suc.prems(2,3) by simp_all
          ultimately show "handle_vote_rec env n v1 sc1 = handle_vote_rec env m' v1 sc1"
            using Suc.IH [where D = ?D and m = m' and v = v1 and s = "fst sc1" and ch = "snd sc1"] card by simp
        qed
      qed
    qed
    show ?case
      unfolding m handle_vote_rec_round using step
      by (auto split: option.split prod.split sum.split)
  qed simp
  from this [of "dom (votes_aggregators (ch_aggregator ch))" ch n m v s] assms show ?thesis
    by (auto simp: votes_within_def)
qed

lemma vote_recursion_ends_witness:
  "\<forall>v. handle_vote_rec (example_env [] 0) 1 v (start 1, chain_new (PublicKey 1) example_committee) =
       handle_vote_rec (example_env [] 0) 1000 v (start 1, chain_new (PublicKey 1) example_committee)"
proof
  fix v
  have "stake example_committee k < quorum_threshold example_committee" for k
    by (cases k) (simp add: example_stake quorum_threshold_def total_votes_def example_authorities)
  then show "handle_vote_rec (example_env [] 0) 1 v (start 1, chain_new (PublicKey 1) example_committee) =
       handle_vote_rec (example_env [] 0) 1000 v (start 1, chain_new (PublicKey 1) example_committee)"
    by (intro vote_recursion_ends) (simp_all add: aggregator_new_def)
qed

end
