(* ===== verification/Spec2Isabelle.thy ===== *)
theory Spec2Isabelle
  imports Voting Agreement Chain_Agreement Delivery Replication Store_Client Certificates Encoding Progress
    Payload_Maker Mempool_Waiting Mempool_Queues Mempool_Node Dissemination Availability Block_Sync Network_Link Text_Forms Client Node Command_Line Vote_Recursion
begin

text \<open>
  A verification development for the DAG-based HotStuff node of this repository
  (crates \<^verbatim>\<open>crypto\<close>, \<^verbatim>\<open>store\<close>, \<^verbatim>\<open>network\<close>, \<^verbatim>\<open>mempool\<close>,
  \<^verbatim>\<open>consensus\<close> and \<^verbatim>\<open>node\<close>).

  \<^bold>\<open>The program.\<close> Clients send transactions to a node's front end; the payload maker gathers
  them into signed payloads; the mempool core stores and broadcasts payloads, queues their
  digests for proposals, and tells the consensus whether the payloads of a block are there.
  In the consensus every authority extends a chain of its own: the core votes for blocks,
  collects votes into certificates, and proposes the next block on the certificate of the
  last. When chains reach the height at which an epoch ends, or on timeouts, a randomised
  binary agreement with threshold coins decides on the leader of the epoch; its chain, and
  what it references of the others, is committed. Two synchronizers, one for blocks and one
  for payloads, fetch what is missing and hand back the blocks that wait. The tasks talk over
  channels and share one key-value store.

  \<^bold>\<open>How code becomes definitions.\<close> A struct is a \<open>record\<close>, an enum a \<open>datatype\<close>, a machine
  integer a word. A method on \<open>&mut self\<close> is a function in \<open>act\<close> (theory \<^verbatim>\<open>Prelude\<close>): from
  the state to an outcome, which is \<open>Ok\<close>, \<open>Err\<close>, \<open>Panic\<close> or \<open>Diverge\<close>, and the state left
  behind. A spawned task is a step function over the events its \<open>select!\<close> can take, and a run
  over a list of events; which events come, and in which order, is not restricted, so the
  theorems about runs hold for every schedule. A channel is the list of everything sent into
  it. A future that waits is a record with what it still waits for. Integer arithmetic wraps,
  as in the release build.

  \<^bold>\<open>Parameters.\<close> What is not under \<^verbatim>\<open>src\<close> is an argument: SHA-512, ed25519, base64 and the
  threshold signatures are the fields of \<open>primitives\<close> and \<open>public_key_set\<close>; RocksDB, bincode
  and the answers of the mempool are those of \<open>env\<close>; the iteration order and the spare
  capacity of hash sets are those of \<open>mempool_env\<close>; \<open>serde_json\<close>, the refusals of the file
  system and the random keys are arguments of the functions of \<^verbatim>\<open>Node\<close>. Laws they must obey
  are hypotheses of the theorems that need them.

  \<^bold>\<open>Theories.\<close>
  \<^item> \<^verbatim>\<open>Prelude\<close>: words and bytes, outcomes, preservation \<open>pres\<close> and the rules that compute \<open>wp\<close>.
  \<^item> \<^verbatim>\<open>Crypto\<close> (\<^verbatim>\<open>crypto/src/lib.rs\<close>), \<^verbatim>\<open>Consensus_Error\<close>, \<^verbatim>\<open>Committee\<close>
    (\<^verbatim>\<open>config.rs\<close>, \<^verbatim>\<open>leader.rs\<close>), \<^verbatim>\<open>Messages\<close>, \<^verbatim>\<open>Aggregator\<close> of
    \<^verbatim>\<open>consensus/src\<close>: the data, its digests and checks, and the makers of certificates, whose
    common contract is the locale \<open>vote_collector\<close>.
  \<^item> \<^verbatim>\<open>Store\<close> (\<^verbatim>\<open>store/src\<close>): the store task over any database that satisfies the
    locale \<open>kv_store\<close>, that is whose writes do not fail; the in-memory one does, which is in
    the repository but not compiled. \<^verbatim>\<open>Store_Client\<close>: the handle of the
    store, with the commands of the tasks that share it.
  \<^item> \<^verbatim>\<open>Core_State\<close>, \<^verbatim>\<open>Core_Chain\<close>, \<^verbatim>\<open>Core_ABA\<close>, \<^verbatim>\<open>Core_Run\<close>: the
    state, the chain half, the agreement half and the main loop of
    \<^verbatim>\<open>consensus/src/core.rs\<close>, with the parts of \<^verbatim>\<open>synchronizer.rs\<close> and
    \<^verbatim>\<open>mempool.rs\<close> the core calls.
  \<^item> \<^verbatim>\<open>Block_Sync\<close>: the background task of \<^verbatim>\<open>consensus/src/synchronizer.rs\<close>.
  \<^item> \<^verbatim>\<open>Mempool_Types\<close>, \<^verbatim>\<open>Payload_Maker\<close>, \<^verbatim>\<open>Mempool_Sync\<close>,
    \<^verbatim>\<open>Mempool_Core\<close>: the files of \<^verbatim>\<open>mempool/src\<close>.
  \<^item> \<^verbatim>\<open>Network\<close>: the sender and the workers of \<^verbatim>\<open>network/src/lib.rs\<close>, the worker of
    \<^verbatim>\<open>mempool/src/front.rs\<close>, and \<^verbatim>\<open>consensus/src/filter.rs\<close>.
  \<^item> \<^verbatim>\<open>Network_Link\<close>: the loops of \<^verbatim>\<open>network/src/lib.rs\<close> and
    \<^verbatim>\<open>mempool/src/front.rs\<close> that accept connections, with the workers they spawn.
  \<^item> \<^verbatim>\<open>Mempool_Node\<close>: the core and the synchronizer of the mempool together, as a step
    relation over the store they share and the channel between them.
  \<^item> \<^verbatim>\<open>Text_Forms\<close>: \<open>Display\<close>, \<open>Debug\<close> and the serde form of keys, of
    \<^verbatim>\<open>crypto/src/lib.rs\<close> and \<^verbatim>\<open>consensus/src/messages.rs\<close>, and decimal numbers.
  \<^item> \<^verbatim>\<open>Client\<close>, \<^verbatim>\<open>Node\<close>, \<^verbatim>\<open>Command_Line\<close>: \<^verbatim>\<open>node/src\<close>, with the start of
    the tasks in \<^verbatim>\<open>mempool/src/mempool.rs\<close> and \<^verbatim>\<open>consensus/src/consensus.rs\<close>.

  \<^bold>\<open>What the lemmas show.\<close>
  \<^item> \<^verbatim>\<open>Voting\<close> and this theory: a node never votes twice for a proposer and height, so no
    two certificates for the same proposer and height certify different blocks.
  \<^item> \<^verbatim>\<open>Chain_Files\<close>, \<^verbatim>\<open>Chain_Agreement\<close>: what a node files for the chain of another
    authority comes from verified certificates (locale \<open>filed_chain\<close>), so honest nodes file
    the same digest for a height; the certificates must be the chain's own, which the code
    does not check.
  \<^item> \<^verbatim>\<open>Chain_Frame\<close>, \<^verbatim>\<open>Agreement\<close>, \<^verbatim>\<open>Progress\<close>: the invariant of the agreement over
    all runs, that none of its handlers panics, and how the epoch moves. The contracts of
    invariants that one half cannot touch are the locales \<open>channel_blind\<close>,
    \<open>chain_blind\<close> and \<open>agreement_free\<close>.
  \<^item> \<^verbatim>\<open>Vote_Recursion\<close>: the recursion of \<open>handle_vote\<close> ends.
  \<^item> \<^verbatim>\<open>Commit\<close>, \<^verbatim>\<open>Delivery\<close>: the specification \<open>linearize\<close> of what a commit delivers,
    that the code refines it, once and in order, and the two situations in which it does not.
  \<^item> \<^verbatim>\<open>Replication\<close>: a second refinement of commits, to an order of blocks into which no node's
    state enters, so that two nodes which agree on the certified digests deliver the same
    blocks in the same order up to a block of the leader, however each cuts it into commits;
    and what a node loses that ends an epoch with a gap in the leader's chain.
  \<^item> \<^verbatim>\<open>Store\<close>, \<^verbatim>\<open>Store_Client\<close>: a waiting read is answered once, and a read
    sees the writes called before it by any task.
  \<^item> \<^verbatim>\<open>Certificates\<close>, \<^verbatim>\<open>Encoding\<close>: thresholds, overlap of quorums, exactly which
    certificates verify and which the makers hand out; byte forms and what is hashed.
  \<^item> \<^verbatim>\<open>Mempool_Waiting\<close>, \<^verbatim>\<open>Mempool_Queues\<close>: a block on hold is handed back only when
    its payloads are there, and then it can be, unless a cleanup or an error of the store comes
    first; a waiter whose block's entry is removed by an older waiter counts as cancelled; the
    invariant of the queues, over the locale \<open>hash_set\<close>; what \<open>get_payload\<close> and
    \<open>verify_payload\<close> return; and how unusable payloads get in.
  \<^item> \<^verbatim>\<open>Mempool_Frame\<close>, \<^verbatim>\<open>Mempool_Node\<close>: invariants of the mempool core as the
    locales \<open>mempool_frame\<close> and \<open>mempool_invariant\<close>; over the two tasks, a block comes back
    only with all its payloads in the store, and can come back as soon as they are; what is
    handed out for proposals was broadcast or accepted before.
  \<^item> \<^verbatim>\<open>Dissemination\<close>: two mempools over the network: what one broadcasts the others
    accept, as long as its clients keep to the limit.
  \<^item> \<^verbatim>\<open>Availability\<close>: the consensus core together with the mempool: what a node votes for
    is in its store, unless a block was handed back by someone else than its own tasks.
  \<^item> \<^verbatim>\<open>Payload_Maker\<close>: equivalence of the runner with a reference that cuts the stream of
    transactions.
  \<^item> \<^verbatim>\<open>Block_Sync\<close>, \<^verbatim>\<open>Network\<close>, \<^verbatim>\<open>Network_Link\<close>, \<^verbatim>\<open>Client\<close>,
    \<^verbatim>\<open>Node\<close>: no panic and a lost waiter of the block synchronizer; order on the
    connections, from the sender's queue to the receiver's channel, and nothing lost on the way
    there from the core through the filter; the transactions of the client, also over a
    connection that fails; configuration files read back, threshold keys that fit the coin, and
    which nodes start.
  \<^item> \<^verbatim>\<open>Text_Forms\<close>, \<^verbatim>\<open>Command_Line\<close>: numbers and keys read back, what the text of a
    vote tells; when the client starts to send; that the local test bed never runs, and up to
    which size its addresses differ.
  \<^item> \<^verbatim>\<open>Example_Setup\<close>, \<^verbatim>\<open>Examples\<close>: a committee of four on which the theorems are applied.

  \<^bold>\<open>Bounds.\<close> Two methods of the core recurse without a structural argument, \<open>commit_prev_block\<close>
  and \<open>handle_vote\<close>; they run on \<open>fuel\<close> of the environment and end in \<open>Diverge\<close> without it.
  For commits the number of missing heights plus the number of blocks delivered is enough
  (\<^verbatim>\<open>Delivery\<close>), and a case in which no fuel is enough is shown there too; for votes one more
  than the number of heights with votes on file is enough when no authority is a quorum alone
  (\<^verbatim>\<open>Vote_Recursion\<close>). The theorems about runs hold for every fuel. All other loops are structural.

  \<^bold>\<open>Not modelled.\<close> TCP and the framing of its streams, the capacity of channels (a full channel
  delays its sender), logging, the matching of the command line, the derived serde impls and
  the parsing of socket addresses: input and output without logic of their own. The Python
  scripts under \<^verbatim>\<open>benchmark\<close> are not part of the program. That the binary agreement
  gives all nodes one output needs a probabilistic model of the coin. Agreement of the nodes
  beyond one leader would need it, and that no commit of an epoch passes the height on which
  its agreement ends, which is not shown.
\<close>

section \<open>One block per height\<close>

text \<open>
  C2. In a committee whose total stake is 3f+1, two quorum certificates that pass QC::verify
  for the same proposer and height certify the same block in the same epoch, when the faulty
  authorities together with the proposer hold at most f and an honest signer of a certificate
  has sent the vote it signed in some run of its core.
\<close>

theorem one_block_per_height:
  fixes env :: "public_key \<Rightarrow> 'db env"
  assumes "committee_ok c" and "stakes_fit c" and "total_stake c mod 3 = 1"
    and bound: "weight_of c (insert p faulty) \<le> (total_stake c - 1) div 3"
    and unforgeable: "\<And>q k s. q \<in> {q1, q2} \<Longrightarrow> verify_batch cr (qc_digest cr q) (qc_votes q) = Inr () \<Longrightarrow>
      (k, s) \<in> set (qc_votes q) \<Longrightarrow> k \<notin> insert p faulty \<Longrightarrow>
      \<exists>v \<in> set (votes_sent (snd (core_run (env k) (events k) (core_new k c (params k) (svc k) pks (st k) c)))).
        v_hash v = qc_hash q \<and> v_epoch v = qc_epoch q \<and> v_height v = qc_height q \<and> v_proposer v = qc_proposer q"
    and verified: "qc_verify cr c q1 = Inr ()" "qc_verify cr c q2 = Inr ()"
    and same: "qc_proposer q1 = p" "qc_proposer q2 = p" "qc_height q1 = qc_height q2"
  shows "qc_hash q1 = qc_hash q2 \<and> qc_epoch q1 = qc_epoch q2"
  by (rule certified_block_unique [OF assms(1-3) bound unforgeable verified same])

text \<open>Nodes 2 and 3 vote for the first block of node 1, and the three votes make a certificate.\<close>

lemma example_votes:
  "votes_sent (snd (core_run (example_env [] (Suc n)) [CoreMsg (Propose (example_block 1 1 []))] (start 2))) = [example_vote 2 (Digest 0)]"
  "votes_sent (snd (core_run (example_env [] (Suc n)) [CoreMsg (Propose (example_block 1 1 []))] (start 3))) = [example_vote 3 (Digest 0)]"
  by (simp_all add: run_eval del: signature_new.simps)

lemma one_block_per_height_witness:
  "qc_hash (example_qc (Digest 0) (map PublicKey [1, 2, 3])) = qc_hash (example_qc (Digest 0) (map PublicKey [2, 1, 3])) \<and>
   qc_epoch (example_qc (Digest 0) (map PublicKey [1, 2, 3])) = qc_epoch (example_qc (Digest 0) (map PublicKey [2, 1, 3]))"
proof (rule one_block_per_height [of example_committee "PublicKey 1" "{}" _ _ example_primitives "\<lambda>k. example_env [] 5"
      "\<lambda>k. [CoreMsg (Propose (example_block 1 1 []))]" "\<lambda>k. default_parameters" "\<lambda>k. example_service"
      example_key_set "\<lambda>k. []"])
  fix q k s
  assume q: "q \<in> {example_qc (Digest 0) (map PublicKey [1, 2, 3]), example_qc (Digest 0) (map PublicKey [2, 1, 3])}"
    and "(k, s) \<in> set (qc_votes q)" and "k \<notin> insert (PublicKey 1) {}"
  then have "k = PublicKey 2 \<or> k = PublicKey 3"
    by (auto simp: example_qc_def)
  then show "\<exists>v \<in> set (votes_sent (snd (core_run (example_env [] 5) [CoreMsg (Propose (example_block 1 1 []))]
      (core_new k example_committee default_parameters example_service example_key_set [] example_committee)))).
        v_hash v = qc_hash q \<and> v_epoch v = qc_epoch q \<and> v_height v = qc_height q \<and> v_proposer v = qc_proposer q"
    using example_votes [of 4, simplified] q by (auto simp: start_def example_qc_def example_vote_def)
qed (simp_all add: example_qc_def example_weight qc_verify_Inr is_quorum_def example_stake example_quorum verify_batch_Inr
    example_primitives_def)

end
